(* ===== verification/Prelude.thy ===== *)
theory Prelude
  imports Main "HOL-Library.Word" "HOL-Library.Multiset"
begin

text \<open>
  Shared vocabulary of the development: the machine types of the Rust sources, the parts of
  Rust's standard library that several components call (\<^verbatim>\<open>Iterator::position\<close>,
  \<^verbatim>\<open>VecDeque::remove\<close>, \<^verbatim>\<open>to_le_bytes\<close>, \<^verbatim>\<open>SystemTime::duration_since\<close>, the \<open>?\<close> operator) and
  the generic lemmas on lists, words and fixed-size byte arrays that the component theories
  rest on.
\<close>

unbundle bit_operations_syntax

section \<open>Types\<close>

type_synonym u8 = "8 word"
type_synonym u16 = "16 word"
type_synonym u32 = "32 word"
type_synonym u64 = "64 word"
type_synonym bytes = "u8 list"

text \<open>A point of \<^verbatim>\<open>SystemTime\<close> or \<^verbatim>\<open>Instant\<close> is a number of nanoseconds on the clock's axis; a
  \<^verbatim>\<open>Duration\<close> is a non-negative number of nanoseconds.\<close>

type_synonym system_time = int
type_synonym duration = nat

text \<open>\<^verbatim>\<open>Ipv4Addr\<close>, by its four octets.\<close>

datatype ipv4 = Ipv4 (octet0: u8) (octet1: u8) (octet2: u8) (octet3: u8)

named_theorems wire_roundtrip \<open>decoding what was encoded gives it back\<close>
named_theorems keeps_inv \<open>an operation keeps its component's invariant\<close>

section \<open>Definitions from the standard library\<close>

definition duration_since :: "system_time \<Rightarrow> system_time \<Rightarrow> duration option" where
  "duration_since now earlier = (if earlier \<le> now then Some (nat (now - earlier)) else None)"

definition from_secs :: "nat \<Rightarrow> duration" where
  "from_secs s = s * 1000000000"

definition as_secs :: "duration \<Rightarrow> nat" where
  "as_secs d = d div 1000000000"

definition as_millis :: "duration \<Rightarrow> nat" where
  "as_millis d = d div 1000000"

text \<open>The \<open>?\<close> operator on \<^verbatim>\<open>Result\<close>: \<open>Inl\<close> is \<^verbatim>\<open>Err\<close>.\<close>

definition try_bind :: "'e + 'a \<Rightarrow> ('a \<Rightarrow> 'e + 'b) \<Rightarrow> 'e + 'b" where
  "try_bind r f = (case r of Inl e \<Rightarrow> Inl e | Inr x \<Rightarrow> f x)"

fun position :: "('a \<Rightarrow> bool) \<Rightarrow> 'a list \<Rightarrow> nat option" where
  "position p [] = None"
| "position p (x # xs) = (if p x then Some 0 else map_option Suc (position p xs))"

text \<open>\<^verbatim>\<open>VecDeque::remove\<close> at a position below the length; the callers only use positions that
  \<^verbatim>\<open>position\<close> returned.\<close>

definition remove_at :: "nat \<Rightarrow> 'a list \<Rightarrow> 'a list" where
  "remove_at i xs = take i xs @ drop (Suc i) xs"

text \<open>\<^verbatim>\<open>to_le_bytes\<close> and \<^verbatim>\<open>from_le_bytes\<close>, for every width.\<close>

definition to_le :: "nat \<Rightarrow> 'a::len word \<Rightarrow> bytes" where
  "to_le n w = map (\<lambda>i. ucast (drop_bit (8 * i) w)) [0..<n]"

fun from_le :: "bytes \<Rightarrow> 'a::len word" where
  "from_le [] = 0"
| "from_le (b # bs) = ucast b OR push_bit 8 (from_le bs)"

definition leading_zeros :: "'a::len word \<Rightarrow> nat" where
  "leading_zeros w = length (takeWhile (\<lambda>i. \<not> bit w i) (rev [0..<LENGTH('a)]))"

section \<open>Fixed arrays of 16 bytes\<close>

text \<open>The array type \<^verbatim>\<open>[u8; 16]\<close>. Every function below is total on it, as indexing with a constant
  below 16 is in the sources.\<close>

typedef arr16 = "{bs :: bytes. length bs = 16}" morphisms arr_bytes Abs_arr16
  by (rule exI [of _ "replicate 16 0"]) simp

lemma arr16_abstype [code abstype]: "Abs_arr16 (arr_bytes a) = a"
  by (rule arr_bytes_inverse)

text \<open>The array literal with the given bytes; a short list is filled with zeros, as in
  \<^verbatim>\<open>let mut a = [0u8; 16]\<close> followed by a copy of a prefix.\<close>

definition arr16 :: "bytes \<Rightarrow> arr16" where
  [code del]: "arr16 bs = Abs_arr16 (take 16 (bs @ replicate 16 0))"

instantiation arr16 :: equal
begin

definition equal_arr16 :: "arr16 \<Rightarrow> arr16 \<Rightarrow> bool" where
  "equal_arr16 a b \<longleftrightarrow> arr_bytes a = arr_bytes b"

instance
  by standard (simp add: equal_arr16_def arr_bytes_inject)

end

lemma length_arr_bytes [simp]: "length (arr_bytes a) = 16"
  using arr_bytes [of a] by simp

lemma arr_bytes_arr16_code [code abstract]: "arr_bytes (arr16 bs) = take 16 (bs @ replicate 16 0)"
  by (simp add: arr16_def Abs_arr16_inverse)

lemma arr_bytes_arr16 [simp]: "length bs = 16 \<Longrightarrow> arr_bytes (arr16 bs) = bs"
  by (simp add: arr_bytes_arr16_code)

lemma arr16_arr_bytes [simp]: "arr16 (arr_bytes a) = a"
  by (simp add: arr16_def arr_bytes_inverse)

lemma arr16_eqI: "arr_bytes a = arr_bytes b \<Longrightarrow> a = b"
  by (simp add: arr_bytes_inject)

lemma arr16_eq_iff: "a = b \<longleftrightarrow> arr_bytes a = arr_bytes b"
  by (simp add: arr_bytes_inject)

section \<open>Little-endian bytes\<close>

lemma bit_from_le:
  "bit (from_le bs :: 'a::len word) i \<longleftrightarrow>
     i < LENGTH('a) \<and> i div 8 < length bs \<and> bit (bs ! (i div 8)) (i mod 8)"
proof (induction bs arbitrary: i)
  case Nil
  then show ?case by simp
next
  case (Cons b bs)
  show ?case
  proof (cases "i < 8")
    case True
    then show ?thesis by (auto simp: bit_simps)
  next
    case False
    then have "i div 8 = Suc ((i - 8) div 8)" "(i - 8) mod 8 = i mod 8"
      by (auto simp: le_div_geq le_mod_geq)
    with False show ?thesis
      by (auto simp: bit_simps Cons.IH dest: bit_imp_le_length)
  qed
qed

lemma length_to_le [simp]: "length (to_le n w) = n"
  by (simp add: to_le_def)

lemma bit_nth_to_le: "i < n \<Longrightarrow> bit (to_le n w ! i) k \<longleftrightarrow> k < 8 \<and> bit w (8 * i + k)"
  by (auto simp: to_le_def bit_simps add.commute dest: bit_imp_le_length)

lemma from_le_to_le [simp]: "LENGTH('a) \<le> 8 * n \<Longrightarrow> from_le (to_le n w) = (w :: 'a::len word)"
  by (rule bit_eqI)
    (auto simp: bit_from_le bit_nth_to_le less_mult_imp_div_less mult.commute [of _ 8]
      dest: bit_imp_le_length)

lemma to_le_from_le:
  "LENGTH('a) = 8 * n \<Longrightarrow> length bs = n \<Longrightarrow> to_le n (from_le bs :: 'a::len word) = bs"
  by (rule nth_equalityI, simp, rule bit_eqI) (auto simp: bit_from_le bit_nth_to_le)

section \<open>Bits, sums and orders\<close>

lemma bit_shifted_sum:
  fixes x y :: nat
  assumes "y < 2 ^ n"
  shows "bit (x * 2 ^ n + y) k \<longleftrightarrow> (if k < n then bit y k else bit x (k - n))"
proof -
  have "take_bit n (x * 2 ^ n + y) = y" "drop_bit n (x * 2 ^ n + y) = x"
    using assms by (simp_all add: take_bit_eq_mod drop_bit_eq_div)
  then have "bit y k \<longleftrightarrow> k < n \<and> bit (x * 2 ^ n + y) k" "bit x (k - n) \<longleftrightarrow> bit (x * 2 ^ n + y) (n + (k - n))"
    by (metis bit_take_bit_iff, metis bit_drop_bit_eq comp_apply)
  then show ?thesis by auto
qed

lemma shifted_sum_less:
  fixes x y :: nat
  assumes "y < N" "y' < N"
  shows "x * N + y < x' * N + y' \<longleftrightarrow> x < x' \<or> x = x' \<and> y < y'"
proof -
  have "a * N + b < a' * N + b'" if "a < a'" "b < N" for a a' b b' :: nat
  proof -
    have "a * N + b < Suc a * N" using that by simp
    also have "\<dots> \<le> a' * N" using that by (intro mult_le_mono1) simp
    finally show ?thesis by simp
  qed
  from this [of x x' y y'] this [of x' x y' y] assms show ?thesis
    by (cases x x' rule: linorder_cases) auto
qed

lemma shifted_sum_eq:
  fixes x y :: nat
  assumes "y < N" "y' < N"
  shows "x * N + y = x' * N + y' \<longleftrightarrow> x = x' \<and> y = y'"
  using shifted_sum_less [OF assms, of x x'] shifted_sum_less [OF assms(2,1), of x' x]
  by (auto simp: order_less_irrefl)

lemma leading_zeros_spec:
  fixes w :: "'a::len word"
  assumes "w \<noteq> 0"
  shows "leading_zeros w < LENGTH('a)" and "bit w (LENGTH('a) - 1 - leading_zeros w)"
    and "j < leading_zeros w \<Longrightarrow> \<not> bit w (LENGTH('a) - 1 - j)"
proof -
  let ?xs = "rev [0..<LENGTH('a)]"
  let ?P = "\<lambda>i. \<not> bit w i"
  have nth: "?xs ! k = LENGTH('a) - 1 - k" if "k < LENGTH('a)" for k
    using that by (simp add: rev_nth)
  obtain k where "bit w k" "k < LENGTH('a)"
    using assms by (metis bit_eq_iff bit_imp_le_length bit_0_eq bot_apply bot_bool_def)
  then have "\<not> (\<forall>x \<in> set ?xs. ?P x)" by auto
  then have lt: "length (takeWhile ?P ?xs) < length ?xs"
    by (metis length_takeWhile_le linorder_not_le order_antisym takeWhile_eq_all_conv takeWhile_eq_take take_all_iff)
  then show "leading_zeros w < LENGTH('a)"
    by (simp add: leading_zeros_def)
  with nth_length_takeWhile [OF lt] nth show "bit w (LENGTH('a) - 1 - leading_zeros w)"
    by (simp add: leading_zeros_def)
  show "\<not> bit w (LENGTH('a) - 1 - j)" if "j < leading_zeros w"
  proof -
    have j: "j < length (takeWhile ?P ?xs)"
      using that by (simp add: leading_zeros_def)
    then have "?P (takeWhile ?P ?xs ! j)"
      using nth_mem set_takeWhileD by fastforce
    then show ?thesis
      using takeWhile_nth [OF j] nth [of j] j lt by simp
  qed
qed

lemma highest_bit_less:
  fixes x y :: nat
  assumes "\<And>m. n < m \<Longrightarrow> bit x m = bit y m" and "\<not> bit x n" and "bit y n"
  shows "x < y"
proof -
  have "drop_bit (Suc n) x = drop_bit (Suc n) y"
    by (rule bit_eqI) (simp add: bit_drop_bit_eq assms(1))
  then have "x div 2 ^ Suc n = y div 2 ^ Suc n"
    by (simp only: drop_bit_eq_div)
  moreover have "z div 2 ^ n = 2 * (z div 2 ^ Suc n) + of_bool (bit z n)" for z :: nat
    by (simp add: bit_iff_odd div_mult2_eq power_Suc2 del: power_Suc)
  ultimately have "x div 2 ^ n < y div 2 ^ n"
    using assms(2,3) by simp
  then show ?thesis
    by (metis div_le_mono linorder_not_le)
qed
lemma nat_xor_le_plus: "(x :: nat) XOR y \<le> x + y"
proof (induction x arbitrary: y rule: less_induct)
  case (less x)
  show ?case
  proof (cases "x = 0")
    case False
    then have "(x div 2) XOR (y div 2) \<le> x div 2 + y div 2"
      by (intro less) simp
    moreover have "x XOR y = of_bool (odd x \<noteq> odd y) + 2 * ((x div 2) XOR (y div 2))"
      by (rule xor_rec)
    moreover have "2 * (x div 2) + of_bool (odd x) = x" "2 * (y div 2) + of_bool (odd y) = y"
      using div_mult_mod_eq [of x 2] div_mult_mod_eq [of y 2]
      by (simp_all only: mod_2_eq_odd mult.commute)
    moreover have "(of_bool (odd x \<noteq> odd y) :: nat) \<le> of_bool (odd x) + of_bool (odd y)"
      by simp
    ultimately show ?thesis
      by linarith
  qed simp
qed

lemma word_xor_zero_iff: "x XOR y = 0 \<longleftrightarrow> x = (y :: 'a::len word)"
  by (auto simp: bit_eq_iff bit_simps)

section \<open>Results and positions\<close>

lemma try_bind_simps [simp]:
  "try_bind (Inl e) f = Inl e"
  "try_bind (Inr x) f = f x"
  by (simp_all add: try_bind_def)

lemma try_bind_Inr_iff: "try_bind r f = Inr y \<longleftrightarrow> (\<exists>x. r = Inr x \<and> f x = Inr y)"
  by (cases r) simp_all

lemma position_None_iff: "position p xs = None \<longleftrightarrow> (\<forall>x \<in> set xs. \<not> p x)"
  by (induction xs) auto

lemma position_SomeD:
  "position p xs = Some i \<Longrightarrow> i < length xs \<and> p (xs ! i) \<and> (\<forall>j < i. \<not> p (xs ! j))"
proof (induction xs arbitrary: i)
  case Nil
  then show ?case by simp
next
  case (Cons x xs)
  then show ?case
    by (auto split: if_splits simp: nth_Cons split: nat.splits)
qed

lemma position_Some_split:
  assumes "position p xs = Some i"
  shows "xs = take i xs @ xs ! i # drop (Suc i) xs" and "remove_at i xs = take i xs @ drop (Suc i) xs"
  using position_SomeD [OF assms] by (simp_all add: remove_at_def id_take_nth_drop)

lemma mset_remove_at: "i < length xs \<Longrightarrow> add_mset (xs ! i) (mset (remove_at i xs)) = mset xs"
proof -
  assume "i < length xs"
  then have "mset xs = mset (take i xs @ xs ! i # drop (Suc i) xs)"
    by (simp only: id_take_nth_drop [symmetric])
  then show ?thesis by (simp add: remove_at_def)
qed

lemma length_remove_at: "i < length xs \<Longrightarrow> Suc (length (remove_at i xs)) = length xs"
  by (simp add: remove_at_def)

lemma set_remove_at_subset: "set (remove_at i xs) \<subseteq> set xs"
  by (auto simp: remove_at_def dest: in_set_takeD in_set_dropD)

lemma distinct_map_remove_at:
  assumes "distinct (map f xs)" "i < length xs"
  shows "distinct (map f (remove_at i xs))" and "f (xs ! i) \<notin> set (map f (remove_at i xs))"
proof -
  have "map f xs = map f (take i xs) @ f (xs ! i) # map f (drop (Suc i) xs)"
    using id_take_nth_drop [OF assms(2)] by (metis list.simps(9) map_append)
  with assms(1) show "distinct (map f (remove_at i xs))" "f (xs ! i) \<notin> set (map f (remove_at i xs))"
    by (auto simp: remove_at_def)
qed

lemma mset_exchange:
  assumes "old \<in># M" "add_mset old M' = add_mset new M"
  shows "\<exists>N. M = add_mset old N \<and> M' = add_mset new N"
proof -
  obtain N where "M = add_mset old N" using assms(1) by (metis insert_DiffM)
  with assms(2) show ?thesis by simp
qed

lemma length_filter_mset: "length (filter p xs) = size (filter_mset p (mset xs))"
  by (simp flip: mset_filter)

lemma find_position:
  "find p xs = (case position p xs of None \<Rightarrow> None | Some i \<Rightarrow> Some (xs ! i))"
  by (induction xs) (auto split: option.splits)

lemma find_unique:
  assumes "distinct (map f xs)"
  shows "find (\<lambda>x. f x = k) xs = Some x \<longleftrightarrow> x \<in> set xs \<and> f x = k"
  using assms by (induction xs) auto

section \<open>Scans for a minimum\<close>

text \<open>The loop shape \<^verbatim>\<open>if best.is_none_or(|(_, b)| q < b) { best = Some((x, q)) }\<close> over the eligible
  elements, to which the scans of the sources are reduced.\<close>

fun best_scan :: "('a \<Rightarrow> nat option) \<Rightarrow> 'a list \<Rightarrow> ('a \<times> nat) option \<Rightarrow> ('a \<times> nat) option" where
  "best_scan score [] best = best"
| "best_scan score (x # xs) best =
     (case score x of
        None \<Rightarrow> best_scan score xs best
      | Some q \<Rightarrow>
          if (case best of None \<Rightarrow> True | Some (_, b) \<Rightarrow> q < b)
          then best_scan score xs (Some (x, q)) else best_scan score xs best)"

lemma best_scan_le:
  "best_scan score xs (Some (y, b)) = Some (x, q) \<Longrightarrow>
     q \<le> b \<and> ((x, q) = (y, b) \<or> x \<in> set xs \<and> score x = Some q)
     \<and> (\<forall>z \<in> set xs. \<forall>p. score z = Some p \<longrightarrow> q \<le> p)"
proof (induction xs arbitrary: y b)
  case Nil
  then show ?case by simp
next
  case (Cons z zs)
  show ?case
  proof (cases "\<exists>p. score z = Some p \<and> p < b")
    case True
    then obtain p where "score z = Some p" "p < b" by blast
    with Cons.prems Cons.IH [of z p] show ?thesis by auto
  next
    case False
    then have "best_scan score zs (Some (y, b)) = Some (x, q)"
      using Cons.prems by (auto split: option.splits if_splits)
    with Cons.IH [of y b] False show ?thesis by fastforce
  qed
qed

lemma best_scan_Some_not_None: "best_scan score xs (Some w) \<noteq> None"
  by (induction xs arbitrary: w) (auto split: option.splits)

lemma best_scan_None: "best_scan score xs None = None \<longleftrightarrow> (\<forall>x \<in> set xs. score x = None)"
  by (induction xs) (auto simp: best_scan_Some_not_None split: option.splits)

lemma best_scan_Some:
  "best_scan score xs None = Some (x, q) \<Longrightarrow>
     x \<in> set xs \<and> score x = Some q \<and> (\<forall>z \<in> set xs. \<forall>p. score z = Some p \<longrightarrow> q \<le> p)"
proof (induction xs)
  case Nil
  then show ?case by simp
next
  case (Cons z zs)
  then show ?case
    by (cases "score z") (auto dest!: best_scan_le)
qed

end
