(* ===== verification/Node_Id.thy ===== *)
theory Node_Id
  imports Prelude
begin

text \<open>
  The 128-bit identifiers of \<^verbatim>\<open>emulebb-kad-proto\<close>: \<^verbatim>\<open>node_id.rs\<close> (\<^verbatim>\<open>NodeId\<close>, its XOR distance, the
  bit numbering that the routing tree branches on, its order and its hexadecimal form) and
  \<^verbatim>\<open>hash.rs\<close> (\<^verbatim>\<open>Ed2kHash\<close> and \<^verbatim>\<open>KadUdpKey\<close>). An identifier keeps the bytes in wire layout: four
  little-endian 32-bit chunks, the most significant chunk first.
\<close>

section \<open>Model\<close>

datatype node_id = NodeId (wire_bytes: arr16)
datatype ed2k_hash = Ed2kHash (hash_bytes: arr16)
datatype kad_udp_key = KadUdpKey (key_value: u32)

definition id_ZERO :: node_id where
  "id_ZERO = NodeId (arr16 [])"

definition key_ZERO :: kad_udp_key where
  "key_ZERO = KadUdpKey 0"

definition swap_u32_byte_order :: "arr16 \<Rightarrow> arr16" where
  "swap_u32_byte_order a =
     (let b = arr_bytes a in
      arr16 (concat (map (\<lambda>chunk. let start = chunk * 4 in
        [b ! (start + 3), b ! (start + 2), b ! (start + 1), b ! start]) [0..<4])))"

definition from_kad_uint128_wire_bytes :: "arr16 \<Rightarrow> ed2k_hash" where
  "from_kad_uint128_wire_bytes wire = Ed2kHash (swap_u32_byte_order wire)"

definition to_kad_uint128_wire_bytes :: "ed2k_hash \<Rightarrow> arr16" where
  "to_kad_uint128_wire_bytes h = swap_u32_byte_order (hash_bytes h)"

definition from_be_bytes :: "arr16 \<Rightarrow> node_id" where
  "from_be_bytes a =
     (let b = arr_bytes a in
      NodeId (arr16 (concat (map (\<lambda>chunk_idx. let start = chunk_idx * 4 in
        [b ! (start + 3), b ! (start + 2), b ! (start + 1), b ! start]) [0..<4]))))"

definition to_be_bytes :: "node_id \<Rightarrow> arr16" where
  "to_be_bytes i =
     (let b = arr_bytes (wire_bytes i) in
      arr16 (concat (map (\<lambda>chunk_idx. let start = chunk_idx * 4 in
        [b ! (start + 3), b ! (start + 2), b ! (start + 1), b ! start]) [0..<4])))"

definition chunk_u32 :: "node_id \<Rightarrow> nat \<Rightarrow> u32" where
  "chunk_u32 i index =
     (let b = arr_bytes (wire_bytes i); start = index * 4 in
      from_le [b ! start, b ! (start + 1), b ! (start + 2), b ! (start + 3)])"

definition distance :: "node_id \<Rightarrow> node_id \<Rightarrow> node_id" where
  "distance a b =
     NodeId (arr16 (map (\<lambda>index. (arr_bytes (wire_bytes a) ! index) XOR (arr_bytes (wire_bytes b) ! index)) [0..<16]))"

fun first_set_chunk :: "node_id \<Rightarrow> nat list \<Rightarrow> nat option" where
  "first_set_chunk x [] = None"
| "first_set_chunk x (chunk_idx # rest) =
     (let chunk = chunk_u32 x chunk_idx in
      if chunk \<noteq> 0 then Some (chunk_idx * 32 + leading_zeros chunk) else first_set_chunk x rest)"

definition distance_exp :: "node_id \<Rightarrow> node_id \<Rightarrow> nat option" where
  "distance_exp a b = first_set_chunk (distance a b) [0..<4]"

definition node_bit :: "node_id \<Rightarrow> nat \<Rightarrow> bool" where
  "node_bit i pos =
     (let chunk_idx = pos div 32 in
      if chunk_idx \<ge> 4 then False
      else let bit_idx = 31 - pos mod 32 in drop_bit bit_idx (chunk_u32 i chunk_idx) AND 1 = 1)"

text \<open>\<^verbatim>\<open>Ord::cmp\<close>: the first chunk that differs decides.\<close>

datatype ordering = OLess | OEqual | OGreater

definition cmp_u32 :: "u32 \<Rightarrow> u32 \<Rightarrow> ordering" where
  "cmp_u32 x y = (if x < y then OLess else if x = y then OEqual else OGreater)"

fun cmp_chunks :: "node_id \<Rightarrow> node_id \<Rightarrow> nat list \<Rightarrow> ordering" where
  "cmp_chunks a b [] = OEqual"
| "cmp_chunks a b (chunk_idx # rest) =
     (let ord = cmp_u32 (chunk_u32 a chunk_idx) (chunk_u32 b chunk_idx) in
      if ord \<noteq> OEqual then ord else cmp_chunks a b rest)"

definition node_cmp :: "node_id \<Rightarrow> node_id \<Rightarrow> ordering" where
  "node_cmp a b = cmp_chunks a b [0..<4]"

text \<open>Hexadecimal text. A string is its UTF-8 bytes; slicing it at a byte that is not a
  character boundary panics.\<close>

datatype 'a parse_outcome = ParseOk 'a | InvalidNodeId | Panic

definition hex_digit :: "nat \<Rightarrow> u8" where
  "hex_digit d = of_nat (if d < 10 then 48 + d else 87 + d)"

definition hex_lower :: "nat \<Rightarrow> 'a::len word \<Rightarrow> bytes" where
  "hex_lower n w = map (\<lambda>i. hex_digit (unat w div 16 ^ (n - Suc i) mod 16)) [0..<n]"

definition node_display :: "node_id \<Rightarrow> bytes" where
  "node_display i = concat (map (\<lambda>chunk_idx. hex_lower 8 (chunk_u32 i chunk_idx)) [0..<4])"

definition hash_display :: "ed2k_hash \<Rightarrow> bytes" where
  "hash_display h = concat (map (hex_lower 2) (arr_bytes (hash_bytes h)))"

definition to_digit16 :: "u8 \<Rightarrow> nat option" where
  "to_digit16 c =
     (let n = unat c in
      if 48 \<le> n \<and> n \<le> 57 then Some (n - 48)
      else if 97 \<le> n \<and> n \<le> 102 then Some (n - 87)
      else if 65 \<le> n \<and> n \<le> 70 then Some (n - 55)
      else None)"

fun parse_digits16 :: "nat \<Rightarrow> bytes \<Rightarrow> nat option" where
  "parse_digits16 acc [] = Some acc"
| "parse_digits16 acc (c # cs) =
     (case to_digit16 c of None \<Rightarrow> None | Some d \<Rightarrow> parse_digits16 (acc * 16 + d) cs)"

text \<open>\<^verbatim>\<open>from_str_radix(_, 16)\<close> on an unsigned type: empty and sign-only inputs are errors, one
  leading plus sign is skipped. The callers pass at most 8 (32-bit) or 2 (8-bit) digits, so the
  value never overflows.\<close>

definition from_str_radix16 :: "bytes \<Rightarrow> nat option" where
  "from_str_radix16 s =
     (case s of [] \<Rightarrow> None
      | c # cs \<Rightarrow>
          if c = 43 then (if cs = [] then None else parse_digits16 0 cs)
          else parse_digits16 0 s)"

text \<open>\<^verbatim>\<open>str::is_char_boundary\<close>: the start, the end, or a byte that is not a continuation byte.\<close>

definition is_char_boundary :: "bytes \<Rightarrow> nat \<Rightarrow> bool" where
  "is_char_boundary s i \<longleftrightarrow> i = 0 \<or> i = length s \<or> (i < length s \<and> s ! i AND 0xC0 \<noteq> 0x80)"

definition str_slice :: "bytes \<Rightarrow> nat \<Rightarrow> nat \<Rightarrow> bytes option" where
  "str_slice s start stop =
     (if is_char_boundary s start \<and> is_char_boundary s stop
      then Some (take (stop - start) (drop start s)) else None)"

fun parse_slices :: "nat \<Rightarrow> bytes \<Rightarrow> nat list \<Rightarrow> nat list parse_outcome" where
  "parse_slices width s [] = ParseOk []"
| "parse_slices width s (i # rest) =
     (case str_slice s (i * width) (i * width + width) of
        None \<Rightarrow> Panic
      | Some piece \<Rightarrow>
          (case from_str_radix16 piece of
             None \<Rightarrow> InvalidNodeId
           | Some v \<Rightarrow>
               (case parse_slices width s rest of
                  ParseOk vs \<Rightarrow> ParseOk (v # vs) | InvalidNodeId \<Rightarrow> InvalidNodeId | Panic \<Rightarrow> Panic)))"

definition node_from_str :: "bytes \<Rightarrow> node_id parse_outcome" where
  "node_from_str s =
     (if length s \<noteq> 32 then InvalidNodeId
      else (case parse_slices 8 s [0..<4] of
              ParseOk chunks \<Rightarrow>
                ParseOk (from_be_bytes (arr16 (concat (map (\<lambda>v. rev (to_le 4 (of_nat v :: u32))) chunks))))
            | InvalidNodeId \<Rightarrow> InvalidNodeId
            | Panic \<Rightarrow> Panic))"

definition hash_from_str :: "bytes \<Rightarrow> ed2k_hash parse_outcome" where
  "hash_from_str s =
     (if length s \<noteq> 32 then InvalidNodeId
      else (case parse_slices 2 s [0..<16] of
              ParseOk vs \<Rightarrow> ParseOk (Ed2kHash (arr16 (map of_nat vs)))
            | InvalidNodeId \<Rightarrow> InvalidNodeId
            | Panic \<Rightarrow> Panic))"


section \<open>Chunks and bits\<close>

lemma upt_4: "[0..<4] = [0, 1, 2, 3 :: nat]"
  by (simp add: upt_rec)

lemma less_4_cases: "(c :: nat) < 4 \<Longrightarrow> c = 0 \<or> c = 1 \<or> c = 2 \<or> c = 3"
  by auto

lemma bit_chunk_u32:
  "bit (chunk_u32 i c) k \<longleftrightarrow> k < 32 \<and> bit (arr_bytes (wire_bytes i) ! (4 * c + k div 8)) (k mod 8)"
proof (cases "k < 32")
  case True
  then have "k div 8 < 4" by simp
  then show ?thesis using True
    by (auto simp: chunk_u32_def Let_def bit_from_le mult.commute [of c] simp del: from_le.simps
      dest!: less_4_cases)
next
  case False
  then show ?thesis by (auto dest: bit_imp_le_length)
qed

lemma node_bit_chunk:
  "node_bit i pos \<longleftrightarrow> pos < 128 \<and> bit (chunk_u32 i (pos div 32)) (31 - pos mod 32)"
  by (auto simp: node_bit_def Let_def and_one_eq bit_iff_odd_drop_bit odd_iff_mod_2_eq_one)

lemma nth_wire_distance:
  "k < 16 \<Longrightarrow> arr_bytes (wire_bytes (distance a b)) ! k =
     (arr_bytes (wire_bytes a) ! k) XOR (arr_bytes (wire_bytes b) ! k)"
  by (simp add: distance_def)

lemma chunk_distance [simp]:
  "c < 4 \<Longrightarrow> chunk_u32 (distance a b) c = chunk_u32 a c XOR chunk_u32 b c"
proof -
  assume "c < 4"
  then have "4 * c + k div 8 < 16" if "k < 32" for k
    using that by auto
  then show ?thesis
    by (intro bit_eqI) (auto simp: bit_chunk_u32 nth_wire_distance bit_simps)
qed

lemma node_bit_distance: "node_bit (distance a b) pos \<longleftrightarrow> node_bit a pos \<noteq> node_bit b pos"
  by (auto simp: node_bit_chunk bit_simps)

lemma node_id_eq_chunks:
  assumes "\<And>c. c < 4 \<Longrightarrow> chunk_u32 a c = chunk_u32 b c"
  shows "a = b"
proof -
  have "arr_bytes (wire_bytes a) ! k = arr_bytes (wire_bytes b) ! k" if "k < 16" for k
  proof (rule bit_eqI)
    fix n
    assume "possible_bit TYPE(u8) n"
    then have n: "n < 8" by simp
    have "k div 4 < 4" using that by simp
    then have "bit (chunk_u32 a (k div 4)) (8 * (k mod 4) + n) =
        bit (chunk_u32 b (k div 4)) (8 * (k mod 4) + n)"
      using assms by simp
    moreover have "8 * (k mod 4) + n < 32"
      using n mod_less_divisor [of 4 k] by linarith
    ultimately show "bit (arr_bytes (wire_bytes a) ! k) n = bit (arr_bytes (wire_bytes b) ! k) n"
      using n by (simp add: bit_chunk_u32)
  qed
  then have "arr_bytes (wire_bytes a) = arr_bytes (wire_bytes b)"
    by (intro nth_equalityI) auto
  then show ?thesis
    by (metis arr16_eqI node_id.expand)
qed

section \<open>The identifier as a number\<close>

text \<open>The value of an identifier as a 128-bit number, most significant chunk first. The XOR
  distance, the bit numbering and the order of the code are those of this number.\<close>

definition node_val :: "node_id \<Rightarrow> nat" where
  "node_val i =
     ((unat (chunk_u32 i 0) * 2 ^ 32 + unat (chunk_u32 i 1)) * 2 ^ 32
       + unat (chunk_u32 i 2)) * 2 ^ 32 + unat (chunk_u32 i 3)"

lemma unat_u32_lt: "unat (w :: u32) < 2 ^ 32"
  using unsigned_less [of w] by simp

lemma node_bit_at: "k < 32 \<Longrightarrow> c < 4 \<Longrightarrow> node_bit i (32 * c + k) \<longleftrightarrow> bit (chunk_u32 i c) (31 - k)"
  by (simp add: node_bit_chunk)

lemma bit_node_val_cases:
  "bit (node_val i) n \<longleftrightarrow>
     (if n < 32 then bit (chunk_u32 i 3) n
      else if n < 64 then bit (chunk_u32 i 2) (n - 32)
      else if n < 96 then bit (chunk_u32 i 1) (n - 64)
      else bit (chunk_u32 i 0) (n - 96))"
  unfolding node_val_def bit_shifted_sum [OF unat_u32_lt] bit_unsigned_iff
  by (simp add: diff_diff_eq less_diff_conv2)

lemma bit_node_val: "bit (node_val i) n \<longleftrightarrow> n < 128 \<and> node_bit i (127 - n)"
proof -
  consider "n < 32" | "32 \<le> n" "n < 64" | "64 \<le> n" "n < 96" | "96 \<le> n" "n < 128" | "128 \<le> n"
    by linarith
  then show ?thesis
  proof cases
    case 1
    then have "127 - n = 32 * 3 + (31 - n)" by simp
    with 1 show ?thesis by (simp only: node_bit_at bit_node_val_cases) simp
  next
    case 2
    then have "127 - n = 32 * 2 + (63 - n)" "63 - n < 32" "31 - (63 - n) = n - 32" by simp_all
    with 2 show ?thesis by (simp only: node_bit_at bit_node_val_cases) simp
  next
    case 3
    then have "127 - n = 32 * 1 + (95 - n)" "95 - n < 32" "31 - (95 - n) = n - 64" by simp_all
    with 3 show ?thesis by (simp only: node_bit_at bit_node_val_cases) simp
  next
    case 4
    then have "127 - n = 32 * 0 + (127 - n)" "127 - n < 32" "31 - (127 - n) = n - 96" by simp_all
    with 4 show ?thesis
      using node_bit_at [of "127 - n" 0] by (simp add: bit_node_val_cases)
  next
    case 5
    then show ?thesis by (auto simp: bit_node_val_cases dest: bit_imp_le_length)
  qed
qed

lemma node_val_distance: "node_val (distance a b) = node_val a XOR node_val b"
  by (rule bit_eqI) (auto simp: bit_xor_iff bit_node_val node_bit_distance)

lemma node_val_inject: "node_val a = node_val b \<longleftrightarrow> a = b"
proof
  assume "node_val a = node_val b"
  then have bits: "node_bit a m = node_bit b m" if "m < 128" for m
    using that bit_node_val [of a "127 - m"] bit_node_val [of b "127 - m"] less_imp_diff_less [of 127 128 m]
    by simp
  show "a = b"
  proof (rule node_id_eq_chunks, rule bit_eqI)
    fix c n :: nat
    assume c: "c < 4" and "possible_bit TYPE(u32) n"
    then have n: "n < 32" by simp
    have "32 * c + (31 - n) < 128" "31 - n < 32" "31 - (31 - n) = n"
      using n c by auto
    with bits [of "32 * c + (31 - n)"] c show "bit (chunk_u32 a c) n = bit (chunk_u32 b c) n"
      by (simp only: node_bit_at)
  qed
qed simp

lemma node_val_lt: "node_val a < 2 ^ 128"
  using unat_u32_lt [of "chunk_u32 a 0"] unat_u32_lt [of "chunk_u32 a 1"]
    unat_u32_lt [of "chunk_u32 a 2"] unat_u32_lt [of "chunk_u32 a 3"]
  by (simp add: node_val_def)

lemmas node_val_cmp_iffs =
  shifted_sum_less [OF unat_u32_lt unat_u32_lt] shifted_sum_eq [OF unat_u32_lt unat_u32_lt]

lemma node_cmp_val:
  "node_cmp a b = (if node_val a < node_val b then OLess
     else if node_val a = node_val b then OEqual else OGreater)"
  unfolding node_val_def node_val_cmp_iffs
  by (simp add: node_cmp_def upt_4 cmp_u32_def Let_def word_less_nat_alt word_unat_eq_iff)

instantiation node_id :: linorder
begin

definition less_eq_node_id :: "node_id \<Rightarrow> node_id \<Rightarrow> bool" where
  "less_eq_node_id a b \<longleftrightarrow> node_cmp a b \<noteq> OGreater"

definition less_node_id :: "node_id \<Rightarrow> node_id \<Rightarrow> bool" where
  "less_node_id a b \<longleftrightarrow> node_cmp a b = OLess"

instance
  by standard (auto simp: less_eq_node_id_def less_node_id_def node_cmp_val node_val_inject split: if_splits)

end

section \<open>Distance\<close>

lemma first_set_chunk_None: "first_set_chunk x cs = None \<longleftrightarrow> (\<forall>c \<in> set cs. chunk_u32 x c = 0)"
  by (induction cs) (auto simp: Let_def)

lemma first_set_chunk_Some:
  assumes "first_set_chunk x [k..<4] = Some n" "k \<le> 4"
  shows "32 * k \<le> n \<and> node_bit x n \<and> (\<forall>m. 32 * k \<le> m \<and> m < n \<longrightarrow> \<not> node_bit x m)"
  using assms
proof (induction "4 - k" arbitrary: k)
  case 0
  then show ?case by simp
next
  case (Suc d)
  then have k: "k < 4" by simp
  then have cons: "[k..<4] = k # [Suc k..<4]" by (simp add: upt_rec)
  show ?case
  proof (cases "chunk_u32 x k = 0")
    case True
    then have "first_set_chunk x [Suc k..<4] = Some n"
      using Suc.prems cons by simp
    with Suc.hyps k have IH: "32 * Suc k \<le> n" "node_bit x n"
        "\<And>m. 32 * Suc k \<le> m \<Longrightarrow> m < n \<Longrightarrow> \<not> node_bit x m"
      using Suc.hyps(1) [of "Suc k"] by auto
    have "\<not> node_bit x m" if "32 * k \<le> m" "m < n" for m
    proof (cases "32 * Suc k \<le> m")
      case False
      then have "m div 32 = k" using that by (intro div_nat_eqI) simp_all
      with True show ?thesis by (simp add: node_bit_chunk)
    qed (use IH that in blast)
    with IH show ?thesis by simp
  next
    case False
    let ?z = "leading_zeros (chunk_u32 x k)"
    have n: "n = 32 * k + ?z" using Suc.prems False cons by (simp add: Let_def)
    have z: "?z < 32" "bit (chunk_u32 x k) (31 - ?z)"
        "\<And>j. j < ?z \<Longrightarrow> \<not> bit (chunk_u32 x k) (31 - j)"
      using leading_zeros_spec [OF False] by simp_all
    have "\<not> node_bit x m" if "32 * k \<le> m" "m < n" for m
    proof -
      define j where "j = m - 32 * k"
      then have "m = 32 * k + j" "j < ?z" using that n by simp_all
      with z(1) z(3) [of j] k show ?thesis by (simp add: node_bit_at)
    qed
    moreover have "node_bit x n"
      unfolding n using z(1,2) k by (simp add: node_bit_at)
    ultimately show ?thesis
      using n by simp
  qed
qed

lemma distance_exp_bits:
  "distance_exp a b = Some n \<Longrightarrow>
     n < 128 \<and> node_bit a n \<noteq> node_bit b n \<and> (\<forall>m < n. node_bit a m = node_bit b m)"
proof -
  assume "distance_exp a b = Some n"
  then have "first_set_chunk (distance a b) [0..<4] = Some n"
    by (simp only: distance_exp_def)
  from first_set_chunk_Some [OF this] have "node_bit (distance a b) n"
      "\<And>m. m < n \<Longrightarrow> \<not> node_bit (distance a b) m"
    by simp_all
  moreover from this(1) have "n < 128"
    by (simp only: node_bit_chunk)
  ultimately show ?thesis
    by (simp only: node_bit_distance) blast
qed

lemma distance_exp_None_iff: "distance_exp a b = None \<longleftrightarrow> a = b"
proof
  assume "distance_exp a b = None"
  then have zero: "chunk_u32 (distance a b) c = 0" if "c < 4" for c
    using that by (simp only: distance_exp_def first_set_chunk_None set_upt) simp
  show "a = b"
  proof (rule node_id_eq_chunks)
    fix c :: nat
    assume "c < 4"
    with zero [OF this] show "chunk_u32 a c = chunk_u32 b c"
      by (simp add: word_xor_zero_iff)
  qed
next
  assume "a = b"
  then show "distance_exp a b = None"
    by (simp only: distance_exp_def first_set_chunk_None set_upt) simp
qed

lemma distance_less_iff_val: "(a :: node_id) < b \<longleftrightarrow> node_val a < node_val b"
  by (simp add: less_node_id_def node_cmp_val)

lemma distance_le_iff_val: "(a :: node_id) \<le> b \<longleftrightarrow> node_val a \<le> node_val b"
  by (auto simp: less_eq_node_id_def node_cmp_val)

section \<open>Hexadecimal text\<close>

lemma hex_digit_facts:
  assumes "d < 16"
  shows "to_digit16 (hex_digit d) = Some d" "hex_digit d \<noteq> 43" "hex_digit d AND 0xC0 \<noteq> 0x80"
proof -
  have "list_all (\<lambda>d. to_digit16 (hex_digit d) = Some d \<and> hex_digit d \<noteq> 43
      \<and> hex_digit d AND 0xC0 \<noteq> 0x80) [0..<16]"
    by code_simp
  then show "to_digit16 (hex_digit d) = Some d" "hex_digit d \<noteq> 43" "hex_digit d AND 0xC0 \<noteq> 0x80"
    using assms by (auto simp: list_all_iff)
qed

lemma parse_digits16_append:
  "parse_digits16 acc (xs @ ys) =
     (case parse_digits16 acc xs of None \<Rightarrow> None | Some v \<Rightarrow> parse_digits16 v ys)"
  by (induction xs arbitrary: acc) (auto split: option.splits)

lemma parse_digits16_hex:
  "parse_digits16 acc (map (\<lambda>i. hex_digit (v div 16 ^ (n - Suc i) mod 16)) [0..<n]) =
     Some (acc * 16 ^ n + v mod 16 ^ n)"
proof (induction n arbitrary: v)
  case 0
  then show ?case by simp
next
  case (Suc n)
  have eq: "map (\<lambda>i. hex_digit (v div 16 ^ (n - i) mod 16)) [0..<n] =
      map (\<lambda>i. hex_digit (v div 16 div 16 ^ (n - Suc i) mod 16)) [0..<n]"
  proof (rule map_cong [OF refl])
    fix i
    assume "i \<in> set [0..<n]"
    then have "n - i = Suc (n - Suc i)" by auto
    then show "hex_digit (v div 16 ^ (n - i) mod 16) =
        hex_digit (v div 16 div 16 ^ (n - Suc i) mod 16)"
      by (simp add: div_mult2_eq)
  qed
  have "v mod 16 ^ Suc n = 16 * (v div 16 mod 16 ^ n) + v mod 16"
    by (simp add: mod_mult2_eq)
  then show ?case
    by (simp add: parse_digits16_append eq Suc hex_digit_facts algebra_simps)
qed

lemma length_hex_lower [simp]: "length (hex_lower n w) = n"
  by (simp add: hex_lower_def)

lemma from_str_radix16_hex:
  "0 < n \<Longrightarrow> unat w < 16 ^ n \<Longrightarrow> from_str_radix16 (hex_lower n w) = Some (unat w)"
proof -
  assume n: "0 < n" and w: "unat w < 16 ^ n"
  then obtain cs where cs: "hex_lower n w = hex_digit (unat w div 16 ^ (n - 1) mod 16) # cs"
    by (cases n) (auto simp: hex_lower_def upt_conv_Cons simp del: upt_Suc)
  have "parse_digits16 0 (hex_lower n w) = Some (unat w)"
    using w by (simp add: hex_lower_def parse_digits16_hex)
  then show ?thesis
    by (simp add: from_str_radix16_def cs hex_digit_facts)
qed

lemma hex_lower_ascii: "c \<in> set (hex_lower n w) \<Longrightarrow> c AND 0xC0 \<noteq> 0x80"
  by (auto simp: hex_lower_def hex_digit_facts)

lemma str_slice_ascii:
  assumes "\<forall>c \<in> set s. c AND 0xC0 \<noteq> 0x80" "start \<le> stop" "stop \<le> length s"
  shows "str_slice s start stop = Some (take (stop - start) (drop start s))"
  using assms by (auto simp: str_slice_def is_char_boundary_def le_less)

lemma parse_slices_hex:
  fixes ws :: "'a::len word list"
  assumes "0 < width" "\<And>w. w \<in> set ws \<Longrightarrow> unat w < 16 ^ width" "set is \<subseteq> {0..<length ws}"
  shows "parse_slices width (concat (map (hex_lower width) ws)) is = ParseOk (map (\<lambda>i. unat (ws ! i)) is)"
  using assms(3)
proof (induction "is")
  case Nil
  then show ?case by simp
next
  case (Cons i rest)
  let ?s = "concat (map (hex_lower width) ws)"
  have len: "length (concat (map (hex_lower width) xs)) = length xs * width" for xs :: "'a word list"
    by (induction xs) auto
  have i: "i < length ws" using Cons.prems by simp
  have "drop (i * width) ?s = concat (map (hex_lower width) (drop i ws))"
    by (subst append_take_drop_id [of i ws, symmetric], subst map_append, subst concat_append) (simp add: len i less_imp_le min_absorb2)
  moreover have "drop i ws = ws ! i # drop (Suc i) ws"
    using i by (simp add: Cons_nth_drop_Suc)
  ultimately have "take width (drop (i * width) ?s) = hex_lower width (ws ! i)"
    by simp
  moreover have "i * width + width \<le> length ?s"
    using i by (simp add: len) (metis Suc_leI add.commute mult_Suc mult_le_mono1)
  ultimately have "str_slice ?s (i * width) (i * width + width) = Some (hex_lower width (ws ! i))"
    by (subst str_slice_ascii) (auto simp: hex_lower_ascii)
  moreover have "from_str_radix16 (hex_lower width (ws ! i)) = Some (unat (ws ! i))"
    using assms(1,2) i by (intro from_str_radix16_hex) auto
  ultimately show ?case
    using Cons by simp
qed

lemma swap_u32_involutive [simp]: "swap_u32_byte_order (swap_u32_byte_order a) = a"
proof (rule arr16_eqI)
  obtain b where b: "arr_bytes a = b" "length b = 16" by simp
  then obtain b0 b1 b2 b3 b4 b5 b6 b7 b8 b9 b10 b11 b12 b13 b14 b15 where
    "b = [b0, b1, b2, b3, b4, b5, b6, b7, b8, b9, b10, b11, b12, b13, b14, b15]"
    by (auto simp: numeral_nat length_Suc_conv)
  with b show "arr_bytes (swap_u32_byte_order (swap_u32_byte_order a)) = arr_bytes a"
    by (simp add: swap_u32_byte_order_def Let_def upt_4)
qed

lemma from_be_bytes_swap: "from_be_bytes a = NodeId (swap_u32_byte_order a)"
  by (simp add: from_be_bytes_def swap_u32_byte_order_def Let_def)

lemma to_be_bytes_swap: "to_be_bytes i = swap_u32_byte_order (wire_bytes i)"
  by (simp add: to_be_bytes_def swap_u32_byte_order_def Let_def)

lemma to_be_from_be [simp]: "to_be_bytes (from_be_bytes a) = a"
  by (simp add: from_be_bytes_swap to_be_bytes_swap)

lemma kad_uint128_roundtrip [simp]:
  "from_kad_uint128_wire_bytes (to_kad_uint128_wire_bytes h) = h"
  "to_kad_uint128_wire_bytes (from_kad_uint128_wire_bytes w) = w"
  by (simp_all add: from_kad_uint128_wire_bytes_def to_kad_uint128_wire_bytes_def)

lemma rev_chunk_bytes:
  "c < 4 \<Longrightarrow> to_le 4 (chunk_u32 i c) = take 4 (drop (4 * c) (arr_bytes (wire_bytes i)))"
proof -
  assume c: "c < 4"
  let ?b = "arr_bytes (wire_bytes i)"
  have "4 * c + 4 \<le> length ?b" using c by simp
  then have "take 4 (drop (4 * c) ?b) = [?b ! (4 * c), ?b ! (4 * c + 1), ?b ! (4 * c + 2), ?b ! (4 * c + 3)]"
    by (intro nth_equalityI) (auto simp: nth_Cons' less_Suc_eq numeral_nat)
  moreover have "to_le 4 (chunk_u32 i c) = [?b ! (4 * c), ?b ! (4 * c + 1), ?b ! (4 * c + 2), ?b ! (4 * c + 3)]"
    unfolding chunk_u32_def Let_def by (subst to_le_from_le) (simp_all add: mult.commute)
  ultimately show ?thesis by simp
qed

lemma chunks_concat:
  "concat (map (\<lambda>c. rev (to_le 4 (chunk_u32 i c))) [0..<4]) = arr_bytes (to_be_bytes i)"
proof -
  obtain b where b: "arr_bytes (wire_bytes i) = b" "length b = 16" by simp
  then obtain b0 b1 b2 b3 b4 b5 b6 b7 b8 b9 b10 b11 b12 b13 b14 b15 where
    "b = [b0, b1, b2, b3, b4, b5, b6, b7, b8, b9, b10, b11, b12, b13, b14, b15]"
    by (auto simp: numeral_nat length_Suc_conv)
  with b show ?thesis
    by (simp add: to_be_bytes_swap swap_u32_byte_order_def Let_def upt_4 rev_chunk_bytes)
qed

lemma node_str_roundtrip: "node_from_str (node_display i) = ParseOk i"
proof -
  let ?ws = "map (chunk_u32 i) [0..<4]"
  have disp: "node_display i = concat (map (hex_lower 8) ?ws)"
    by (simp add: node_display_def comp_def)
  have "parse_slices 8 (node_display i) [0..<4] = ParseOk (map (\<lambda>c. unat (?ws ! c)) [0..<4])"
    unfolding disp
    by (rule parse_slices_hex) (auto intro: less_le_trans [OF unat_u32_lt])
  also have "map (\<lambda>c. unat (?ws ! c)) [0..<4] = map (\<lambda>c. unat (chunk_u32 i c)) [0..<4]"
    by (simp add: upt_4)
  finally have parse: "parse_slices 8 (node_display i) [0..<4] = ParseOk (map (\<lambda>c. unat (chunk_u32 i c)) [0..<4])" .
  have len: "length (node_display i) = 32"
    by (simp add: node_display_def upt_4)
  have "concat (map (\<lambda>v. rev (to_le 4 (of_nat v :: u32))) (map (\<lambda>c. unat (chunk_u32 i c)) [0..<4])) =
      arr_bytes (to_be_bytes i)"
    by (simp only: map_map comp_def of_nat_unat ucast_id chunks_concat)
  then show ?thesis
    unfolding node_from_str_def parse
    by (simp add: len del: map_map) (simp add: from_be_bytes_swap to_be_bytes_swap)
qed

lemma hash_str_roundtrip: "hash_from_str (hash_display h) = ParseOk h"
proof -
  let ?ws = "arr_bytes (hash_bytes h)"
  have "parse_slices 2 (hash_display h) [0..<16] = ParseOk (map (\<lambda>c. unat (?ws ! c)) [0..<16])"
    unfolding hash_display_def
    by (rule parse_slices_hex) (auto intro: less_le_trans [OF unsigned_less])
  moreover have "map (\<lambda>c. unat (?ws ! c)) [0..<16] = map unat ?ws"
    by (rule nth_equalityI) simp_all
  moreover have "length (hash_display h) = 32"
  proof -
    have "length (concat (map (hex_lower 2) bs)) = 2 * length bs" for bs :: bytes
      by (induction bs) auto
    then show ?thesis by (simp add: hash_display_def)
  qed
  ultimately show ?thesis
    by (simp add: hash_from_str_def comp_def)
qed

section \<open>Properties\<close>

text \<open>The XOR distance is a metric on identifiers: it is zero exactly on equal identifiers, it
  is symmetric, it satisfies the triangle inequality, and for every identifier and every distance
  there is exactly one identifier at that distance.\<close>

theorem distance_metric:
  "(distance a b = id_ZERO \<longleftrightarrow> a = b) \<and> distance a b = distance b a
   \<and> node_val (distance a c) \<le> node_val (distance a b) + node_val (distance b c)
   \<and> (distance a x = d \<longleftrightarrow> x = distance a d)"
proof -
  have eq: "x = y \<longleftrightarrow> node_val x = node_val y" for x y
    by (simp add: node_val_inject)
  have zero: "node_val id_ZERO = 0"
    by (simp add: node_val_def id_ZERO_def chunk_u32_def arr_bytes_arr16_code Let_def)
  have xor0: "m XOR n = 0 \<longleftrightarrow> m = n" for m n :: nat
    by (auto simp: bit_eq_iff bit_simps)
  have cancel: "m XOR (m XOR n) = n" for m n :: nat
    by (simp flip: xor.assoc)
  have "node_val (distance a c) = node_val (distance a b) XOR node_val (distance b c)"
    by (simp add: node_val_distance xor.assoc [symmetric]) (simp add: xor.assoc)
  then have "node_val (distance a c) \<le> node_val (distance a b) + node_val (distance b c)"
    by (simp only: nat_xor_le_plus)
  moreover have "distance a b = distance b a"
    by (simp add: eq node_val_distance xor.commute)
  moreover have "distance a b = id_ZERO \<longleftrightarrow> a = b"
    by (simp add: eq node_val_distance zero xor0)
  moreover have "distance a x = d \<longleftrightarrow> x = distance a d"
    by (metis cancel eq node_val_distance)
  ultimately show ?thesis by blast
qed

text \<open>\<^verbatim>\<open>distance_exp\<close> returns the number of leading bits (in the numbering of \<^verbatim>\<open>NodeId::bit\<close>, which
  the routing tree branches on) that the two identifiers share, and an identifier that shares a
  longer prefix with the target is strictly closer to it in the order of \<^verbatim>\<open>Ord for NodeId\<close>.\<close>

theorem distance_exp_prefix:
  assumes "distance_exp a target = Some n" and "distance_exp b target = Some m" and "n < m"
  shows "n < 128 \<and> node_bit a n \<noteq> node_bit target n \<and> (\<forall>k < n. node_bit a k = node_bit target k)
    \<and> distance b target < distance a target"
proof -
  have a: "n < 128" "node_bit a n \<noteq> node_bit target n" "\<And>k. k < n \<Longrightarrow> node_bit a k = node_bit target k"
    using distance_exp_bits [OF assms(1)] by blast+
  have b: "\<And>k. k < m \<Longrightarrow> node_bit b k = node_bit target k"
    using distance_exp_bits [OF assms(2)] by blast
  have "node_val (distance b target) < node_val (distance a target)"
  proof (rule highest_bit_less [where n = "127 - n"])
    fix k
    assume "127 - n < k"
    then have "127 - k < n \<or> 128 \<le> k" using a(1) by linarith
    then show "bit (node_val (distance b target)) k = bit (node_val (distance a target)) k"
      using a(3) [of "127 - k"] b [of "127 - k"] assms(3)
      by (auto simp: bit_node_val node_bit_distance)
  qed (use a(1,2) b [of n] assms(3) in \<open>simp_all add: bit_node_val node_bit_distance\<close>)
  with a show ?thesis by (simp add: distance_less_iff_val)
qed

theorem distance_exp_prefix_witness:
  "distance (NodeId (arr16 [1])) id_ZERO < distance (NodeId (arr16 [0, 0, 0, 0x80])) id_ZERO"
proof -
  have "distance_exp (NodeId (arr16 [0, 0, 0, 0x80])) id_ZERO = Some 0"
    "distance_exp (NodeId (arr16 [1])) id_ZERO = Some 31"
    by code_simp+
  from distance_exp_prefix [OF this] show ?thesis by simp
qed

text \<open>Parsing the hexadecimal text that \<^verbatim>\<open>Display\<close> prints gives the identifier back, for
  \<^verbatim>\<open>NodeId\<close> and for \<^verbatim>\<open>Ed2kHash\<close>.\<close>

theorem display_from_str_roundtrip:
  "node_from_str (node_display i) = ParseOk i \<and> hash_from_str (hash_display h) = ParseOk h"
  by (simp add: node_str_roundtrip hash_str_roundtrip)


end
