(* ===== verification/Routing_Contact.thy ===== *)
theory Routing_Contact
  imports Node_Id
begin

text \<open>
  \<^verbatim>\<open>emulebb-kad-routing/src/contact.rs\<close>: the routing-table entry, its liveness counter
  (\<^verbatim>\<open>checking_type\<close>, \<^verbatim>\<open>mark_alive\<close>, \<^verbatim>\<open>mark_dead\<close>), the local quality score and the weak-contact test that
  drive replacement, and the LAN test. Where the code reads the clock the model takes the instant
  as an argument \<open>now\<close>. The score is a \<^verbatim>\<open>u32\<close> of at most 1032 (proved below), so it is a \<open>nat\<close>
  here; the staleness counter is a \<^verbatim>\<open>u8\<close> that the code only increments below 4.
\<close>

section \<open>Model\<close>

datatype contact_type = Active | Inactive | Dead

record contact =
  c_id :: node_id
  c_ip :: ipv4
  c_udp_port :: u16
  c_tcp_port :: u16
  c_kad_version :: u8
  c_udp_key :: kad_udp_key
  c_udp_key_ip :: "ipv4 option"
  c_hello_source_udp_port :: "u16 option"
  c_udp_firewalled :: bool
  c_tcp_firewalled :: bool
  c_requests_hello_res_ack :: bool
  c_received_hello_packet :: bool
  c_verified :: bool
  c_contact_type :: contact_type
  c_probe_type :: nat
  c_expires_at :: "system_time option"
  c_last_type_set_at :: "system_time option"
  c_bootstrap :: bool
  c_last_seen :: system_time
  c_created_at :: system_time

definition CONTACT_TYPE_DEAD :: nat where
  "CONTACT_TYPE_DEAD = 4"

definition KAD_LOCAL_QUALITY_WEAK_THRESHOLD :: nat where
  "KAD_LOCAL_QUALITY_WEAK_THRESHOLD = 260"

definition KAD_LOCAL_QUALITY_REPLACEMENT_MARGIN :: nat where
  "KAD_LOCAL_QUALITY_REPLACEMENT_MARGIN = 120"

definition contact_new :: "system_time \<Rightarrow> node_id \<Rightarrow> ipv4 \<Rightarrow> u16 \<Rightarrow> u16 \<Rightarrow> u8 \<Rightarrow> contact" where
  "contact_new now nid ip udp_port tcp_port kad_version =
     \<lparr>c_id = nid, c_ip = ip, c_udp_port = udp_port, c_tcp_port = tcp_port,
      c_kad_version = kad_version, c_udp_key = key_ZERO, c_udp_key_ip = None,
      c_hello_source_udp_port = None, c_udp_firewalled = False, c_tcp_firewalled = False,
      c_requests_hello_res_ack = False, c_received_hello_packet = False, c_verified = False,
      c_contact_type = Inactive, c_probe_type = 2, c_expires_at = None,
      c_last_type_set_at = None, c_bootstrap = False, c_last_seen = now, c_created_at = now\<rparr>"

definition oracle_type_at :: "contact \<Rightarrow> system_time \<Rightarrow> nat" where
  "oracle_type_at c now =
     (let hours = (case duration_since now (c_created_at c) of
                     Some elapsed \<Rightarrow> as_secs elapsed div 3600 | None \<Rightarrow> 0)
      in if hours = 0 then 2 else if hours = 1 then 1 else 0)"

definition mark_alive :: "system_time \<Rightarrow> contact \<Rightarrow> contact" where
  "mark_alive now c =
     c\<lparr>c_contact_type := Active, c_last_seen := now, c_probe_type := oracle_type_at c now,
       c_expires_at := Some (now + int (from_secs (2 * 3600)))\<rparr>"

definition mark_dead :: "system_time \<Rightarrow> contact \<Rightarrow> contact" where
  "mark_dead now c =
     c\<lparr>c_contact_type := Dead, c_probe_type := CONTACT_TYPE_DEAD, c_expires_at := Some now\<rparr>"

definition checking_type_at :: "system_time \<Rightarrow> contact \<Rightarrow> nat \<times> contact" where
  "checking_type_at now c =
     (let due = (case c_last_type_set_at c of
                   Some prev \<Rightarrow> (case duration_since now prev of
                                  Some elapsed \<Rightarrow> elapsed \<ge> from_secs 10 | None \<Rightarrow> False)
                 | None \<Rightarrow> True);
          c' = (if due \<and> c_probe_type c < CONTACT_TYPE_DEAD
                then c\<lparr>c_last_type_set_at := Some now, c_probe_type := c_probe_type c + 1,
                       c_expires_at := Some (now + int (from_secs (2 * 60)))\<rparr>
                else c)
      in (c_probe_type c', c'))"

definition is_dead :: "contact \<Rightarrow> bool" where
  "is_dead c \<longleftrightarrow> c_probe_type c \<ge> CONTACT_TYPE_DEAD"

definition is_expired_at :: "contact \<Rightarrow> system_time \<Rightarrow> bool" where
  "is_expired_at c now = (case c_expires_at c of Some expires \<Rightarrow> expires \<le> now | None \<Rightarrow> False)"

definition kad_version_quality :: "u8 \<Rightarrow> nat" where
  "kad_version_quality version =
     (if version \<ge> 10 then 12 else if version \<ge> 9 then 9 else if version \<ge> 8 then 6
      else if version \<ge> 6 then 3 else 0)"

definition local_quality_score :: "contact \<Rightarrow> system_time \<Rightarrow> nat" where
  "local_quality_score c now =
     (if c_probe_type c \<ge> CONTACT_TYPE_DEAD then 0
      else
        (let age = (case duration_since now (c_last_seen c) of
                      Some elapsed \<Rightarrow> as_secs elapsed | None \<Rightarrow> 0)
         in (if c_verified c then 400 else 0)
            + (if c_received_hello_packet c then 240 else 0)
            + (if c_udp_key c \<noteq> key_ZERO then 160 else 0)
            + (if c_probe_type c = 0 then 120 else if c_probe_type c = 1 then 90
               else if c_probe_type c = 2 then 60 else if c_probe_type c = 3 then 20 else 0)
            + (if age \<le> 15 * 60 then 90 else if age \<le> 3600 then 70
               else if age \<le> 4 * 3600 then 50 else if age \<le> 12 * 3600 then 25 else 0)
            + (if c_bootstrap c then 10 else 0)
            + kad_version_quality (c_kad_version c)))"

definition is_weak_for_replacement :: "contact \<Rightarrow> system_time \<Rightarrow> bool" where
  "is_weak_for_replacement c now =
     (if c_probe_type c \<ge> CONTACT_TYPE_DEAD then True
      else if is_expired_at c now then True
      else if \<not> c_verified c \<and> \<not> c_received_hello_packet c \<and> c_udp_key c = key_ZERO then True
      else local_quality_score c now < KAD_LOCAL_QUALITY_WEAK_THRESHOLD)"

definition is_lan :: "ipv4 \<Rightarrow> bool" where
  "is_lan ip =
     (if octet0 ip = 10 then True
      else if octet0 ip = 172 \<and> (octet1 ip \<ge> 16 \<and> octet1 ip \<le> 31) then True
      else if octet0 ip = 192 \<and> octet1 ip = 168 then True
      else if octet0 ip = 127 then True
      else False)"

section \<open>Scores and the liveness counter\<close>

lemma kad_version_quality_le: "kad_version_quality v \<le> 12"
  by (simp add: kad_version_quality_def)

lemma local_quality_score_le: "local_quality_score c now \<le> 1032"
  using kad_version_quality_le [of "c_kad_version c"]
  by (simp add: local_quality_score_def Let_def)

lemma dead_is_weak: "is_dead c \<Longrightarrow> is_weak_for_replacement c now \<and> local_quality_score c now = 0"
  by (simp add: is_dead_def is_weak_for_replacement_def local_quality_score_def)

lemma checking_type_at_id [simp]: "c_id (snd (checking_type_at now c)) = c_id c"
    "c_ip (snd (checking_type_at now c)) = c_ip c"
  by (simp_all add: checking_type_at_def Let_def)

lemma duration_since_ge:
  "(case duration_since now prev of Some d \<Rightarrow> d \<ge> k | None \<Rightarrow> False) \<longleftrightarrow>
     prev \<le> now \<and> int k \<le> now - prev"
  by (auto simp: duration_since_def)

lemma checking_type_step:
  assumes "\<And>prev. c_last_type_set_at c = Some prev \<Longrightarrow> prev + int (from_secs 10) \<le> now"
    and "c_probe_type c \<le> 4"
  shows "c_probe_type (snd (checking_type_at now c)) = min 4 (Suc (c_probe_type c))"
    and "c_last_type_set_at (snd (checking_type_at now c)) =
       (if c_probe_type c < 4 then Some now else c_last_type_set_at c)"
proof -
  have "prev \<le> now" if "c_last_type_set_at c = Some prev" for prev
    using assms(1) [OF that] by (simp add: from_secs_def)
  with assms show "c_probe_type (snd (checking_type_at now c)) = min 4 (Suc (c_probe_type c))"
    "c_last_type_set_at (snd (checking_type_at now c)) =
       (if c_probe_type c < 4 then Some now else c_last_type_set_at c)"
    by (auto simp: checking_type_at_def Let_def duration_since_ge CONTACT_TYPE_DEAD_def
      split: option.splits)
qed

text \<open>A sequence of maintenance probes that the peer never answers.\<close>

fun probe_run :: "system_time list \<Rightarrow> contact \<Rightarrow> contact" where
  "probe_run [] c = c"
| "probe_run (t # ts) c = probe_run ts (snd (checking_type_at t c))"

fun spaced :: "system_time option \<Rightarrow> system_time list \<Rightarrow> bool" where
  "spaced prev [] = True"
| "spaced prev (t # ts) =
     ((case prev of Some p \<Rightarrow> p + int (from_secs 10) \<le> t | None \<Rightarrow> True) \<and> spaced (Some t) ts)"

lemma spaced_later: "spaced (Some p) ts \<Longrightarrow> q \<le> p \<Longrightarrow> spaced (Some q) ts"
  by (cases ts) auto

lemma probe_run_ages:
  "spaced (c_last_type_set_at c) ts \<Longrightarrow> c_probe_type c \<le> 4 \<Longrightarrow>
     c_probe_type (probe_run ts c) = min 4 (c_probe_type c + length ts)"
proof (induction ts arbitrary: c)
  case Nil
  then show ?case by simp
next
  case (Cons t ts)
  let ?c = "snd (checking_type_at t c)"
  have due: "prev + int (from_secs 10) \<le> t" if "c_last_type_set_at c = Some prev" for prev
    using Cons.prems(1) that by simp
  note step = checking_type_step [OF due Cons.prems(2)]
  have "spaced (c_last_type_set_at ?c) ts"
  proof (cases "c_probe_type c < 4")
    case False
    have "spaced (Some t) ts" using Cons.prems(1) by simp
    moreover have "prev \<le> t" if "c_last_type_set_at c = Some prev" for prev
      using due [OF that] by (simp add: from_secs_def)
    moreover have "spaced None ts" if "spaced (Some t) ts"
      using that by (cases ts) auto
    ultimately show ?thesis
      using False step(2) by (cases "c_last_type_set_at c") (auto intro: spaced_later)
  qed (use Cons.prems(1) step(2) in simp)
  then have "c_probe_type (probe_run ts ?c) = min 4 (c_probe_type ?c + length ts)"
    using step(1) by (intro Cons.IH) simp_all
  then show ?case by (simp add: step(1))
qed

lemma probe_run_id: "c_id (probe_run ts c) = c_id c"
  by (induction ts arbitrary: c) simp_all

section \<open>Properties\<close>

text \<open>Maintenance probes at least ten seconds apart that the peer never answers move the staleness
  counter up by one each and stop it at 4: a contact at counter \<open>p\<close> is dead after \<open>4 - p\<close> of them
  and not before, and from then on it scores zero and may be replaced.\<close>

theorem unanswered_probes_kill:
  assumes "spaced (c_last_type_set_at c) ts" and "c_probe_type c \<le> 4"
  shows "c_probe_type (probe_run ts c) = min 4 (c_probe_type c + length ts)
    \<and> (is_dead (probe_run ts c) \<longleftrightarrow> 4 - c_probe_type c \<le> length ts)
    \<and> (is_dead (probe_run ts c) \<longrightarrow>
         is_weak_for_replacement (probe_run ts c) now \<and> local_quality_score (probe_run ts c) now = 0)
    \<and> c_id (probe_run ts c) = c_id c"
  using probe_run_ages [OF assms] assms(2) dead_is_weak [of "probe_run ts c" now]
  by (auto simp: is_dead_def CONTACT_TYPE_DEAD_def probe_run_id)

theorem unanswered_probes_kill_witness:
  "is_dead (probe_run [0, 10000000000] (contact_new 0 id_ZERO (Ipv4 1 2 3 4) 4672 4662 9))"
proof -
  let ?c = "contact_new 0 id_ZERO (Ipv4 1 2 3 4) 4672 4662 9"
  have "spaced (c_last_type_set_at ?c) [0, 10000000000]" "c_probe_type ?c = 2"
    by (simp_all add: contact_new_def from_secs_def)
  with unanswered_probes_kill [of ?c "[0, 10000000000]"] show ?thesis by simp
qed

end
