(* ===== verification/Contact_Store.thy ===== *)
theory Contact_Store
  imports Routing_Contact
begin

text \<open>
  The contract that every layer of the routing table offers to the layer above it: a collection of
  contacts addressed by node identifier, with lookup (\<^verbatim>\<open>get\<close>), removal (\<^verbatim>\<open>remove\<close>) and mutation
  through a reference (\<^verbatim>\<open>get_mut\<close>). The bin and the zone tree implement it; the lemmas proved here
  once give the refinement of both to a finite map from identifiers to contacts.
\<close>

definition with_id :: "node_id \<Rightarrow> contact multiset \<Rightarrow> contact multiset" where
  "with_id nid M = filter_mset (\<lambda>c. c_id c = nid) M"

lemma with_id_simps [simp]:
  "with_id nid {#} = {#}"
  "with_id nid (add_mset c M) = (if c_id c = nid then add_mset c (with_id nid M) else with_id nid M)"
  "with_id nid (M + N) = with_id nid M + with_id nid N"
  by (simp_all add: with_id_def)

lemma with_id_empty_iff: "with_id nid M = {#} \<longleftrightarrow> nid \<notin> c_id ` set_mset M"
  by (auto simp: with_id_def filter_mset_eq_conv)

lemma with_id_le_1_distinct: "distinct (map c_id cs) \<Longrightarrow> size (with_id nid (mset cs)) \<le> 1"
proof (induction cs)
  case (Cons c cs)
  then show ?case
    using with_id_empty_iff [of nid "mset cs"] by auto
qed simp

locale contact_store =
  fixes items :: "'s \<Rightarrow> contact multiset"
    and inv :: "'s \<Rightarrow> bool"
    and lookup :: "'s \<Rightarrow> node_id \<Rightarrow> contact option"
    and delete :: "'s \<Rightarrow> node_id \<Rightarrow> contact option \<times> 's"
    and modify :: "'s \<Rightarrow> node_id \<Rightarrow> (contact \<Rightarrow> contact) \<Rightarrow> contact option \<times> 's"
  assumes unique_ids: "inv s \<Longrightarrow> size (with_id nid (items s)) \<le> 1"
    and lookup_Some: "inv s \<Longrightarrow> lookup s nid = Some c \<longleftrightarrow> c \<in># items s \<and> c_id c = nid"
    and delete_found: "inv s \<Longrightarrow> lookup s nid = Some c \<Longrightarrow>
      \<exists>s'. delete s nid = (Some c, s') \<and> inv s' \<and> items s = add_mset c (items s')"
    and delete_missing: "inv s \<Longrightarrow> lookup s nid = None \<Longrightarrow> delete s nid = (None, s)"
    and modify_found: "inv s \<Longrightarrow> lookup s nid = Some c \<Longrightarrow>
      (\<And>x. c_id (f x) = c_id x \<and> c_ip (f x) = c_ip x) \<Longrightarrow>
      \<exists>s'. modify s nid f = (Some c, s') \<and> inv s' \<and> add_mset c (items s') = add_mset (f c) (items s)"
    and modify_missing: "inv s \<Longrightarrow> lookup s nid = None \<Longrightarrow> modify s nid f = (None, s)"
begin

lemma lookup_None: "inv s \<Longrightarrow> lookup s nid = None \<longleftrightarrow> nid \<notin> c_id ` set_mset (items s)"
proof (cases "lookup s nid")
  case None
  assume "inv s"
  from None lookup_Some [OF this, of nid] show ?thesis by auto
next
  case (Some c)
  assume "inv s"
  from Some lookup_Some [OF this, of nid c] show ?thesis by auto
qed

lemma lookup_eqI:
  assumes "inv s" "inv s'" "\<And>c. c \<in># items s' \<and> c_id c = nid \<longleftrightarrow> c \<in># items s \<and> c_id c = nid"
  shows "lookup s' nid = lookup s nid"
proof -
  have "lookup s' nid = Some c \<longleftrightarrow> lookup s nid = Some c" for c
    using assms by (simp add: lookup_Some)
  then show ?thesis by (metis not_None_eq)
qed

lemma lookup_same: "inv s \<Longrightarrow> inv s' \<Longrightarrow> items s' = items s \<Longrightarrow> lookup s' = lookup s"
  by (rule ext, rule lookup_eqI) simp_all

lemma lookup_added:
  assumes "inv s" "inv s'" "items s' = add_mset c (items s)"
  shows "lookup s' = (lookup s)(c_id c \<mapsto> c)"
proof (rule ext)
  fix nid
  show "lookup s' nid = ((lookup s)(c_id c \<mapsto> c)) nid"
  proof (cases "nid = c_id c")
    case True
    then show ?thesis using assms by (simp add: lookup_Some)
  next
    case False
    then show ?thesis using assms by (auto intro!: lookup_eqI)
  qed
qed

lemma lookup_dropped:
  assumes "inv s" "inv s'" "items s = add_mset c (items s')"
  shows "lookup s' = (lookup s)(c_id c := None)"
proof -
  have "size (with_id (c_id c) (items s')) = 0"
    using unique_ids [OF assms(1), of "c_id c"] assms(3) by simp
  then have "lookup s' (c_id c) = None"
    using assms(2) by (simp add: lookup_None with_id_empty_iff)
  with lookup_added [OF assms(2,1,3)] show ?thesis
    by (auto simp: fun_eq_iff)
qed

lemma lookup_exchanged:
  assumes "inv s" "inv s'" "old \<in># items s" "add_mset old (items s') = add_mset new (items s)"
  shows "lookup s' = (lookup s)(c_id old := None, c_id new \<mapsto> new)"
proof (rule ext)
  fix nid
  obtain M where M: "items s = add_mset old M"
    using assms(3) by (metis insert_DiffM)
  with assms(4) have M': "items s' = add_mset new M" by simp
  have "c_id old \<notin> c_id ` set_mset M"
    using unique_ids [OF assms(1), of "c_id old"] M by (auto simp: with_id_empty_iff)
  with assms(1,2) show "lookup s' nid = ((lookup s)(c_id old := None, c_id new \<mapsto> new)) nid"
    by (cases "nid = c_id new"; cases "nid = c_id old")
      (auto simp: M M' lookup_Some lookup_None intro!: lookup_eqI)
qed

text \<open>The two mutating operations are the two updates of the finite map.\<close>

lemma delete_refines: "inv s \<Longrightarrow> lookup (snd (delete s nid)) = (lookup s)(nid := None)"
proof (cases "lookup s nid")
  case None
  assume "inv s"
  with None show ?thesis by (simp add: delete_missing fun_upd_idem)
next
  case (Some c)
  assume "inv s"
  with Some obtain s' where "delete s nid = (Some c, s')" "inv s'" "items s = add_mset c (items s')"
    using delete_found by blast
  with \<open>inv s\<close> Some show ?thesis
    using lookup_dropped [of s s' c] by (auto simp: lookup_Some)
qed

lemma delete_fst: "inv s \<Longrightarrow> fst (delete s nid) = lookup s nid"
  by (cases "lookup s nid") (auto simp: delete_missing dest: delete_found)

lemma delete_inv: "inv s \<Longrightarrow> inv (snd (delete s nid))"
  by (cases "lookup s nid") (auto simp: delete_missing dest: delete_found)

lemma modify_refines:
  assumes "inv s" "\<And>x. c_id (f x) = c_id x \<and> c_ip (f x) = c_ip x"
  shows "lookup (snd (modify s nid f)) = (lookup s)(nid := map_option f (lookup s nid))"
proof (cases "lookup s nid")
  case None
  with assms show ?thesis by (simp add: modify_missing fun_upd_idem)
next
  case (Some c)
  with assms obtain s' where "modify s nid f = (Some c, s')" "inv s'"
    "add_mset c (items s') = add_mset (f c) (items s)"
    using modify_found by blast
  moreover from assms(1) Some have "c \<in># items s" "c_id c = nid"
    by (simp_all add: lookup_Some)
  ultimately show ?thesis
    using assms Some lookup_exchanged [of s s' c "f c"] by simp
qed

lemma modify_fst:
  "inv s \<Longrightarrow> (\<And>x. c_id (f x) = c_id x \<and> c_ip (f x) = c_ip x) \<Longrightarrow> fst (modify s nid f) = lookup s nid"
  by (cases "lookup s nid") (auto simp: modify_missing dest: modify_found [where f = f])

lemma modify_inv:
  "inv s \<Longrightarrow> (\<And>x. c_id (f x) = c_id x \<and> c_ip (f x) = c_ip x) \<Longrightarrow> inv (snd (modify s nid f))"
  by (cases "lookup s nid") (auto simp: modify_missing dest: modify_found [where f = f])

end

end
