(* ===== verification/Routing_Bin.thy ===== *)
theory Routing_Bin
  imports Contact_Store
begin

text \<open>
  \<^verbatim>\<open>emulebb-kad-routing/src/bin.rs\<close> and \<^verbatim>\<open>error.rs\<close>: the k-bucket. A bin is the deque of its
  contacts, oldest first. Operations that change the bin return the new bin; an error leaves the
  bin as it was, which is how every error path of the code behaves.
\<close>

section \<open>Model\<close>

definition K :: nat where
  "K = 10"

definition MAX_PER_BIN_SUBNET24 :: nat where
  "MAX_PER_BIN_SUBNET24 = 2"

datatype subnet_limit_scope = Global | BinLocal

datatype split_denied_reason = DepthLimit | MaxTableSize | ZoneIndexCap

datatype routing_error =
    TableFull nat
  | IpLimitExceeded ipv4
  | SubnetLimitExceeded nat subnet_limit_scope
  | SplitDenied split_denied_reason

record routing_bin =
  contacts :: "contact list"

type_synonym subnet = "u8 \<times> u8 \<times> u8"

definition subnet24 :: "ipv4 \<Rightarrow> subnet" where
  "subnet24 ip = (octet0 ip, octet1 ip, octet2 ip)"

definition bin_new :: routing_bin where
  "bin_new = \<lparr>contacts = []\<rparr>"

definition bin_len :: "routing_bin \<Rightarrow> nat" where
  "bin_len bin = length (contacts bin)"

definition bin_is_full :: "routing_bin \<Rightarrow> bool" where
  "bin_is_full bin \<longleftrightarrow> length (contacts bin) \<ge> K"

definition bin_is_empty :: "routing_bin \<Rightarrow> bool" where
  "bin_is_empty bin \<longleftrightarrow> contacts bin = []"

text \<open>The update of a stored contact by a fresh sighting of the same identifier.\<close>

definition update_existing :: "contact \<Rightarrow> contact \<Rightarrow> contact" where
  "update_existing existing c =
     (let e = existing\<lparr>c_ip := c_ip c, c_udp_port := c_udp_port c, c_tcp_port := c_tcp_port c,
                       c_kad_version := max (c_kad_version existing) (c_kad_version c)\<rparr>;
          e = (if c_udp_key c \<noteq> key_ZERO
               then e\<lparr>c_udp_key := c_udp_key c, c_udp_key_ip := c_udp_key_ip c\<rparr> else e)
      in e\<lparr>c_last_seen := c_last_seen c\<rparr>)"

definition update_refused :: "contact \<Rightarrow> contact \<Rightarrow> bool" where
  "update_refused stored c \<longleftrightarrow>
     c_udp_key stored \<noteq> key_ZERO \<and>
     (c_udp_key c = key_ZERO \<or>
      (c_udp_key_ip stored = c_udp_key_ip c \<and> c_udp_key c \<noteq> c_udp_key stored))"

definition bin_try_add :: "routing_bin \<Rightarrow> contact \<Rightarrow> routing_error + bool \<times> routing_bin" where
  "bin_try_add bin c =
     (let cs = contacts bin;
          existing_pos = position (\<lambda>e. c_id e = c_id c) cs;
          same_subnet_contacts =
            length (filter (\<lambda>(index, existing).
                      Some index \<noteq> existing_pos \<and> \<not> is_lan (c_ip existing)
                      \<and> subnet24 (c_ip existing) = subnet24 (c_ip c)) (enumerate 0 cs))
      in if \<not> is_lan (c_ip c) \<and> same_subnet_contacts \<ge> MAX_PER_BIN_SUBNET24
         then Inl (SubnetLimitExceeded 24 BinLocal)
         else (case existing_pos of
                 Some pos \<Rightarrow>
                   if update_refused (cs ! pos) c then Inr (False, bin)
                   else Inr (False, bin\<lparr>contacts := remove_at pos cs @ [update_existing (cs ! pos) c]\<rparr>)
               | None \<Rightarrow>
                   if length cs \<ge> K then Inl (TableFull K)
                   else Inr (True, bin\<lparr>contacts := cs @ [c]\<rparr>)))"

definition bin_remove :: "routing_bin \<Rightarrow> node_id \<Rightarrow> contact option \<times> routing_bin" where
  "bin_remove bin nid =
     (case position (\<lambda>c. c_id c = nid) (contacts bin) of
        Some pos \<Rightarrow> (Some (contacts bin ! pos), bin\<lparr>contacts := remove_at pos (contacts bin)\<rparr>)
      | None \<Rightarrow> (None, bin))"

definition bin_oldest :: "routing_bin \<Rightarrow> contact option" where
  "bin_oldest bin = (case contacts bin of [] \<Rightarrow> None | c # _ \<Rightarrow> Some c)"

definition bin_first_dead :: "routing_bin \<Rightarrow> contact option" where
  "bin_first_dead bin = find (\<lambda>c. c_contact_type c = Dead) (contacts bin)"

definition bin_contains_ip :: "routing_bin \<Rightarrow> ipv4 \<Rightarrow> bool" where
  "bin_contains_ip bin ip = list_ex (\<lambda>c. c_ip c = ip) (contacts bin)"

definition bin_refresh :: "routing_bin \<Rightarrow> node_id \<Rightarrow> routing_bin" where
  "bin_refresh bin nid =
     (case position (\<lambda>c. c_id c = nid) (contacts bin) of
        Some pos \<Rightarrow> bin\<lparr>contacts := remove_at pos (contacts bin) @ [contacts bin ! pos]\<rparr>
      | None \<Rightarrow> bin)"

text \<open>\<^verbatim>\<open>get_mut\<close> followed by a mutation \<open>f\<close> of the contact it returned.\<close>

definition bin_get_mut :: "routing_bin \<Rightarrow> node_id \<Rightarrow> (contact \<Rightarrow> contact) \<Rightarrow> contact option \<times> routing_bin" where
  "bin_get_mut bin nid f =
     (case position (\<lambda>c. c_id c = nid) (contacts bin) of
        Some pos \<Rightarrow> (Some (contacts bin ! pos),
                     bin\<lparr>contacts := (contacts bin)[pos := f (contacts bin ! pos)]\<rparr>)
      | None \<Rightarrow> (None, bin))"

definition bin_contact_ids :: "routing_bin \<Rightarrow> node_id list" where
  "bin_contact_ids bin = map c_id (contacts bin)"

fun weakest_from :: "system_time \<Rightarrow> nat \<Rightarrow> contact list \<Rightarrow> (nat \<times> nat) option \<Rightarrow> (nat \<times> nat) option" where
  "weakest_from now index [] weakest = weakest"
| "weakest_from now index (c # cs) weakest =
     (if \<not> is_weak_for_replacement c now then weakest_from now (Suc index) cs weakest
      else
        (let quality = local_quality_score c now in
         if (case weakest of None \<Rightarrow> True | Some (_, best) \<Rightarrow> quality < best)
         then weakest_from now (Suc index) cs (Some (index, quality))
         else weakest_from now (Suc index) cs weakest))"

definition weakest_replaceable_contact :: "routing_bin \<Rightarrow> system_time \<Rightarrow> (nat \<times> nat) option" where
  "weakest_replaceable_contact bin now = weakest_from now 0 (contacts bin) None"

definition replace_weak_contact_at ::
    "routing_bin \<Rightarrow> contact \<Rightarrow> system_time \<Rightarrow> contact option \<times> routing_bin" where
  "replace_weak_contact_at bin c now =
     (if length (contacts bin) < K then (None, bin)
      else (case weakest_replaceable_contact bin now of
              None \<Rightarrow> (None, bin)
            | Some (weakest_pos, removed_quality) \<Rightarrow>
                if local_quality_score c now
                     < min (removed_quality + KAD_LOCAL_QUALITY_REPLACEMENT_MARGIN) 4294967295
                then (None, bin)
                else (Some (contacts bin ! weakest_pos),
                      bin\<lparr>contacts := remove_at weakest_pos (contacts bin) @ [c]\<rparr>)))"

section \<open>The bin invariant\<close>

text \<open>Contacts of a non-LAN /24 network.\<close>

definition in_subnet :: "subnet \<Rightarrow> contact \<Rightarrow> bool" where
  "in_subnet s c \<longleftrightarrow> \<not> is_lan (c_ip c) \<and> subnet24 (c_ip c) = s"

definition subnet_load :: "subnet \<Rightarrow> contact list \<Rightarrow> nat" where
  "subnet_load s cs = length (filter (in_subnet s) cs)"

definition bin_inv :: "routing_bin \<Rightarrow> bool" where
  "bin_inv bin \<longleftrightarrow>
     length (contacts bin) \<le> K \<and> distinct (map c_id (contacts bin))
     \<and> (\<forall>s. subnet_load s (contacts bin) \<le> MAX_PER_BIN_SUBNET24)"

lemma subnet_load_mset: "subnet_load s cs = size (filter_mset (in_subnet s) (mset cs))"
  by (simp add: subnet_load_def length_filter_mset)

lemma subnet_load_append [simp]: "subnet_load s (xs @ ys) = subnet_load s xs + subnet_load s ys"
  by (simp add: subnet_load_def)

lemma subnet_load_single [simp]: "subnet_load s [c] = of_bool (in_subnet s c)"
  by (simp add: subnet_load_def)

lemma subnet_load_Nil [simp]: "subnet_load s [] = 0"
  by (simp add: subnet_load_def)

lemma subnet_load_remove_at:
  "i < length cs \<Longrightarrow> subnet_load s cs = subnet_load s (remove_at i cs) + of_bool (in_subnet s (cs ! i))"
  by (simp add: subnet_load_mset flip: mset_remove_at)

lemma filter_enumerate_snd:
  "length (filter (\<lambda>(i, e). P e) (enumerate n cs)) = length (filter P cs)"
  by (induction cs arbitrary: n) auto

lemma filter_enumerate_other:
  "pos < length cs \<Longrightarrow>
     length (filter (\<lambda>(i, e). i \<noteq> n + pos \<and> P e) (enumerate n cs)) = length (filter P (remove_at pos cs))"
proof (induction cs arbitrary: n pos)
  case Nil
  then show ?case by simp
next
  case (Cons c cs)
  show ?case
  proof (cases pos)
    case 0
    have "length (filter (\<lambda>(i, e). i \<noteq> n \<and> P e) (enumerate (Suc n) cs)) =
        length (filter (\<lambda>(i, e). P e) (enumerate (Suc n) cs))"
      by (rule arg_cong [where f = length], rule filter_cong [OF refl])
        (auto simp: in_set_enumerate_eq)
    then show ?thesis
      using 0 by (simp add: remove_at_def filter_enumerate_snd)
  next
    case (Suc p)
    with Cons.prems have "p < length cs" by simp
    from Cons.IH [OF this, of "Suc n"] show ?thesis
      using Suc by (simp add: remove_at_def)
  qed
qed

lemma try_add_same_subnet:
  "length (filter (\<lambda>(index, existing). Some index \<noteq> pos \<and> \<not> is_lan (c_ip existing)
      \<and> subnet24 (c_ip existing) = s) (enumerate 0 cs)) =
     (case pos of None \<Rightarrow> subnet_load s cs
      | Some p \<Rightarrow> if p < length cs then subnet_load s (remove_at p cs) else subnet_load s cs)"
proof (cases pos)
  case None
  then show ?thesis
    using filter_enumerate_snd [of "in_subnet s" 0 cs]
    by (simp add: in_subnet_def [abs_def] subnet_load_def)
next
  case (Some p)
  show ?thesis
  proof (cases "p < length cs")
    case True
    then show ?thesis
      using filter_enumerate_other [OF True, of 0 "in_subnet s"] Some
      by (simp add: in_subnet_def [abs_def] subnet_load_def)
  next
    case False
    then have "filter (\<lambda>(i, e). i \<noteq> p \<and> in_subnet s e) (enumerate 0 cs) =
        filter (\<lambda>(i, e). in_subnet s e) (enumerate 0 cs)"
      by (intro filter_cong refl) (auto simp: in_set_enumerate_eq)
    then show ?thesis
      using Some False filter_enumerate_snd [of "in_subnet s" 0 cs]
      by (simp add: in_subnet_def [abs_def] subnet_load_def)
  qed
qed

lemma update_existing_id [simp]:
  "c_id (update_existing e c) = c_id e" "c_ip (update_existing e c) = c_ip c"
  by (simp_all add: update_existing_def Let_def)

text \<open>The branches of \<^verbatim>\<open>try_add\<close>, with the loop over the deque replaced by the abstract load.\<close>

lemma bin_try_add_eq:
  "bin_try_add bin c =
     (case position (\<lambda>e. c_id e = c_id c) (contacts bin) of
        None \<Rightarrow>
          if \<not> is_lan (c_ip c) \<and> subnet_load (subnet24 (c_ip c)) (contacts bin) \<ge> MAX_PER_BIN_SUBNET24
          then Inl (SubnetLimitExceeded 24 BinLocal)
          else if length (contacts bin) \<ge> K then Inl (TableFull K)
          else Inr (True, bin\<lparr>contacts := contacts bin @ [c]\<rparr>)
      | Some pos \<Rightarrow>
          if \<not> is_lan (c_ip c) \<and>
             subnet_load (subnet24 (c_ip c)) (remove_at pos (contacts bin)) \<ge> MAX_PER_BIN_SUBNET24
          then Inl (SubnetLimitExceeded 24 BinLocal)
          else if update_refused (contacts bin ! pos) c then Inr (False, bin)
          else Inr (False, bin\<lparr>contacts :=
                 remove_at pos (contacts bin) @ [update_existing (contacts bin ! pos) c]\<rparr>))"
  by (auto simp: bin_try_add_def Let_def try_add_same_subnet dest: position_SomeD split: option.splits)

lemma bin_try_add_added:
  assumes "bin_try_add bin c = Inr (True, bin')"
  shows "contacts bin' = contacts bin @ [c]" and "c_id c \<notin> c_id ` set (contacts bin)"
    and "length (contacts bin) < K"
    and "\<not> is_lan (c_ip c) \<Longrightarrow> subnet_load (subnet24 (c_ip c)) (contacts bin) < MAX_PER_BIN_SUBNET24"
proof -
  obtain none: "position (\<lambda>e. c_id e = c_id c) (contacts bin) = None"
    using assms by (cases "position (\<lambda>e. c_id e = c_id c) (contacts bin)") (simp_all add: bin_try_add_eq split: if_splits)
  show "c_id c \<notin> c_id ` set (contacts bin)"
    using none by (auto simp: position_None_iff)
  show "contacts bin' = contacts bin @ [c]" "length (contacts bin) < K"
    "\<not> is_lan (c_ip c) \<Longrightarrow> subnet_load (subnet24 (c_ip c)) (contacts bin) < MAX_PER_BIN_SUBNET24"
    using assms none by (auto simp: bin_try_add_eq split: if_splits)
qed

lemma bin_try_add_updated:
  assumes "bin_try_add bin c = Inr (False, bin')"
  obtains pos where "pos < length (contacts bin)" "c_id (contacts bin ! pos) = c_id c"
    "position (\<lambda>e. c_id e = c_id c) (contacts bin) = Some pos"
    "\<not> is_lan (c_ip c) \<longrightarrow>
       subnet_load (subnet24 (c_ip c)) (remove_at pos (contacts bin)) < MAX_PER_BIN_SUBNET24"
    "contacts bin' =
       (if update_refused (contacts bin ! pos) c then contacts bin
        else remove_at pos (contacts bin) @ [update_existing (contacts bin ! pos) c])"
proof (cases "position (\<lambda>e. c_id e = c_id c) (contacts bin)")
  case None
  with assms show ?thesis by (simp add: bin_try_add_eq split: if_splits)
next
  case (Some pos)
  show ?thesis
    using assms Some position_SomeD [OF Some]
    by (intro that [of pos]) (auto simp: bin_try_add_eq split: if_splits)
qed

lemma bin_try_add_full:
  "bin_try_add bin c = Inl (TableFull n) \<Longrightarrow>
     K \<le> length (contacts bin) \<and> c_id c \<notin> c_id ` set (contacts bin)
     \<and> (\<not> is_lan (c_ip c) \<longrightarrow> subnet_load (subnet24 (c_ip c)) (contacts bin) < MAX_PER_BIN_SUBNET24)"
  by (cases "position (\<lambda>e. c_id e = c_id c) (contacts bin)")
    (auto simp: bin_try_add_eq position_None_iff split: if_splits)

lemma subnet_load_insert_le:
  assumes "subnet_load s cs \<le> m"
    and "\<not> is_lan (c_ip c) \<Longrightarrow> subnet_load (subnet24 (c_ip c)) cs < m"
  shows "subnet_load s cs + of_bool (in_subnet s c) \<le> m"
  using assms by (cases "in_subnet s c") (auto simp: in_subnet_def)

lemma subnet_load_remove_at_le: "i < length cs \<Longrightarrow> subnet_load s (remove_at i cs) \<le> subnet_load s cs"
  by (simp add: subnet_load_remove_at)

lemma bin_invD:
  assumes "bin_inv bin"
  shows "length (contacts bin) \<le> K" "distinct (map c_id (contacts bin))"
    "subnet_load s (contacts bin) \<le> MAX_PER_BIN_SUBNET24"
  using assms unfolding bin_inv_def by blast+

lemma bin_invI:
  assumes "length (contacts bin) \<le> K" "distinct (map c_id (contacts bin))"
    "\<And>s. subnet_load s (contacts bin) \<le> MAX_PER_BIN_SUBNET24"
  shows "bin_inv bin"
  using assms unfolding bin_inv_def by blast

lemma bin_inv_new [simp]: "bin_inv bin_new"
  by (simp add: bin_inv_def bin_new_def)

lemma bin_try_add_inv [keeps_inv]:
  assumes inv: "bin_inv bin" and add: "bin_try_add bin c = Inr (fresh, bin')"
  shows "bin_inv bin'"
proof (cases fresh)
  case True
  with add have *: "bin_try_add bin c = Inr (True, bin')" by simp
  have "subnet_load s (contacts bin) + of_bool (in_subnet s c) \<le> MAX_PER_BIN_SUBNET24" for s
    using inv bin_try_add_added(4) [OF *] by (intro subnet_load_insert_le) (auto intro: bin_invD)
  then show ?thesis
    using bin_invD [OF inv] bin_try_add_added(1-3) [OF *] by (intro bin_invI) simp_all
next
  case False
  with add have "bin_try_add bin c = Inr (False, bin')" by simp
  then obtain pos where pos: "pos < length (contacts bin)" "c_id (contacts bin ! pos) = c_id c"
    "position (\<lambda>e. c_id e = c_id c) (contacts bin) = Some pos"
    "\<not> is_lan (c_ip c) \<longrightarrow> subnet_load (subnet24 (c_ip c)) (remove_at pos (contacts bin)) < MAX_PER_BIN_SUBNET24"
    and new: "contacts bin' =
       (if update_refused (contacts bin ! pos) c then contacts bin
        else remove_at pos (contacts bin) @ [update_existing (contacts bin ! pos) c])"
    by (rule bin_try_add_updated)
  show ?thesis
  proof (cases "update_refused (contacts bin ! pos) c")
    case True
    with new inv show ?thesis by (simp add: bin_inv_def)
  next
    case False
    let ?u = "update_existing (contacts bin ! pos) c"
    have sub: "in_subnet s ?u = in_subnet s c" for s
      by (simp add: in_subnet_def)
    have "subnet_load s (remove_at pos (contacts bin)) + of_bool (in_subnet s ?u) \<le> MAX_PER_BIN_SUBNET24" for s
      unfolding sub
      using pos(4) order_trans [OF subnet_load_remove_at_le [OF pos(1)] bin_invD(3) [OF inv]]
      by (intro subnet_load_insert_le) blast+
    moreover have "distinct (map c_id (remove_at pos (contacts bin)) @ [c_id ?u])"
      using distinct_map_remove_at [OF bin_invD(2) [OF inv] pos(1)] pos(2) by simp
    ultimately show ?thesis
      using False new bin_invD(1) [OF inv] length_remove_at [OF pos(1)] by (intro bin_invI) simp_all
  qed
qed

lemma bin_remove_inv [keeps_inv]:
  assumes "bin_inv bin"
  shows "bin_inv (snd (bin_remove bin nid))"
proof (cases "position (\<lambda>c. c_id c = nid) (contacts bin)")
  case (Some pos)
  then have pos: "pos < length (contacts bin)" by (auto dest: position_SomeD)
  have "subnet_load s (remove_at pos (contacts bin)) \<le> MAX_PER_BIN_SUBNET24" for s
    by (rule order_trans [OF subnet_load_remove_at_le [OF pos] bin_invD(3) [OF assms]])
  then show ?thesis
    using Some length_remove_at [OF pos] distinct_map_remove_at(1) [OF _ pos, of c_id] bin_invD [OF assms]
    by (intro bin_invI) (simp_all add: bin_remove_def)
qed (simp add: bin_remove_def assms)

lemma bin_get_mut_inv [keeps_inv]:
  assumes "bin_inv bin" "\<And>c. c_id (f c) = c_id c" "\<And>c. c_ip (f c) = c_ip c"
  shows "bin_inv (snd (bin_get_mut bin nid f))"
proof (cases "position (\<lambda>c. c_id c = nid) (contacts bin)")
  case (Some pos)
  then have pos: "pos < length (contacts bin)" by (auto dest: position_SomeD)
  have "map c_id ((contacts bin)[pos := f (contacts bin ! pos)]) = map c_id (contacts bin)"
    using pos by (simp add: map_update assms(2)) (metis list_update_id nth_map)
  moreover have "subnet_load s ((contacts bin)[pos := f (contacts bin ! pos)]) = subnet_load s (contacts bin)" for s
  proof -
    have "mset ((contacts bin)[pos := f (contacts bin ! pos)]) =
        add_mset (f (contacts bin ! pos)) (mset (remove_at pos (contacts bin)))"
      using pos mset_remove_at [OF pos] by (simp add: mset_update) (metis add_mset_remove_trivial)
    then show ?thesis
      by (simp add: subnet_load_mset in_subnet_def assms(3) flip: mset_remove_at [OF pos])
  qed
  ultimately show ?thesis
    using bin_invD [OF assms(1)] Some by (intro bin_invI) (simp_all add: bin_get_mut_def)
qed (simp add: bin_get_mut_def assms)

section \<open>The weakest contact\<close>

lemma weakest_from_scan:
  "weakest_from now index cs (map_option (\<lambda>((i, _), q). (i, q)) best) =
     map_option (\<lambda>((i, _), q). (i, q))
       (best_scan (\<lambda>(_, c). if is_weak_for_replacement c now then Some (local_quality_score c now) else None)
          (enumerate index cs) best)"
proof (induction cs arbitrary: index best)
  case (Cons c cs)
  show ?case
  proof (cases "is_weak_for_replacement c now")
    case True
    have "weakest_from now (Suc index) cs (Some (index, local_quality_score c now)) =
        weakest_from now (Suc index) cs
          (map_option (\<lambda>((i, _), q). (i, q)) (Some ((index, c), local_quality_score c now)))"
      by simp
    with True Cons.IH show ?thesis
      by (cases best) (auto simp: Let_def simp del: option.map)
  qed (simp add: Cons.IH)
qed simp

lemma weakest_replaceable_Some:
  assumes "weakest_replaceable_contact bin now = Some (i, q)"
  shows "i < length (contacts bin)" "is_weak_for_replacement (contacts bin ! i) now"
    "q = local_quality_score (contacts bin ! i) now"
    "\<And>c. c \<in> set (contacts bin) \<Longrightarrow> is_weak_for_replacement c now \<Longrightarrow> q \<le> local_quality_score c now"
proof -
  let ?score = "\<lambda>(_ :: nat, c). if is_weak_for_replacement c now then Some (local_quality_score c now) else None"
  obtain c where "best_scan ?score (enumerate 0 (contacts bin)) None = Some ((i, c), q)"
    using assms weakest_from_scan [of now 0 "contacts bin" None]
    by (cases "best_scan ?score (enumerate 0 (contacts bin)) None")
      (auto simp: weakest_replaceable_contact_def)
  note scan = best_scan_Some [OF this]
  from scan show "i < length (contacts bin)" "is_weak_for_replacement (contacts bin ! i) now"
    "q = local_quality_score (contacts bin ! i) now"
    by (auto simp: in_set_enumerate_eq split: if_splits)
  fix x assume "x \<in> set (contacts bin)" "is_weak_for_replacement x now"
  then obtain j where "j < length (contacts bin)" "contacts bin ! j = x"
    by (auto simp: in_set_conv_nth)
  then have "(j, x) \<in> set (enumerate 0 (contacts bin))"
    by (simp add: in_set_enumerate_eq)
  with scan \<open>is_weak_for_replacement x now\<close> show "q \<le> local_quality_score x now"
    by fastforce
qed

lemma weakest_replaceable_None:
  "weakest_replaceable_contact bin now = None \<longleftrightarrow> (\<forall>c \<in> set (contacts bin). \<not> is_weak_for_replacement c now)"
  using weakest_from_scan [of now 0 "contacts bin" None]
  by (auto simp: weakest_replaceable_contact_def best_scan_None all_set_conv_all_nth nth_enumerate_eq)

lemma mset_try_add_added:
  "bin_try_add bin c = Inr (True, bin') \<Longrightarrow> mset (contacts bin') = add_mset c (mset (contacts bin))"
  by (simp add: bin_try_add_added(1))

lemma mset_try_add_updated:
  assumes "bin_try_add bin c = Inr (False, bin')"
  obtains e where "e \<in># mset (contacts bin)" "c_id e = c_id c"
    "update_refused e c \<Longrightarrow> bin' = bin"
    "\<not> update_refused e c \<Longrightarrow>
       add_mset e (mset (contacts bin')) = add_mset (update_existing e c) (mset (contacts bin))"
proof -
  from assms obtain pos where pos: "pos < length (contacts bin)" "c_id (contacts bin ! pos) = c_id c"
    "contacts bin' =
       (if update_refused (contacts bin ! pos) c then contacts bin
        else remove_at pos (contacts bin) @ [update_existing (contacts bin ! pos) c])"
    by (rule bin_try_add_updated)
  show ?thesis
    using pos mset_remove_at [OF pos(1)] by (intro that [of "contacts bin ! pos"]) auto
qed

lemma replace_weak_Some:
  assumes "replace_weak_contact_at bin c now = (Some old, bin')"
  obtains pos where "weakest_replaceable_contact bin now = Some (pos, local_quality_score old now)"
    "pos < length (contacts bin)" "old = contacts bin ! pos" "is_weak_for_replacement old now"
    "K \<le> length (contacts bin)"
    "local_quality_score old now + KAD_LOCAL_QUALITY_REPLACEMENT_MARGIN \<le> local_quality_score c now"
    "contacts bin' = remove_at pos (contacts bin) @ [c]"
proof (cases "weakest_replaceable_contact bin now")
  case None
  with assms show ?thesis by (simp add: replace_weak_contact_at_def split: if_splits)
next
  case (Some w)
  obtain pos q where w: "w = (pos, q)" by (cases w)
  note weak = weakest_replaceable_Some [OF Some [unfolded w]]
  have "local_quality_score c now \<ge> min (q + KAD_LOCAL_QUALITY_REPLACEMENT_MARGIN) 4294967295"
    "K \<le> length (contacts bin)" "old = contacts bin ! pos" "contacts bin' = remove_at pos (contacts bin) @ [c]"
    using assms Some w by (auto simp: replace_weak_contact_at_def not_less split: if_splits)
  moreover from this(1) have "q + KAD_LOCAL_QUALITY_REPLACEMENT_MARGIN \<le> local_quality_score c now"
    using local_quality_score_le [of c now] by (simp add: min_def split: if_splits)
  ultimately show ?thesis
    using Some w weak(1-3) by (intro that [of pos]) auto
qed

lemma replace_weak_None:
  "replace_weak_contact_at bin c now = (None, bin') \<Longrightarrow> bin' = bin"
  by (auto simp: replace_weak_contact_at_def split: if_splits option.splits)

lemma mset_replace_weak:
  "replace_weak_contact_at bin c now = (Some old, bin') \<Longrightarrow>
     old \<in># mset (contacts bin) \<and>
     add_mset old (mset (contacts bin')) = add_mset c (mset (contacts bin))"
  by (elim replace_weak_Some) (auto simp flip: mset_remove_at)

lemma replace_weak_inv [keeps_inv]:
  assumes inv: "bin_inv bin" and full: "bin_try_add bin c = Inl (TableFull n)"
  shows "bin_inv (snd (replace_weak_contact_at bin c now))"
proof (cases "fst (replace_weak_contact_at bin c now)")
  case None
  with replace_weak_None inv show ?thesis by (metis prod.collapse)
next
  case (Some old)
  then obtain bin' where r: "replace_weak_contact_at bin c now = (Some old, bin')"
    by (metis prod.collapse)
  then obtain pos where pos: "pos < length (contacts bin)"
    and new: "contacts bin' = remove_at pos (contacts bin) @ [c]"
    by (rule replace_weak_Some)
  note fresh = bin_try_add_full [OF full]
  have load: "subnet_load s (remove_at pos (contacts bin)) \<le> subnet_load s (contacts bin)" for s
    by (rule subnet_load_remove_at_le [OF pos])
  have "subnet_load s (remove_at pos (contacts bin)) + of_bool (in_subnet s c) \<le> MAX_PER_BIN_SUBNET24" for s
    using fresh load [of s] load [of "subnet24 (c_ip c)"] bin_invD(3) [OF inv, of s]
    by (intro subnet_load_insert_le) auto
  moreover have "c_id c \<notin> c_id ` set (remove_at pos (contacts bin))"
    using fresh set_remove_at_subset by fastforce
  ultimately have "bin_inv bin'"
    using new length_remove_at [OF pos] distinct_map_remove_at(1) [OF bin_invD(2) [OF inv] pos] bin_invD(1) [OF inv]
    by (intro bin_invI) simp_all
  with r show ?thesis by simp
qed

lemma bin_refresh_inv [keeps_inv]:
  assumes inv: "bin_inv bin"
  shows "bin_inv (bin_refresh bin nid)"
proof (cases "position (\<lambda>c. c_id c = nid) (contacts bin)")
  case (Some pos)
  then have pos: "pos < length (contacts bin)" by (auto dest: position_SomeD)
  have "subnet_load s (remove_at pos (contacts bin)) + of_bool (in_subnet s (contacts bin ! pos)) \<le> MAX_PER_BIN_SUBNET24" for s
    using bin_invD(3) [OF inv, of s] by (simp add: subnet_load_remove_at [OF pos])
  then show ?thesis
    using Some length_remove_at [OF pos] distinct_map_remove_at [OF bin_invD(2) [OF inv] pos] bin_invD(1) [OF inv]
    by (intro bin_invI) (simp_all add: bin_refresh_def)
qed (simp add: bin_refresh_def inv)

lemma bin_get_mut_mset:
  assumes "find (\<lambda>c. c_id c = nid) (contacts bin) = Some c"
  shows "\<exists>bin'. bin_get_mut bin nid f = (Some c, bin')
    \<and> add_mset c (mset (contacts bin')) = add_mset (f c) (mset (contacts bin))"
proof -
  from assms obtain pos where pos: "position (\<lambda>c. c_id c = nid) (contacts bin) = Some pos" "c = contacts bin ! pos"
    by (auto simp: find_position split: option.splits)
  then have "pos < length (contacts bin)" by (auto dest: position_SomeD)
  with pos show ?thesis
    by (simp add: bin_get_mut_def mset_update)
qed

lemma bin_remove_mset:
  assumes "find (\<lambda>c. c_id c = nid) (contacts bin) = Some c"
  shows "\<exists>bin'. bin_remove bin nid = (Some c, bin') \<and> mset (contacts bin) = add_mset c (mset (contacts bin'))"
proof -
  from assms obtain pos where pos: "position (\<lambda>c. c_id c = nid) (contacts bin) = Some pos" "c = contacts bin ! pos"
    by (auto simp: find_position split: option.splits)
  then have "pos < length (contacts bin)" by (auto dest: position_SomeD)
  with pos show ?thesis
    by (simp add: bin_remove_def mset_remove_at)
qed

interpretation bin_store: contact_store "\<lambda>bin. mset (contacts bin)" bin_inv
  "\<lambda>bin nid. find (\<lambda>c. c_id c = nid) (contacts bin)" bin_remove bin_get_mut
proof
  fix bin :: routing_bin and nid c and f :: "contact \<Rightarrow> contact"
  show "bin_inv bin \<Longrightarrow> size (with_id nid (mset (contacts bin))) \<le> 1"
    by (rule with_id_le_1_distinct) (rule bin_invD)
  show "bin_inv bin \<Longrightarrow> (find (\<lambda>c. c_id c = nid) (contacts bin) = Some c) = (c \<in># mset (contacts bin) \<and> c_id c = nid)"
    by (simp add: find_unique bin_invD)
  show "bin_inv bin \<Longrightarrow> find (\<lambda>c. c_id c = nid) (contacts bin) = Some c \<Longrightarrow>
      \<exists>s'. bin_remove bin nid = (Some c, s') \<and> bin_inv s' \<and> mset (contacts bin) = add_mset c (mset (contacts s'))"
    using bin_remove_mset bin_remove_inv by (metis snd_conv)
  show "find (\<lambda>c. c_id c = nid) (contacts bin) = None \<Longrightarrow> bin_remove bin nid = (None, bin)"
    by (simp add: find_position bin_remove_def split: option.splits)
  show "bin_inv bin \<Longrightarrow> find (\<lambda>c. c_id c = nid) (contacts bin) = Some c \<Longrightarrow>
      (\<And>x. c_id (f x) = c_id x \<and> c_ip (f x) = c_ip x) \<Longrightarrow>
      \<exists>s'. bin_get_mut bin nid f = (Some c, s') \<and> bin_inv s' \<and>
        add_mset c (mset (contacts s')) = add_mset (f c) (mset (contacts bin))"
    using bin_get_mut_mset [of nid bin c f] bin_get_mut_inv [of bin f nid] by (metis snd_conv)
  show "find (\<lambda>c. c_id c = nid) (contacts bin) = None \<Longrightarrow> bin_get_mut bin nid f = (None, bin)"
    by (simp add: find_position bin_get_mut_def split: option.splits)
qed

section \<open>Properties\<close>

text \<open>A bin never holds more than ten contacts, never two with the same identifier and never
  more than two of one public /24 network: the empty bin is such a bin, and every operation of the
  bin leaves such a bin behind.\<close>

theorem bin_operations_keep_inv:
  "bin_inv bin_new \<and>
   (bin_inv bin \<longrightarrow>
      (\<forall>c fresh bin'. bin_try_add bin c = Inr (fresh, bin') \<longrightarrow> bin_inv bin') \<and>
      (\<forall>c n. bin_try_add bin c = Inl (TableFull n) \<longrightarrow> bin_inv (snd (replace_weak_contact_at bin c now))) \<and>
      bin_inv (snd (bin_remove bin nid)) \<and> bin_inv (bin_refresh bin nid) \<and>
      bin_inv (snd (bin_get_mut bin nid (\<lambda>c. c\<lparr>c_verified := True\<rparr>))) \<and>
      bin_inv (snd (bin_get_mut bin nid (\<lambda>c. snd (checking_type_at now c)))))"
  using bin_try_add_inv replace_weak_inv bin_remove_inv bin_refresh_inv
    bin_get_mut_inv [of bin "\<lambda>c. c\<lparr>c_verified := True\<rparr>" nid]
    bin_get_mut_inv [of bin "\<lambda>c. snd (checking_type_at now c)" nid]
  by auto

definition example_contact :: "nat \<Rightarrow> contact" where
  "example_contact n =
     contact_new 0 (NodeId (arr16 [word_of_nat n])) (Ipv4 20 (word_of_nat n) 0 1) 4672 4662 9"

theorem bin_operations_keep_inv_witness:
  "bin_inv bin_new \<and>
   (\<exists>bin. bin_try_add bin_new (example_contact 1) = Inr (True, bin) \<and> bin_inv bin)"
proof -
  have "bin_try_add bin_new (example_contact 1) = Inr (True, \<lparr>contacts = [example_contact 1]\<rparr>)"
    by (simp add: bin_try_add_def bin_new_def K_def MAX_PER_BIN_SUBNET24_def)
  with bin_operations_keep_inv [of bin_new] show ?thesis by blast
qed




text \<open>A weak contact is evicted only from a full bin, only in favour of a newcomer that scores at
  least 120 points more, and the victim has the lowest score among the weak contacts; in every other
  case the bin is unchanged, and a full bin refuses a newcomer only when no weak contact is 120
  points below it.\<close>

theorem weak_replacement_rule:
  "case replace_weak_contact_at bin c now of
     (Some old, bin') \<Rightarrow>
       bin_is_full bin \<and> is_weak_for_replacement old now
       \<and> local_quality_score old now + 120 \<le> local_quality_score c now
       \<and> old \<in> set (contacts bin)
       \<and> list_all (\<lambda>x. is_weak_for_replacement x now \<longrightarrow> local_quality_score old now \<le> local_quality_score x now) (contacts bin)
       \<and> add_mset old (mset (contacts bin')) = add_mset c (mset (contacts bin))
   | (None, bin') \<Rightarrow>
       bin' = bin \<and>
       (bin_is_full bin \<longrightarrow>
          list_all (\<lambda>x. is_weak_for_replacement x now \<longrightarrow> local_quality_score c now < local_quality_score x now + 120) (contacts bin))"
proof (cases "replace_weak_contact_at bin c now")
  case (Pair r bin')
  show ?thesis
  proof (cases r)
    case (Some old)
    with Pair have r: "replace_weak_contact_at bin c now = (Some old, bin')" by simp
    then obtain pos where w: "weakest_replaceable_contact bin now = Some (pos, local_quality_score old now)"
      and "pos < length (contacts bin)" "old = contacts bin ! pos" "is_weak_for_replacement old now"
        "K \<le> length (contacts bin)"
        "local_quality_score old now + KAD_LOCAL_QUALITY_REPLACEMENT_MARGIN \<le> local_quality_score c now"
      by (rule replace_weak_Some)
    then show ?thesis
      using r mset_replace_weak [OF r] weakest_replaceable_Some(4) [OF w]
      by (simp add: bin_is_full_def KAD_LOCAL_QUALITY_REPLACEMENT_MARGIN_def list_all_iff)
  next
    case None
    have "local_quality_score c now < local_quality_score x now + 120"
      if "bin_is_full bin" "x \<in> set (contacts bin)" "is_weak_for_replacement x now" for x
    proof (cases "weakest_replaceable_contact bin now")
      case None
      with that show ?thesis by (simp add: weakest_replaceable_None)
    next
      case (Some w)
      obtain p q where w: "w = (p, q)" by (cases w)
      from Some w that Pair \<open>r = None\<close> have "local_quality_score c now < q + 120"
        by (auto simp: replace_weak_contact_at_def bin_is_full_def KAD_LOCAL_QUALITY_REPLACEMENT_MARGIN_def
            split: if_splits)
      with weakest_replaceable_Some(4) [OF Some [unfolded w] that(2,3)] show ?thesis by simp
    qed
    with None Pair replace_weak_None [of bin c now bin'] show ?thesis
      by (simp add: list_all_iff)
  qed
qed

theorem weak_replacement_rule_witness:
  "let dead = mark_dead 0 (example_contact 1); bin = \<lparr>contacts = replicate 10 dead\<rparr>;
       c = (example_contact 2)\<lparr>c_verified := True\<rparr>
   in (\<exists>bin'. replace_weak_contact_at bin c 0 = (Some dead, bin')) \<and> bin_is_full bin"
proof -
  define dead where "dead = mark_dead 0 (example_contact 1)"
  define c where "c = (example_contact 2)\<lparr>c_verified := True\<rparr>"
  define bin where "bin = \<lparr>contacts = replicate 10 dead\<rparr>"
  have "is_dead dead" by (simp add: dead_def is_dead_def mark_dead_def)
  note dead = dead_is_weak [OF this, of 0]
  have "local_quality_score c 0 = 559"
    by (simp add: c_def example_contact_def contact_new_def local_quality_score_def CONTACT_TYPE_DEAD_def
        kad_version_quality_def duration_since_def as_secs_def)
  moreover have "contacts bin = [dead, dead, dead, dead, dead, dead, dead, dead, dead, dead]"
    by (simp add: bin_def numeral_eq_Suc)
  ultimately have r: "replace_weak_contact_at bin c 0 = (Some dead, snd (replace_weak_contact_at bin c 0))"
    using dead by (simp add: replace_weak_contact_at_def weakest_replaceable_contact_def K_def
       KAD_LOCAL_QUALITY_REPLACEMENT_MARGIN_def)
  from weak_replacement_rule [where bin = bin and c = c and now = 0] have "bin_is_full bin"
    by (subst (asm) r) simp
  with r show ?thesis
    unfolding Let_def dead_def [symmetric] c_def [symmetric] bin_def [symmetric] by blast
qed

end
