(* ===== verification/Routing_Maintenance.thy ===== *)
theory Routing_Maintenance
  imports Routing_Bin
begin

text \<open>
  \<^verbatim>\<open>emulebb-kad-routing/src/maintenance.rs\<close>: what the periodic timers do to one leaf. A random source
  \<^verbatim>\<open>impl FnMut() -> u8\<close> is a function from its state to a byte and the next state. The shift of the
  64-bit \<^verbatim>\<open>zone_index\<close> takes its amount modulo 64, as an optimised build does.
\<close>

section \<open>Model\<close>

record probe_candidate =
  pc_id :: node_id
  pc_ip :: ipv4
  pc_udp_port :: u16
  pc_kad_version :: u8
  pc_udp_key :: kad_udp_key

definition from_contact :: "contact \<Rightarrow> probe_candidate" where
  "from_contact c =
     \<lparr>pc_id = c_id c, pc_ip = c_ip c, pc_udp_port = c_udp_port c,
      pc_kad_version = c_kad_version c, pc_udp_key = c_udp_key c\<rparr>"

record small_timer_outcome =
  removed :: "node_id list"
  probes :: "probe_candidate list"

text \<open>The first pass of \<^verbatim>\<open>small_timer_for_bin\<close>: the contacts it drops, and the window it seeds.\<close>

definition dead_and_expired :: "system_time \<Rightarrow> contact \<Rightarrow> bool" where
  "dead_and_expired now c \<longleftrightarrow> is_dead c \<and> is_expired_at c now"

definition seed_expiry :: "system_time \<Rightarrow> contact \<Rightarrow> contact" where
  "seed_expiry now c =
     (if dead_and_expired now c then c
      else if c_expires_at c = None then c\<lparr>c_expires_at := Some now\<rparr> else c)"

fun pick_probe ::
    "system_time \<Rightarrow> contact list \<Rightarrow> (probe_candidate \<times> nat) option \<Rightarrow> (probe_candidate \<times> nat) option" where
  "pick_probe now [] probe = probe"
| "pick_probe now (c # cs) probe =
     (if is_dead c \<or> \<not> is_expired_at c now then pick_probe now cs probe
      else
        (let quality = local_quality_score c now in
         if (case probe of None \<Rightarrow> True | Some (_, best) \<Rightarrow> quality < best)
         then pick_probe now cs (Some (from_contact c, quality))
         else pick_probe now cs probe))"

definition small_timer_for_bin ::
    "routing_bin \<Rightarrow> system_time \<Rightarrow> (node_id list \<times> probe_candidate option) \<times> routing_bin" where
  "small_timer_for_bin bin now =
     (let to_remove = map c_id (filter (dead_and_expired now) (contacts bin));
          seeded = bin\<lparr>contacts := map (seed_expiry now) (contacts bin)\<rparr>;
          swept = fold (\<lambda>nid b. snd (bin_remove b nid)) to_remove seeded
      in ((to_remove, map_option fst (pick_probe now (contacts swept) None)), swept))"

definition set_bit :: "arr16 \<Rightarrow> nat \<Rightarrow> bool \<Rightarrow> arr16" where
  "set_bit a pos value =
     (let chunk_idx = pos div 32 in
      if chunk_idx \<ge> 4 then a
      else
        (let bit_idx = 31 - pos mod 32;
             byte_index = chunk_idx * 4 + bit_idx div 8;
             mask = push_bit (bit_idx mod 8) (1 :: u8);
             bs = arr_bytes a
         in arr16 (bs[byte_index := (if value then bs ! byte_index OR mask else bs ! byte_index AND NOT mask)])))"

fun rng_bytes :: "('r \<Rightarrow> u8 \<times> 'r) \<Rightarrow> nat \<Rightarrow> 'r \<Rightarrow> bytes \<times> 'r" where
  "rng_bytes rng 0 r = ([], r)"
| "rng_bytes rng (Suc n) r =
     (let (b, r1) = rng r; (bs, r2) = rng_bytes rng n r1 in (b # bs, r2))"

definition path_bit :: "u64 \<Rightarrow> nat \<Rightarrow> nat \<Rightarrow> bool" where
  "path_bit zone_index depth level \<longleftrightarrow>
     drop_bit ((depth - 1 - level) mod 64) zone_index AND 1 = 1"

definition random_target_in_zone ::
    "('r \<Rightarrow> u8 \<times> 'r) \<Rightarrow> node_id \<Rightarrow> nat \<Rightarrow> nat \<Rightarrow> 'r \<Rightarrow> node_id \<times> 'r" where
  "random_target_in_zone rng own_id depth zone_index r =
     (let (bs, r') = rng_bytes rng 16 r;
          depth = min depth 128;
          d = fold (\<lambda>level a. set_bit a level (path_bit (word_of_nat zone_index) depth level))
                [0..<depth] (arr16 bs)
      in (distance own_id (NodeId d), r'))"

section \<open>The leaf sweep\<close>

lemma seed_expiry_id [simp]: "c_id (seed_expiry now c) = c_id c" "c_ip (seed_expiry now c) = c_ip c"
  by (simp_all add: seed_expiry_def)

lemma bin_remove_contacts:
  assumes "distinct (map c_id (contacts bin))"
  shows "contacts (snd (bin_remove bin nid)) = filter (\<lambda>c. c_id c \<noteq> nid) (contacts bin)"
proof (cases "position (\<lambda>c. c_id c = nid) (contacts bin)")
  case None
  then have "\<forall>c \<in> set (contacts bin). c_id c \<noteq> nid" by (simp add: position_None_iff)
  with None show ?thesis by (simp add: bin_remove_def)
next
  case (Some pos)
  then have pos: "pos < length (contacts bin)" "c_id (contacts bin ! pos) = nid"
    by (auto dest: position_SomeD)
  define xs y ys where "xs = take pos (contacts bin)" and "y = contacts bin ! pos"
    and "ys = drop (Suc pos) (contacts bin)"
  have eq: "contacts bin = xs @ y # ys"
    unfolding xs_def y_def ys_def by (rule id_take_nth_drop [OF pos(1)])
  have "c_id y = nid" "remove_at pos (contacts bin) = xs @ ys"
    using pos by (simp_all add: remove_at_def xs_def ys_def y_def)
  moreover have "\<forall>c \<in> set xs \<union> set ys. c_id c \<noteq> c_id y"
    using assms unfolding eq by (auto simp: image_iff)
  ultimately show ?thesis
    using Some by (simp add: bin_remove_def eq)
qed

lemma remove_all_contacts:
  "distinct (map c_id (contacts bin)) \<Longrightarrow>
     contacts (fold (\<lambda>nid b. snd (bin_remove b nid)) nids bin) =
       filter (\<lambda>c. c_id c \<notin> set nids) (contacts bin)"
proof (induction nids arbitrary: bin)
  case Nil
  then show ?case by simp
next
  case (Cons nid nids)
  have *: "contacts (snd (bin_remove bin nid)) = filter (\<lambda>c. c_id c \<noteq> nid) (contacts bin)"
    by (rule bin_remove_contacts) (rule Cons.prems)
  moreover have "distinct (map c_id (contacts (snd (bin_remove bin nid))))"
    using Cons.prems by (simp add: * distinct_map_filter)
  ultimately show ?case
    by (simp add: Cons.IH conj_commute cong: filter_cong)
qed

lemma small_timer_contacts:
  assumes "distinct (map c_id (contacts bin))"
  shows "contacts (snd (small_timer_for_bin bin now)) =
    map (seed_expiry now) (filter (\<lambda>c. \<not> dead_and_expired now c) (contacts bin))"
proof -
  have inj: "inj_on c_id (set (contacts bin))"
    using assms by (simp add: distinct_map)
  have "filter (\<lambda>c. c_id (seed_expiry now c) \<notin> c_id ` {x \<in> set (contacts bin). dead_and_expired now x}) (contacts bin)
      = filter (\<lambda>c. \<not> dead_and_expired now c) (contacts bin)"
    using inj by (intro filter_cong) (auto dest: inj_onD)
  then show ?thesis
    using assms by (simp add: small_timer_for_bin_def Let_def remove_all_contacts filter_map comp_def)
qed

lemma subnet_load_seeded: "subnet_load s (map (seed_expiry now) (filter p cs)) \<le> subnet_load s cs"
  by (induction cs) (auto simp: subnet_load_def in_subnet_def)

lemma small_timer_inv [keeps_inv]:
  assumes inv: "bin_inv bin"
  shows "bin_inv (snd (small_timer_for_bin bin now))"
proof (rule bin_invI; (subst small_timer_contacts, rule bin_invD [OF inv])+)
  let ?cs = "map (seed_expiry now) (filter (\<lambda>c. \<not> dead_and_expired now c) (contacts bin))"
  show "length ?cs \<le> K"
    using bin_invD(1) [OF inv] by (simp add: order_trans [OF length_filter_le])
  show "distinct (map c_id ?cs)"
    using bin_invD(2) [OF inv] by (simp add: comp_def distinct_map_filter)
  show "subnet_load s ?cs \<le> MAX_PER_BIN_SUBNET24" for s
    by (rule order_trans [OF subnet_load_seeded bin_invD(3) [OF inv]])
qed

lemma pick_probe_scan:
  "pick_probe now cs (map_option (\<lambda>(c, q). (from_contact c, q)) best) =
     map_option (\<lambda>(c, q). (from_contact c, q))
       (best_scan (\<lambda>c. if is_dead c \<or> \<not> is_expired_at c now then None else Some (local_quality_score c now)) cs best)"
proof (induction cs arbitrary: best)
  case (Cons c cs)
  show ?case
  proof (cases "is_dead c \<or> \<not> is_expired_at c now")
    case False
    have "pick_probe now cs (Some (from_contact c, local_quality_score c now)) =
        pick_probe now cs (map_option (\<lambda>(c, q). (from_contact c, q)) (Some (c, local_quality_score c now)))"
      by simp
    with False Cons.IH show ?thesis
      by (cases best) (auto simp: Let_def simp del: option.map)
  qed (simp add: Cons.IH)
qed simp

section \<open>Bits of the random target\<close>

lemma node_bit_byte:
  "node_bit (NodeId a) k \<longleftrightarrow>
     k < 128 \<and> bit (arr_bytes a ! (4 * (k div 32) + (31 - k mod 32) div 8)) ((31 - k mod 32) mod 8)"
  by (auto simp: node_bit_chunk bit_chunk_u32)

lemma bit_address_inject:
  assumes "4 * (k div 32) + (31 - k mod 32) div 8 = 4 * (p div 32) + (31 - p mod 32) div 8"
    and "(31 - k mod 32) mod 8 = (31 - p mod 32) mod (8 :: nat)"
  shows "k = p"
proof -
  have digits: "u = v \<and> x = y" if "n * u + x = n * v + y" "x < n" "y < n" for n u v x y :: nat
    using shifted_sum_eq [OF that(2,3), of u v] that(1) by (simp add: mult.commute)
  define a b where "a = 31 - k mod 32" and "b = 31 - p mod 32"
  have "a div 8 < 4" "b div 8 < 4" by (simp_all add: a_def b_def)
  from digits [OF assms(1) [folded a_def b_def] this]
  have chunk: "k div 32 = p div 32" and "a div 8 = b div 8" by blast+
  with assms(2) [folded a_def b_def] have "a = b"
    by (metis mult_div_mod_eq)
  moreover have "k mod 32 < 32" "p mod 32 < 32" by simp_all
  ultimately have "k mod 32 = p mod 32" unfolding a_def b_def by linarith
  with chunk show ?thesis by (metis mult_div_mod_eq)
qed

lemma node_bit_set_bit:
  assumes "p < 128"
  shows "node_bit (NodeId (set_bit a p v)) k = (if k = p then v else node_bit (NodeId a) k)"
proof -
  define i where "i = (p div 32) * 4 + (31 - p mod 32) div 8"
  define m where "m = (31 - p mod 32) mod 8"
  have "p div 32 < 4" using assms by simp
  moreover have "(31 - p mod 32) div 8 < 4" by simp
  ultimately have i: "i < 16" unfolding i_def by linarith
  let ?b = "if v then arr_bytes a ! i OR push_bit m 1 else arr_bytes a ! i AND NOT (push_bit m 1)"
  have bytes: "arr_bytes (set_bit a p v) = (arr_bytes a)[i := ?b]"
    using \<open>p div 32 < 4\<close> by (simp add: set_bit_def Let_def i_def m_def)
  have m8: "m < 8" by (simp add: m_def)
  have bits: "bit ?b n \<longleftrightarrow> (if n = m then v else bit (arr_bytes a ! i) n)" if "n < 8" for n
    using that m8 by (auto simp: bit_simps)
  show ?thesis
  proof (cases "k < 128")
    case False
    with assms show ?thesis by (simp add: node_bit_byte)
  next
    case True
    let ?i = "4 * (k div 32) + (31 - k mod 32) div 8" and ?n = "(31 - k mod 32) mod 8"
    have "k = p \<longleftrightarrow> ?i = i \<and> ?n = m"
      using bit_address_inject [of k p] by (auto simp: i_def m_def mult.commute)
    moreover have "bit ((arr_bytes a)[i := ?b] ! ?i) ?n \<longleftrightarrow>
        (if ?i = i \<and> ?n = m then v else bit (arr_bytes a ! ?i) ?n)"
      using i bits [of ?n] by (auto simp: nth_list_update)
    ultimately show ?thesis
      using True by (simp add: node_bit_byte bytes)
  qed
qed

lemma node_bit_set_bits:
  assumes "n \<le> 128"
  shows "node_bit (NodeId (fold (\<lambda>level a. set_bit a level (f level)) [0..<n] a)) k =
    (if k < n then f k else node_bit (NodeId a) k)"
  using assms by (induction n) (auto simp: node_bit_set_bit)

lemma random_target_bits:
  assumes "depth \<le> 64" and "random_target_in_zone rng own depth zone_index r = (target, r')"
  shows "\<forall>level < 128. node_bit (distance own target) level \<longleftrightarrow>
    (if level < depth then bit (word_of_nat zone_index :: u64) (depth - 1 - level)
     else node_bit (NodeId (arr16 (fst (rng_bytes rng 16 r)))) level)"
proof -
  have path: "path_bit z depth level \<longleftrightarrow> bit z (depth - 1 - level)" if "level < depth" for z level
    using that assms(1) by (simp add: path_bit_def and_one_eq bit_iff_odd_drop_bit odd_iff_mod_2_eq_one)
  have "target = distance own (NodeId (fold (\<lambda>level a. set_bit a level
      (path_bit (word_of_nat zone_index) depth level)) [0..<depth] (arr16 (fst (rng_bytes rng 16 r)))))"
    using assms by (auto simp: random_target_in_zone_def Let_def min_def split: prod.splits)
  then show ?thesis
    using assms(1) path by (auto simp: node_bit_distance node_bit_set_bits)
qed

section \<open>Properties\<close>

text \<open>The small timer drops exactly the contacts of a leaf that are dead and expired, seeds a
  window on the others that have none, and picks for a probe a live expired contact of the lowest
  score, or none when no live contact is expired.\<close>

theorem small_timer_leaf:
  assumes "bin_inv bin" and "small_timer_for_bin bin now = ((gone, probe), bin')"
  shows "gone = map c_id (filter (\<lambda>c. is_dead c \<and> is_expired_at c now) (contacts bin))
    \<and> contacts bin' = map (seed_expiry now) (filter (\<lambda>c. \<not> (is_dead c \<and> is_expired_at c now)) (contacts bin))
    \<and> bin_inv bin'
    \<and> (case probe of
         None \<Rightarrow> \<forall>c \<in> set (contacts bin'). is_dead c \<or> \<not> is_expired_at c now
       | Some p \<Rightarrow>
           \<exists>c \<in> set (contacts bin'). p = from_contact c \<and> \<not> is_dead c \<and> is_expired_at c now
             \<and> (\<forall>x \<in> set (contacts bin'). \<not> is_dead x \<longrightarrow> is_expired_at x now \<longrightarrow>
                  local_quality_score c now \<le> local_quality_score x now))"
proof -
  have bin': "bin' = snd (small_timer_for_bin bin now)" using assms(2) by simp
  have probe: "probe = map_option fst (pick_probe now (contacts bin') None)"
    and gone: "gone = map c_id (filter (dead_and_expired now) (contacts bin))"
    using assms(2) by (auto simp: small_timer_for_bin_def Let_def)
  let ?score = "\<lambda>c. if is_dead c \<or> \<not> is_expired_at c now then None else Some (local_quality_score c now)"
  have scan: "probe = map_option (\<lambda>(c, q). from_contact c) (best_scan ?score (contacts bin') None)"
    using pick_probe_scan [of now "contacts bin'" None] probe
    by (cases "best_scan ?score (contacts bin') None") auto
  have "case probe of
         None \<Rightarrow> \<forall>c \<in> set (contacts bin'). is_dead c \<or> \<not> is_expired_at c now
       | Some p \<Rightarrow>
           \<exists>c \<in> set (contacts bin'). p = from_contact c \<and> \<not> is_dead c \<and> is_expired_at c now
             \<and> (\<forall>x \<in> set (contacts bin'). \<not> is_dead x \<longrightarrow> is_expired_at x now \<longrightarrow>
                  local_quality_score c now \<le> local_quality_score x now)"
  proof (cases "best_scan ?score (contacts bin') None")
    case None
    with scan show ?thesis by (auto simp: best_scan_None split: if_splits)
  next
    case (Some r)
    obtain c q where r: "r = (c, q)" by (cases r)
    with Some scan best_scan_Some [of ?score "contacts bin'" c q] show ?thesis
      by (auto split: if_splits)
  qed
  then show ?thesis
    using gone small_timer_contacts [OF bin_invD(2) [OF assms(1)], of now]
      small_timer_inv [OF assms(1), of now] bin'
    by (simp add: dead_and_expired_def [abs_def])
qed

text \<open>At depths up to 64 a random lookup target has, in its distance to the local identifier,
  the low \<open>depth\<close> bits of the zone index as leading bits, most significant first, and random bits
  below them.\<close>

theorem random_target_prefix:
  assumes "depth \<le> 64" and "random_target_in_zone rng own depth zone_index r = (target, r')"
  shows "\<forall>level < 128. node_bit (distance own target) level \<longleftrightarrow>
    (if level < depth then bit (word_of_nat zone_index :: u64) (depth - 1 - level)
     else node_bit (NodeId (arr16 (fst (rng_bytes rng 16 r)))) level)"
  using assms by (rule random_target_bits)

theorem random_target_prefix_witness:
  "let target = fst (random_target_in_zone (\<lambda>n. (word_of_nat n, Suc n)) (NodeId (arr16 [90, 90])) 3 5 1)
   in node_bit (distance (NodeId (arr16 [90, 90])) target) 0
      \<and> \<not> node_bit (distance (NodeId (arr16 [90, 90])) target) 1"
proof -
  let ?own = "NodeId (arr16 [90, 90])" and ?rng = "\<lambda>n. (word_of_nat n, Suc n)"
  obtain target r' where t: "random_target_in_zone ?rng ?own 3 5 1 = (target, r')"
    by (cases "random_target_in_zone ?rng ?own 3 5 1")
  have bits: "bit (word_of_nat 5 :: u64) 2" "\<not> bit (word_of_nat 5 :: u64) 1" by code_simp+
  have "3 \<le> (64 :: nat)" by simp
  note prefix = random_target_prefix [OF this t, rule_format]
  have "node_bit (distance ?own target) 0" "\<not> node_bit (distance ?own target) 1"
    using prefix [of 0] prefix [of 1] bits by simp_all
  then show ?thesis
    unfolding Let_def t fst_conv by blast
qed

theorem small_timer_leaf_witness:
  "fst (fst (small_timer_for_bin \<lparr>contacts = [mark_dead 0 (example_contact 1)]\<rparr> 5)) = [c_id (example_contact 1)]"
proof -
  let ?bin = "\<lparr>contacts = [mark_dead 0 (example_contact 1)]\<rparr>"
  obtain gone probe bin' where t: "small_timer_for_bin ?bin 5 = ((gone, probe), bin')"
    by (metis prod.collapse)
  have "bin_inv ?bin"
    by (rule bin_invI) (simp_all add: K_def MAX_PER_BIN_SUBNET24_def)
  with t small_timer_leaf [OF _ t] show ?thesis
    by (simp add: is_dead_def is_expired_at_def mark_dead_def)
qed

end
