(* ===== verification/Routing_Zone.thy ===== *)
theory Routing_Zone
  imports Routing_Maintenance
begin

text \<open>
  \<^verbatim>\<open>emulebb-kad-routing/src/zone.rs\<close>: the binary tree of zones. A zone is a leaf with its bin or a
  branch, with the depth, the zone index and the big timer that the struct \<^verbatim>\<open>RoutingZone\<close> carries in
  both cases. Operations return the new tree next to their result, also when the result is an error:
  a failing \<^verbatim>\<open>split\<close> leaves a drained leaf behind. \<^verbatim>\<open>estimate_network_size\<close> computes in \<^verbatim>\<open>f64\<close> and is
  not modelled. The two clock reads (\<^verbatim>\<open>replace_weak_contact\<close>, \<^verbatim>\<open>oracle_type\<close>) are the argument \<open>now\<close>.
\<close>

section \<open>Model\<close>

definition KBASE :: nat where
  "KBASE = 4"

definition KK :: nat where
  "KK = 5"

datatype routing_zone =
    ZLeaf nat nat "system_time option" routing_bin
  | ZBranch nat nat "system_time option" routing_zone routing_zone

datatype add_outcome = Added | Updated | Replaced contact

definition grew_total :: "add_outcome \<Rightarrow> bool" where
  "grew_total outcome = (case outcome of Added \<Rightarrow> True | _ \<Rightarrow> False)"

fun zone_depth :: "routing_zone \<Rightarrow> nat" where
  "zone_depth (ZLeaf d _ _ _) = d"
| "zone_depth (ZBranch d _ _ _ _) = d"

fun zone_index :: "routing_zone \<Rightarrow> nat" where
  "zone_index (ZLeaf _ i _ _) = i"
| "zone_index (ZBranch _ i _ _ _) = i"

definition new_leaf :: "nat \<Rightarrow> nat \<Rightarrow> routing_zone" where
  "new_leaf depth index = ZLeaf depth index None bin_new"

definition new_root :: routing_zone where
  "new_root = new_leaf 0 0"

fun is_leaf :: "routing_zone \<Rightarrow> bool" where
  "is_leaf (ZLeaf _ _ _ _) = True"
| "is_leaf (ZBranch _ _ _ _ _) = False"

definition branch_is_right :: "node_id \<Rightarrow> node_id \<Rightarrow> nat \<Rightarrow> bool" where
  "branch_is_right nid own_id depth = node_bit (distance nid own_id) depth"

definition child_zone_index :: "nat \<Rightarrow> bool \<Rightarrow> nat" where
  "child_zone_index parent right_child =
     min (min (min (parent * 2) 18446744073709551615 + of_bool right_child) 18446744073709551615) KK"

definition can_split :: "nat \<Rightarrow> nat \<Rightarrow> nat \<Rightarrow> nat \<Rightarrow> split_denied_reason + unit" where
  "can_split depth index total_contacts max_table_size =
     (if depth \<ge> 127 then Inl DepthLimit
      else if total_contacts \<ge> max_table_size then Inl MaxTableSize
      else if depth < KBASE \<or> index < KK then Inr ()
      else Inl ZoneIndexCap)"

text \<open>The two loops of \<^verbatim>\<open>split\<close>, each stopping at the first error: the drained contacts go through
  \<^verbatim>\<open>try_add\<close> into a fresh bin, then each goes into the bin of the child leaf on its side. The source
  calls \<^verbatim>\<open>add\<close> on the child; on a leaf that is \<^verbatim>\<open>try_add\<close> unless the bin is full, and the lemma
  \<open>redistribute_is_add\<close> below shows that the bin of a child is never full here.\<close>

fun readd_all :: "contact list \<Rightarrow> routing_bin \<Rightarrow> routing_error + routing_bin" where
  "readd_all [] bin = Inr bin"
| "readd_all (c # cs) bin = try_bind (bin_try_add bin c) (\<lambda>(_, bin'). readd_all cs bin')"

fun redistribute ::
    "node_id \<Rightarrow> nat \<Rightarrow> contact list \<Rightarrow> routing_bin \<Rightarrow> routing_bin \<Rightarrow> routing_error + routing_bin \<times> routing_bin" where
  "redistribute own_id depth [] left right = Inr (left, right)"
| "redistribute own_id depth (c # cs) left right =
     (if branch_is_right (c_id c) own_id depth
      then try_bind (bin_try_add right c) (\<lambda>(_, right'). redistribute own_id depth cs left right')
      else try_bind (bin_try_add left c) (\<lambda>(_, left'). redistribute own_id depth cs left' right))"

definition zone_split ::
    "node_id \<Rightarrow> nat \<Rightarrow> nat \<Rightarrow> system_time option \<Rightarrow> routing_bin \<Rightarrow> (routing_error + unit) \<times> routing_zone" where
  "zone_split own_id depth index timer bin =
     (let drained_leaf = ZLeaf depth index timer (bin\<lparr>contacts := []\<rparr>) in
      case try_bind (readd_all (contacts bin) bin_new)
             (\<lambda>drained. redistribute own_id depth (contacts drained) bin_new bin_new) of
        Inl e \<Rightarrow> (Inl e, drained_leaf)
      | Inr (left, right) \<Rightarrow>
          (Inr (), ZBranch depth index timer
             (ZLeaf (depth + 1) (child_zone_index index False) None left)
             (ZLeaf (depth + 1) (child_zone_index index True) None right)))"

fun split_measure :: "routing_zone \<Rightarrow> nat" where
  "split_measure (ZLeaf d _ _ _) = 2 * (128 - d)"
| "split_measure (ZBranch _ _ _ l r) = Suc (max (split_measure l) (split_measure r))"

lemma zone_split_measure:
  "zone_split own d i t bin = (Inr u, z) \<Longrightarrow> can_split d i total_contacts max_table_size = Inr v \<Longrightarrow>
     split_measure z < 2 * (128 - d)"
  by (auto simp: zone_split_def Let_def can_split_def split: sum.splits if_splits)

function zone_add ::
    "node_id \<Rightarrow> system_time \<Rightarrow> nat \<Rightarrow> nat \<Rightarrow> contact \<Rightarrow> routing_zone \<Rightarrow> (routing_error + add_outcome) \<times> routing_zone" where
  "zone_add own_id now total_contacts max_table_size c (ZLeaf d i t bin) =
     (case bin_try_add bin c of
        Inr (True, bin') \<Rightarrow> (Inr Added, ZLeaf d i t bin')
      | Inr (False, bin') \<Rightarrow> (Inr Updated, ZLeaf d i t bin')
      | Inl (TableFull _) \<Rightarrow>
          (case can_split d i total_contacts max_table_size of
             Inr _ \<Rightarrow>
               (case zone_split own_id d i t bin of
                  (Inl e, z) \<Rightarrow> (Inl e, z)
                | (Inr _, z) \<Rightarrow> zone_add own_id now total_contacts max_table_size c z)
           | Inl reason \<Rightarrow>
               (case replace_weak_contact_at bin c now of
                  (Some evicted, bin') \<Rightarrow> (Inr (Replaced evicted), ZLeaf d i t bin')
                | (None, bin') \<Rightarrow> (Inl (SplitDenied reason), ZLeaf d i t bin')))
      | Inl e \<Rightarrow> (Inl e, ZLeaf d i t bin))"
| "zone_add own_id now total_contacts max_table_size c (ZBranch d i t l r) =
     (if branch_is_right (c_id c) own_id d
      then (let (res, r') = zone_add own_id now total_contacts max_table_size c r in (res, ZBranch d i t l r'))
      else (let (res, l') = zone_add own_id now total_contacts max_table_size c l in (res, ZBranch d i t l' r)))"
  by pat_completeness auto
termination
  by (relation "measure (\<lambda>(_, _, _, _, _, z). split_measure z)")
    (auto dest: zone_split_measure [OF sym])

text \<open>Collection of contacts. The accumulator \<open>result\<close> is the \<^verbatim>\<open>&mut Vec\<close> of the source.\<close>

fun zone_get_closest ::
    "node_id \<Rightarrow> node_id \<Rightarrow> nat \<Rightarrow> routing_zone \<Rightarrow> contact list \<Rightarrow> contact list" where
  "zone_get_closest target own_id n (ZLeaf _ _ _ bin) result = result @ contacts bin"
| "zone_get_closest target own_id n (ZBranch d _ _ l r) result =
     (if branch_is_right target own_id d
      then (let result = zone_get_closest target own_id n r result in
            if length result < n then zone_get_closest target own_id n l result else result)
      else (let result = zone_get_closest target own_id n l result in
            if length result < n then zone_get_closest target own_id n r result else result))"

fun zone_get_closest_max_type ::
    "system_time \<Rightarrow> node_id \<Rightarrow> node_id \<Rightarrow> nat \<Rightarrow> nat \<Rightarrow> routing_zone \<Rightarrow> contact list \<Rightarrow> contact list" where
  "zone_get_closest_max_type now target own_id n max_type (ZLeaf _ _ _ bin) result =
     result @ filter (\<lambda>c. oracle_type_at c now \<le> max_type \<and> c_verified c) (contacts bin)"
| "zone_get_closest_max_type now target own_id n max_type (ZBranch d _ _ l r) result =
     (if branch_is_right target own_id d
      then (let result = zone_get_closest_max_type now target own_id n max_type r result in
            if length result < n
            then zone_get_closest_max_type now target own_id n max_type l result else result)
      else (let result = zone_get_closest_max_type now target own_id n max_type l result in
            if length result < n
            then zone_get_closest_max_type now target own_id n max_type r result else result))"

text \<open>The random bit source is a function on its state.\<close>

fun top_depth_contacts ::
    "('r \<Rightarrow> bool \<times> 'r) \<Rightarrow> routing_zone \<Rightarrow> int \<Rightarrow> 'r \<Rightarrow> contact list \<Rightarrow> contact list \<times> 'r" where
  "top_depth_contacts rng (ZLeaf _ _ _ bin) depth s result = (result @ contacts bin, s)"
| "top_depth_contacts rng (ZBranch _ _ _ l r) depth s result =
     (if depth \<le> 0
      then (let (b, s) = rng s in
            if b then top_depth_contacts rng r depth s result
            else top_depth_contacts rng l depth s result)
      else (let (result, s) = top_depth_contacts rng l (depth - 1) s result in
            top_depth_contacts rng r (depth - 1) s result))"

fun zone_remove :: "node_id \<Rightarrow> routing_zone \<Rightarrow> node_id \<Rightarrow> contact option \<times> routing_zone" where
  "zone_remove own_id (ZLeaf d i t bin) nid = (let (res, bin') = bin_remove bin nid in (res, ZLeaf d i t bin'))"
| "zone_remove own_id (ZBranch d i t l r) nid =
     (if branch_is_right nid own_id d
      then (let (res, r') = zone_remove own_id r nid in (res, ZBranch d i t l r'))
      else (let (res, l') = zone_remove own_id l nid in (res, ZBranch d i t l' r)))"

fun zone_get :: "node_id \<Rightarrow> routing_zone \<Rightarrow> node_id \<Rightarrow> contact option" where
  "zone_get own_id (ZLeaf _ _ _ bin) nid = find (\<lambda>c. c_id c = nid) (contacts bin)"
| "zone_get own_id (ZBranch d _ _ l r) nid =
     (if branch_is_right nid own_id d then zone_get own_id r nid else zone_get own_id l nid)"

fun zone_get_mut ::
    "node_id \<Rightarrow> routing_zone \<Rightarrow> node_id \<Rightarrow> (contact \<Rightarrow> contact) \<Rightarrow> contact option \<times> routing_zone" where
  "zone_get_mut own_id (ZLeaf d i t bin) nid f =
     (let (res, bin') = bin_get_mut bin nid f in (res, ZLeaf d i t bin'))"
| "zone_get_mut own_id (ZBranch d i t l r) nid f =
     (if branch_is_right nid own_id d
      then (let (res, r') = zone_get_mut own_id r nid f in (res, ZBranch d i t l r'))
      else (let (res, l') = zone_get_mut own_id l nid f in (res, ZBranch d i t l' r)))"

fun zone_count :: "routing_zone \<Rightarrow> nat" where
  "zone_count (ZLeaf _ _ _ bin) = bin_len bin"
| "zone_count (ZBranch _ _ _ l r) = zone_count l + zone_count r"

fun small_timer_sweep ::
    "system_time \<Rightarrow> routing_zone \<Rightarrow> small_timer_outcome \<Rightarrow> small_timer_outcome \<times> routing_zone" where
  "small_timer_sweep now (ZLeaf d i t bin) outcome =
     (let ((gone, probe), bin') = small_timer_for_bin bin now;
          outcome = outcome\<lparr>removed := removed outcome @ gone\<rparr>;
          outcome = (case probe of Some p \<Rightarrow> outcome\<lparr>probes := probes outcome @ [p]\<rparr> | None \<Rightarrow> outcome)
      in (outcome, ZLeaf d i t bin'))"
| "small_timer_sweep now (ZBranch d i t l r) outcome =
     (let (outcome, l') = small_timer_sweep now l outcome;
          (outcome, r') = small_timer_sweep now r outcome
      in (outcome, ZBranch d i t l' r'))"

fun zone_take_due ::
    "('r \<Rightarrow> u8 \<times> 'r) \<Rightarrow> node_id \<Rightarrow> system_time \<Rightarrow> duration \<Rightarrow> routing_zone \<Rightarrow> 'r \<Rightarrow>
     node_id option \<times> routing_zone \<times> 'r" where
  "zone_take_due rng own_id now rearm (ZLeaf d i t bin) s =
     (let fill_gate = (i < KK \<or> d < KBASE \<or> bin_len bin * 5 \<le> K);
          due = (case t of None \<Rightarrow> True | Some at \<Rightarrow> now \<ge> at)
      in if fill_gate \<and> due
         then (let (target, s') = random_target_in_zone rng own_id d i s
               in (Some target, ZLeaf d i (Some (now + int rearm)) bin, s'))
         else (None, ZLeaf d i t bin, s))"
| "zone_take_due rng own_id now rearm (ZBranch d i t l r) s =
     (case zone_take_due rng own_id now rearm l s of
        (Some target, l', s') \<Rightarrow> (Some target, ZBranch d i t l' r, s')
      | (None, l', s') \<Rightarrow>
          (let (res, r', s'') = zone_take_due rng own_id now rearm r s'
           in (res, ZBranch d i t l' r', s'')))"

text \<open>\<^verbatim>\<open>consolidate\<close>: the merge of two leaves re-adds the contacts of both to one fresh bin and
  records the rejected ones.\<close>

fun merge_bins :: "contact list \<Rightarrow> routing_bin \<Rightarrow> contact list \<Rightarrow> routing_bin \<times> contact list" where
  "merge_bins [] merged dropped = (merged, dropped)"
| "merge_bins (c # cs) merged dropped =
     (case bin_try_add merged c of
        Inl _ \<Rightarrow> merge_bins cs merged (dropped @ [c])
      | Inr (_, merged') \<Rightarrow> merge_bins cs merged' dropped)"

fun leaf_contacts :: "routing_zone \<Rightarrow> contact list" where
  "leaf_contacts (ZLeaf _ _ _ bin) = contacts bin"
| "leaf_contacts (ZBranch _ _ _ _ _) = []"

fun zone_consolidate :: "routing_zone \<Rightarrow> contact list \<Rightarrow> nat \<times> contact list \<times> routing_zone" where
  "zone_consolidate (ZLeaf d i t bin) dropped = (0, dropped, ZLeaf d i t bin)"
| "zone_consolidate (ZBranch d i t l r) dropped =
     (let (m1, dropped, l) = (if is_leaf l then (0, dropped, l) else zone_consolidate l dropped);
          (m2, dropped, r) = (if is_leaf r then (0, dropped, r) else zone_consolidate r dropped)
      in if is_leaf l \<and> is_leaf r \<and> zone_count l + zone_count r < K div 2
         then (let (merged, dropped) = merge_bins (leaf_contacts l @ leaf_contacts r) bin_new dropped
               in (m1 + m2 + 1, dropped, ZLeaf d i t merged))
         else (m1 + m2, dropped, ZBranch d i t l r))"

section \<open>Sublists of a well-formed bin\<close>

lemma bin_collapse [simp]: "\<lparr>contacts = contacts bin\<rparr> = bin"
  by simp

lemma bin_inv_filter: "bin_inv \<lparr>contacts = cs\<rparr> \<Longrightarrow> bin_inv \<lparr>contacts = filter p cs\<rparr>"
proof (rule bin_invI, goal_cases)
  case 1
  then show ?case using bin_invD(1) [OF 1] by (simp add: order_trans [OF length_filter_le])
next
  case 2
  then show ?case using bin_invD(2) [OF 2] by (simp add: distinct_map_filter)
next
  case (3 s)
  have "length (filter (in_subnet s) (filter p cs)) \<le> length (filter (in_subnet s) cs)"
    by (induction cs) auto
  then show ?case using bin_invD(3) [OF 3, of s] by (simp add: subnet_load_def)
qed

lemma bin_inv_prefix: "bin_inv \<lparr>contacts = xs @ ys\<rparr> \<Longrightarrow> bin_inv \<lparr>contacts = xs\<rparr>"
proof (rule bin_invI, goal_cases)
  case (3 s)
  then show ?case using bin_invD(3) [OF 3, of s] by simp
qed (auto dest: bin_invD(1,2))

lemma try_add_fits:
  assumes "bin_inv \<lparr>contacts = xs @ [c]\<rparr>"
  shows "bin_try_add \<lparr>contacts = xs\<rparr> c = Inr (True, \<lparr>contacts = xs @ [c]\<rparr>)"
proof -
  note inv = bin_invD [OF assms]
  have "position (\<lambda>e. c_id e = c_id c) xs = None"
    using inv(2) by (auto simp: position_None_iff image_iff)
  moreover have "subnet_load (subnet24 (c_ip c)) xs < MAX_PER_BIN_SUBNET24" if "\<not> is_lan (c_ip c)"
    using inv(3) [of "subnet24 (c_ip c)"] that by (simp add: in_subnet_def)
  ultimately show ?thesis
    using inv(1) by (auto simp: bin_try_add_eq)
qed

lemma readd_all_fits:
  "bin_inv \<lparr>contacts = xs @ cs\<rparr> \<Longrightarrow> readd_all cs \<lparr>contacts = xs\<rparr> = Inr \<lparr>contacts = xs @ cs\<rparr>"
proof (induction cs arbitrary: xs)
  case Nil
  then show ?case by simp
next
  case (Cons c cs)
  then have "bin_inv \<lparr>contacts = xs @ [c]\<rparr>"
    using bin_inv_prefix [of "xs @ [c]" cs] by simp
  then have "bin_try_add \<lparr>contacts = xs\<rparr> c = Inr (True, \<lparr>contacts = xs @ [c]\<rparr>)"
    by (rule try_add_fits)
  with Cons.IH [of "xs @ [c]"] Cons.prems show ?case by simp
qed

lemma readd_all_inv: "bin_inv bin \<Longrightarrow> readd_all cs bin = Inr bin' \<Longrightarrow> bin_inv bin'"
  by (induction cs arbitrary: bin) (auto simp: try_bind_Inr_iff intro: bin_try_add_inv)

lemma redistribute_fits:
  "bin_inv \<lparr>contacts = ls @ filter (\<lambda>c. \<not> branch_is_right (c_id c) own d) cs\<rparr> \<Longrightarrow>
   bin_inv \<lparr>contacts = rs @ filter (\<lambda>c. branch_is_right (c_id c) own d) cs\<rparr> \<Longrightarrow>
   redistribute own d cs \<lparr>contacts = ls\<rparr> \<lparr>contacts = rs\<rparr> =
     Inr (\<lparr>contacts = ls @ filter (\<lambda>c. \<not> branch_is_right (c_id c) own d) cs\<rparr>,
          \<lparr>contacts = rs @ filter (\<lambda>c. branch_is_right (c_id c) own d) cs\<rparr>)"
proof (induction cs arbitrary: ls rs)
  case Nil
  then show ?case by simp
next
  case (Cons c cs)
  show ?case
  proof (cases "branch_is_right (c_id c) own d")
    case True
    with Cons.prems have "bin_inv \<lparr>contacts = rs @ [c]\<rparr>"
      using bin_inv_prefix [of "rs @ [c]"] by simp
    from try_add_fits [OF this] Cons.IH [of ls "rs @ [c]"] Cons.prems True show ?thesis by simp
  next
    case False
    with Cons.prems have "bin_inv \<lparr>contacts = ls @ [c]\<rparr>"
      using bin_inv_prefix [of "ls @ [c]"] by simp
    from try_add_fits [OF this] Cons.IH [of "ls @ [c]" rs] Cons.prems False show ?thesis by simp
  qed
qed

lemma redistribute_drained:
  assumes "bin_inv bin"
  shows "redistribute own d (contacts bin) bin_new bin_new =
     Inr (\<lparr>contacts = filter (\<lambda>c. \<not> branch_is_right (c_id c) own d) (contacts bin)\<rparr>,
          \<lparr>contacts = filter (\<lambda>c. branch_is_right (c_id c) own d) (contacts bin)\<rparr>)"
  using redistribute_fits [of "[]" own d "contacts bin" "[]"] bin_inv_filter [of "contacts bin"] assms
  by (simp add: bin_new_def)

lemma zone_split_eq:
  assumes "bin_inv bin"
  shows "zone_split own d i t bin = (Inr (), ZBranch d i t
    (ZLeaf (d + 1) (child_zone_index i False) None
       \<lparr>contacts = filter (\<lambda>c. \<not> branch_is_right (c_id c) own d) (contacts bin)\<rparr>)
    (ZLeaf (d + 1) (child_zone_index i True) None
       \<lparr>contacts = filter (\<lambda>c. branch_is_right (c_id c) own d) (contacts bin)\<rparr>))"
proof -
  have "readd_all (contacts bin) bin_new = Inr bin"
    using readd_all_fits [of "[]" "contacts bin"] assms by (simp add: bin_new_def)
  with redistribute_drained [OF assms] show ?thesis
    by (simp add: zone_split_def)
qed

text \<open>The redistribution loop as the source writes it, with \<^verbatim>\<open>add\<close> on the child zones.\<close>

fun redistribute_by_add ::
    "node_id \<Rightarrow> system_time \<Rightarrow> nat \<Rightarrow> contact list \<Rightarrow> routing_zone \<Rightarrow> routing_zone \<Rightarrow>
     routing_error + routing_zone \<times> routing_zone" where
  "redistribute_by_add own_id now depth [] left right = Inr (left, right)"
| "redistribute_by_add own_id now depth (c # cs) left right =
     (if branch_is_right (c_id c) own_id depth
      then (case zone_add own_id now 0 18446744073709551615 c right of
              (Inl e, _) \<Rightarrow> Inl e
            | (Inr _, right') \<Rightarrow> redistribute_by_add own_id now depth cs left right')
      else (case zone_add own_id now 0 18446744073709551615 c left of
              (Inl e, _) \<Rightarrow> Inl e
            | (Inr _, left') \<Rightarrow> redistribute_by_add own_id now depth cs left' right))"

lemma redistribute_by_add_fits:
  "bin_inv \<lparr>contacts = ls @ filter (\<lambda>c. \<not> branch_is_right (c_id c) own d) cs\<rparr> \<Longrightarrow>
   bin_inv \<lparr>contacts = rs @ filter (\<lambda>c. branch_is_right (c_id c) own d) cs\<rparr> \<Longrightarrow>
   redistribute_by_add own now d cs (ZLeaf dl il t1 \<lparr>contacts = ls\<rparr>) (ZLeaf dr ir t2 \<lparr>contacts = rs\<rparr>) =
     Inr (ZLeaf dl il t1 \<lparr>contacts = ls @ filter (\<lambda>c. \<not> branch_is_right (c_id c) own d) cs\<rparr>,
          ZLeaf dr ir t2 \<lparr>contacts = rs @ filter (\<lambda>c. branch_is_right (c_id c) own d) cs\<rparr>)"
proof (induction cs arbitrary: ls rs)
  case Nil
  then show ?case by simp
next
  case (Cons c cs)
  show ?case
  proof (cases "branch_is_right (c_id c) own d")
    case True
    with Cons.prems have "bin_inv \<lparr>contacts = rs @ [c]\<rparr>"
      using bin_inv_prefix [of "rs @ [c]"] by simp
    from try_add_fits [OF this] Cons.IH [of ls "rs @ [c]"] Cons.prems True show ?thesis by simp
  next
    case False
    with Cons.prems have "bin_inv \<lparr>contacts = ls @ [c]\<rparr>"
      using bin_inv_prefix [of "ls @ [c]"] by simp
    from try_add_fits [OF this] Cons.IH [of "ls @ [c]" rs] Cons.prems False show ?thesis by simp
  qed
qed

lemma redistribute_is_add:
  assumes "readd_all cs bin_new = Inr drained"
  shows "redistribute_by_add own now d (contacts drained) (new_leaf dl il) (new_leaf dr ir) =
    (case redistribute own d (contacts drained) bin_new bin_new of
       Inl e \<Rightarrow> Inl e
     | Inr (left, right) \<Rightarrow> Inr (ZLeaf dl il None left, ZLeaf dr ir None right))"
proof -
  have inv: "bin_inv \<lparr>contacts = contacts drained\<rparr>"
    using readd_all_inv [OF bin_inv_new assms] by simp
  show ?thesis
    using redistribute_by_add_fits [of "[]" own d "contacts drained" "[]"] redistribute_drained [of drained own d]
      bin_inv_filter [OF inv] inv
    by (simp add: new_leaf_def bin_new_def)
qed

section \<open>The zone invariant\<close>

fun zone_contacts :: "routing_zone \<Rightarrow> contact list" where
  "zone_contacts (ZLeaf _ _ _ bin) = contacts bin"
| "zone_contacts (ZBranch _ _ _ l r) = zone_contacts l @ zone_contacts r"

abbreviation zone_items :: "routing_zone \<Rightarrow> contact multiset" where
  "zone_items z \<equiv> mset (zone_contacts z)"

fun zone_wf :: "node_id \<Rightarrow> routing_zone \<Rightarrow> bool" where
  "zone_wf own (ZLeaf d i t bin) \<longleftrightarrow> d \<le> 127 \<and> i \<le> KK \<and> bin_inv bin"
| "zone_wf own (ZBranch d i t l r) \<longleftrightarrow>
     d < 127 \<and> i \<le> KK \<and> zone_depth l = d + 1 \<and> zone_depth r = d + 1
     \<and> zone_index l = child_zone_index i False \<and> zone_index r = child_zone_index i True
     \<and> zone_wf own l \<and> zone_wf own r
     \<and> list_all (\<lambda>c. \<not> branch_is_right (c_id c) own d) (zone_contacts l)
     \<and> list_all (\<lambda>c. branch_is_right (c_id c) own d) (zone_contacts r)"

lemma child_zone_index_le [simp]: "child_zone_index i b \<le> KK"
  by (simp add: child_zone_index_def)

lemma zone_wf_new_root: "zone_wf own new_root"
  by (simp add: new_root_def new_leaf_def)

lemma zone_count_contacts: "zone_count z = length (zone_contacts z)"
  by (induction z) (simp_all add: bin_len_def)

text \<open>What an insertion does to the stored contacts, as the outcome tells.\<close>

definition add_effect ::
    "system_time \<Rightarrow> contact \<Rightarrow> routing_error + add_outcome \<Rightarrow> contact multiset \<Rightarrow> contact multiset \<Rightarrow> bool" where
  "add_effect now c res M M' =
     (case res of
        Inl _ \<Rightarrow> M' = M
      | Inr Added \<Rightarrow> c_id c \<notin> c_id ` set_mset M \<and> M' = add_mset c M
      | Inr Updated \<Rightarrow>
          \<exists>e. e \<in># M \<and> c_id e = c_id c \<and>
            (if update_refused e c then M' = M
             else add_mset e M' = add_mset (update_existing e c) M)
      | Inr (Replaced old) \<Rightarrow>
          c_id c \<notin> c_id ` set_mset M \<and> old \<in># M \<and> is_weak_for_replacement old now
          \<and> local_quality_score old now + KAD_LOCAL_QUALITY_REPLACEMENT_MARGIN \<le> local_quality_score c now
          \<and> add_mset old M' = add_mset c M)"

lemma add_effect_frame:
  assumes "add_effect now c res M M'" "c_id c \<notin> c_id ` set_mset N"
  shows "add_effect now c res (M + N) (M' + N)"
proof (cases "res = Inr Updated")
  case True
  with assms(1) obtain e where "e \<in># M" "c_id e = c_id c"
    "if update_refused e c then M' = M else add_mset e M' = add_mset (update_existing e c) M"
    by (auto simp: add_effect_def)
  then have "e \<in># M + N" "c_id e = c_id c"
    "if update_refused e c then M' + N = M + N
     else add_mset e (M' + N) = add_mset (update_existing e c) (M + N)"
    by (auto simp flip: union_mset_add_mset_left)
  with True show ?thesis unfolding add_effect_def by auto
next
  case False
  with assms show ?thesis
    by (auto simp: add_effect_def split: sum.splits add_outcome.splits simp flip: union_mset_add_mset_left)
qed

lemma add_effect_ids:
  assumes "add_effect now c res M M'" and "x \<in># M'"
  shows "c_id x \<in> insert (c_id c) (c_id ` set_mset M)"
proof -
  have "x \<in># add_mset y M" if "add_mset e M' = add_mset y M" for e y
    using assms(2) that by (metis set_mset_add_mset_insert insertI2)
  with assms show ?thesis
    by (fastforce simp: add_effect_def split: sum.splits add_outcome.splits if_splits)
qed

lemma leaf_try_add_effect:
  "bin_try_add bin c = Inr (True, bin') \<Longrightarrow>
     add_effect now c (Inr Added) (mset (contacts bin)) (mset (contacts bin'))"
  using bin_try_add_added(2) by (simp add: add_effect_def mset_try_add_added)

lemma leaf_try_update_effect:
  assumes "bin_try_add bin c = Inr (False, bin')"
  shows "add_effect now c (Inr Updated) (mset (contacts bin)) (mset (contacts bin'))"
  using assms by (rule mset_try_add_updated) (auto simp: add_effect_def)

lemma leaf_replace_effect:
  assumes "replace_weak_contact_at bin c now = (Some old, bin')" "bin_try_add bin c = Inl (TableFull n)"
  shows "add_effect now c (Inr (Replaced old)) (mset (contacts bin)) (mset (contacts bin'))"
  using assms(1)
proof (rule replace_weak_Some)
  qed (use bin_try_add_full [OF assms(2)] mset_replace_weak [OF assms(1)] in \<open>auto simp: add_effect_def\<close>)

definition add_ok :: "node_id \<Rightarrow> system_time \<Rightarrow> contact \<Rightarrow> routing_error + add_outcome \<Rightarrow> routing_zone \<Rightarrow> routing_zone \<Rightarrow> bool" where
  "add_ok own now c res z z' \<longleftrightarrow>
     zone_wf own z' \<and> zone_depth z' = zone_depth z \<and> zone_index z' = zone_index z
     \<and> add_effect now c res (zone_items z) (zone_items z') \<and> (\<forall>n. res \<noteq> Inl (TableFull n))"

lemma leaf_add_ok:
  assumes inv: "zone_wf own (ZLeaf d i t bin)" and add: "zone_add own now tc ms c (ZLeaf d i t bin) = (res, z')"
    and no_split: "\<And>n u. bin_try_add bin c = Inl (TableFull n) \<Longrightarrow> can_split d i tc ms \<noteq> Inr u"
  shows "add_ok own now c res (ZLeaf d i t bin) z'"
proof (cases "bin_try_add bin c")
  case (Inr r)
  then obtain fresh bin' where r: "bin_try_add bin c = Inr (fresh, bin')" by (cases r) simp
  show ?thesis
    using add r inv bin_try_add_inv [OF _ r] leaf_try_add_effect [of bin c bin' now]
      leaf_try_update_effect [of bin c bin' now]
    by (cases fresh) (auto simp: add_ok_def)
next
  case (Inl e)
  show ?thesis
  proof (cases "\<exists>n. e = TableFull n")
    case False
    then have "res = Inl e \<and> z' = ZLeaf d i t bin"
      using add Inl by (cases e) auto
    with inv False show ?thesis by (auto simp: add_effect_def add_ok_def)
  next
    case True
    then obtain n where full: "bin_try_add bin c = Inl (TableFull n)" using Inl by blast
    with no_split obtain reason where reason: "can_split d i tc ms = Inl reason"
      by (cases "can_split d i tc ms") auto
    obtain ev bin' where rep: "replace_weak_contact_at bin c now = (ev, bin')" by fastforce
    have "bin_inv bin'"
      using replace_weak_inv [OF _ full, of now] inv rep by simp
    with add full reason rep inv show ?thesis
      using leaf_replace_effect [OF _ full, of now _ bin'] replace_weak_None [of bin c now bin']
      by (cases ev) (auto simp: add_effect_def add_ok_def)
  qed
qed

lemma split_wf:
  assumes "zone_wf own (ZLeaf d i t bin)" and "can_split d i tc ms = Inr u"
  shows "fst (zone_split own d i t bin) = Inr ()" and "zone_wf own (snd (zone_split own d i t bin))"
    and "zone_items (snd (zone_split own d i t bin)) = mset (contacts bin)"
    and "zone_depth (snd (zone_split own d i t bin)) = d" and "zone_index (snd (zone_split own d i t bin)) = i"
proof -
  have bin: "bin_inv bin" "d < 127" "i \<le> KK"
    using assms by (auto simp: can_split_def split: if_splits)
  with bin_inv_filter [of "contacts bin"]
  show "fst (zone_split own d i t bin) = Inr ()" "zone_wf own (snd (zone_split own d i t bin))"
    "zone_items (snd (zone_split own d i t bin)) = mset (contacts bin)"
    "zone_depth (snd (zone_split own d i t bin)) = d" "zone_index (snd (zone_split own d i t bin)) = i"
    by (simp_all add: zone_split_eq list_all_iff)
qed

lemma other_side:
  "list_all (\<lambda>x. branch_is_right (c_id x) own d \<noteq> branch_is_right (c_id c) own d) cs \<Longrightarrow>
     c_id c \<notin> c_id ` set_mset (mset cs)"
  by (auto simp: list_all_iff image_iff)

lemma same_side:
  assumes "add_effect now c res (mset cs) (mset cs')"
    "list_all (\<lambda>x. branch_is_right (c_id x) own d = branch_is_right (c_id c) own d) cs"
  shows "list_all (\<lambda>x. branch_is_right (c_id x) own d = branch_is_right (c_id c) own d) cs'"
  using assms(2) add_effect_ids [OF assms(1)] by (fastforce simp: list_all_iff)

lemma branch_add_ok:
  assumes "zone_wf own (ZBranch d i t l r)"
  shows "branch_is_right (c_id c) own d \<Longrightarrow> add_ok own now c res r r' \<Longrightarrow>
      add_ok own now c res (ZBranch d i t l r) (ZBranch d i t l r')"
    and "\<not> branch_is_right (c_id c) own d \<Longrightarrow> add_ok own now c res l l' \<Longrightarrow>
      add_ok own now c res (ZBranch d i t l r) (ZBranch d i t l' r)"
  using assms other_side [of own d c "zone_contacts l"] other_side [of own d c "zone_contacts r"]
    same_side [of now c res "zone_contacts r" "zone_contacts r'" own d]
    same_side [of now c res "zone_contacts l" "zone_contacts l'" own d]
    add_effect_frame [of now c res "zone_items r" "zone_items r'" "zone_items l"]
    add_effect_frame [of now c res "zone_items l" "zone_items l'" "zone_items r"]
  by (simp_all add: add_ok_def union_commute)

lemma zone_add_ok:
  "zone_wf own z \<Longrightarrow> zone_add own now tc ms c z = (res, z') \<Longrightarrow> add_ok own now c res z z'"
proof (induction own now tc ms c z arbitrary: res z' rule: zone_add.induct)
  case (1 own now tc ms c d i t bin)
  show ?case
  proof (cases "\<exists>n u. bin_try_add bin c = Inl (TableFull n) \<and> can_split d i tc ms = Inr u")
    case False
    with 1(2,3) show ?thesis by (intro leaf_add_ok) auto
  next
    case True
    then obtain n u where full: "bin_try_add bin c = Inl (TableFull n)" and split: "can_split d i tc ms = Inr u"
      by blast
    note facts = split_wf [OF 1(2) split]
    have "zone_add own now tc ms c (snd (zone_split own d i t bin)) = (res, z')"
      using 1(3) full split facts(1) by (simp add: case_prod_beta)
    with 1(1) [OF full refl split prod.collapse facts(1)] facts
    show ?thesis by (simp add: add_ok_def)
  qed
next
  case (2 own now tc ms c d i t l r)
  then show ?case
    by (auto split: if_splits prod.splits intro!: branch_add_ok)
qed

section \<open>Lookup, removal and mutation\<close>

lemma zone_unique_ids: "zone_wf own z \<Longrightarrow> size (with_id nid (zone_items z)) \<le> 1"
proof (induction z)
  case (ZLeaf d i t bin)
  then show ?case using bin_store.unique_ids [of bin nid] by simp
next
  case (ZBranch d i t l r)
  have "with_id nid (zone_items l) = {#} \<or> with_id nid (zone_items r) = {#}"
    using ZBranch.prems by (auto simp: with_id_empty_iff list_all_iff)
  with ZBranch show ?case by auto
qed

lemma zone_get_Some:
  "zone_wf own z \<Longrightarrow> zone_get own z nid = Some c \<longleftrightarrow> c \<in> set (zone_contacts z) \<and> c_id c = nid"
  by (induction z) (auto simp: find_unique bin_invD list_all_iff)

lemma zone_remove_found:
  "zone_wf own z \<Longrightarrow> zone_get own z nid = Some c \<Longrightarrow>
     \<exists>z'. zone_remove own z nid = (Some c, z') \<and> zone_wf own z' \<and> zone_items z = add_mset c (zone_items z')
       \<and> zone_depth z' = zone_depth z \<and> zone_index z' = zone_index z"
proof (induction z)
  case (ZLeaf d i t bin)
  then obtain bin' where "bin_remove bin nid = (Some c, bin')" "bin_inv bin'"
    "mset (contacts bin) = add_mset c (mset (contacts bin'))"
    using bin_store.delete_found [of bin nid c] by auto
  with ZLeaf show ?case by simp
next
  case (ZBranch d i t l r)
  have shrink: "list_all P (zone_contacts z')" if "zone_items z = add_mset c (zone_items z')"
    "list_all P (zone_contacts z)" for P z z'
    using that by (metis list_all_iff set_mset_mset set_mset_add_mset_insert insertI2)
  show ?case
  proof (cases "branch_is_right nid own d")
    case True
    with ZBranch obtain r' where r': "zone_remove own r nid = (Some c, r')" "zone_wf own r'"
      "zone_items r = add_mset c (zone_items r')" "zone_depth r' = zone_depth r" "zone_index r' = zone_index r"
      by auto
    with True ZBranch.prems(1) shrink [OF r'(3)] show ?thesis by simp
  next
    case False
    with ZBranch obtain l' where l': "zone_remove own l nid = (Some c, l')" "zone_wf own l'"
      "zone_items l = add_mset c (zone_items l')" "zone_depth l' = zone_depth l" "zone_index l' = zone_index l"
      by auto
    with False ZBranch.prems(1) shrink [OF l'(3)] show ?thesis by simp
  qed
qed

lemma zone_remove_missing: "zone_wf own z \<Longrightarrow> zone_get own z nid = None \<Longrightarrow> zone_remove own z nid = (None, z)"
  by (induction z) (auto simp: bin_store.delete_missing)

lemma zone_get_mut_found:
  assumes f: "\<And>x. c_id (f x) = c_id x \<and> c_ip (f x) = c_ip x"
  shows "zone_wf own z \<Longrightarrow> zone_get own z nid = Some c \<Longrightarrow>
     \<exists>z'. zone_get_mut own z nid f = (Some c, z') \<and> zone_wf own z'
       \<and> add_mset c (zone_items z') = add_mset (f c) (zone_items z)
       \<and> zone_depth z' = zone_depth z \<and> zone_index z' = zone_index z"
proof (induction z)
  case (ZLeaf d i t bin)
  then obtain bin' where "bin_get_mut bin nid f = (Some c, bin')" "bin_inv bin'"
    "add_mset c (mset (contacts bin')) = add_mset (f c) (mset (contacts bin))"
    using bin_store.modify_found [of bin nid c f] f by auto
  with ZLeaf show ?case by simp
next
  case (ZBranch d i t l r)
  have keep: "list_all (\<lambda>x. P (c_id x)) (zone_contacts z')"
    if eq: "add_mset c (zone_items z') = add_mset (f c) (zone_items z)" and "c \<in> set (zone_contacts z)"
      "list_all (\<lambda>x. P (c_id x)) (zone_contacts z)" for P z z'
  proof -
    have "set_mset (zone_items z') \<subseteq> insert (f c) (set_mset (zone_items z))"
      using arg_cong [OF eq, of set_mset] by auto
    with that(2,3) f [of c] show ?thesis by (fastforce simp: list_all_iff)
  qed
  have c: "c \<in> set (zone_contacts (if branch_is_right nid own d then r else l))"
    using ZBranch.prems by (auto simp: zone_get_Some)
  show ?case
  proof (cases "branch_is_right nid own d")
    case True
    with ZBranch obtain r' where r': "zone_get_mut own r nid f = (Some c, r')" "zone_wf own r'"
      "add_mset c (zone_items r') = add_mset (f c) (zone_items r)" "zone_depth r' = zone_depth r"
      "zone_index r' = zone_index r"
      by auto
    with True ZBranch.prems(1) c keep [OF r'(3), of "\<lambda>i. branch_is_right i own d"] show ?thesis
      by (simp flip: union_mset_add_mset_right)
  next
    case False
    with ZBranch obtain l' where l': "zone_get_mut own l nid f = (Some c, l')" "zone_wf own l'"
      "add_mset c (zone_items l') = add_mset (f c) (zone_items l)" "zone_depth l' = zone_depth l"
      "zone_index l' = zone_index l"
      by auto
    with False ZBranch.prems(1) c keep [OF l'(3), of "\<lambda>i. \<not> branch_is_right i own d"] show ?thesis
      by (simp flip: union_mset_add_mset_left)
  qed
qed

lemma zone_get_mut_missing:
  "zone_wf own z \<Longrightarrow> zone_get own z nid = None \<Longrightarrow> zone_get_mut own z nid f = (None, z)"
  by (induction z) (auto simp: bin_store.modify_missing)

interpretation zone_store: contact_store zone_items "zone_wf own" "zone_get own" "zone_remove own" "zone_get_mut own"
  for own
proof
  fix z nid c and f :: "contact \<Rightarrow> contact"
  show "zone_wf own z \<Longrightarrow> size (with_id nid (zone_items z)) \<le> 1"
    by (rule zone_unique_ids)
  show "zone_wf own z \<Longrightarrow> (zone_get own z nid = Some c) = (c \<in># zone_items z \<and> c_id c = nid)"
    by (simp add: zone_get_Some)
  show "zone_wf own z \<Longrightarrow> zone_get own z nid = Some c \<Longrightarrow>
      \<exists>s'. zone_remove own z nid = (Some c, s') \<and> zone_wf own s' \<and> zone_items z = add_mset c (zone_items s')"
    using zone_remove_found by blast
  show "zone_wf own z \<Longrightarrow> zone_get own z nid = None \<Longrightarrow> zone_remove own z nid = (None, z)"
    by (rule zone_remove_missing)
  show "zone_wf own z \<Longrightarrow> zone_get own z nid = Some c \<Longrightarrow>
      (\<And>x. c_id (f x) = c_id x \<and> c_ip (f x) = c_ip x) \<Longrightarrow>
      \<exists>s'. zone_get_mut own z nid f = (Some c, s') \<and> zone_wf own s' \<and>
        add_mset c (zone_items s') = add_mset (f c) (zone_items z)"
    using zone_get_mut_found [of f own z nid c] by blast
  show "zone_wf own z \<Longrightarrow> zone_get own z nid = None \<Longrightarrow> zone_get_mut own z nid f = (None, z)"
    by (rule zone_get_mut_missing)
qed

section \<open>Collection\<close>

lemma zone_get_closest_all:
  "length result + length (zone_contacts z) < n \<Longrightarrow>
     mset (zone_get_closest target own n z result) = mset result + zone_items z"
proof (induction z arbitrary: result)
  case (ZBranch d i t l r)
  have len: "length (zone_get_closest target own n z res) = length res + length (zone_contacts z)"
    if "mset (zone_get_closest target own n z res) = mset res + zone_items z" for z res
    using arg_cong [OF that, of size] by simp
  show ?case
    using ZBranch.prems ZBranch.IH len by (simp add: Let_def)
qed simp

lemma zone_get_closest_max_type_all:
  "length result + length (zone_contacts z) < n \<Longrightarrow>
     mset (zone_get_closest_max_type now target own n max_type z result) =
       mset result + filter_mset (\<lambda>c. oracle_type_at c now \<le> max_type \<and> c_verified c) (zone_items z)"
proof (induction z arbitrary: result)
  case (ZBranch d i t l r)
  have len: "length (zone_get_closest_max_type now target own n max_type z res) \<le> length res + length (zone_contacts z)"
    if "mset (zone_get_closest_max_type now target own n max_type z res) =
      mset res + filter_mset (\<lambda>c. oracle_type_at c now \<le> max_type \<and> c_verified c) (zone_items z)" for z res
    using arg_cong [OF that, of size] size_filter_mset_lesseq [of _ "zone_items z"] by simp
  have r: "length (zone_get_closest_max_type now target own n max_type r result) + length (zone_contacts l) < n"
    using ZBranch.IH(2) [of result] len [of r result] ZBranch.prems by simp
  have l: "length (zone_get_closest_max_type now target own n max_type l result) + length (zone_contacts r) < n"
    using ZBranch.IH(1) [of result] len [of l result] ZBranch.prems by simp
  show ?case
    using ZBranch.prems ZBranch.IH(1) [OF r] ZBranch.IH(2) [OF l] ZBranch.IH [of result] l r
    by (simp add: Let_def add_lessD1)
qed simp

lemma top_depth_contacts_subset:
  "set (fst (top_depth_contacts rng z depth s result)) \<subseteq> set result \<union> set (zone_contacts z)"
proof (induction z arbitrary: depth s result)
  case (ZLeaf d i t bin)
  then show ?case by simp
next
  case (ZBranch d i t l r)
  show ?case
  proof (cases "depth \<le> 0")
    case True
    obtain b s1 where "rng s = (b, s1)" by fastforce
    with True ZBranch.IH(1) [of depth s1 result] ZBranch.IH(2) [of depth s1 result] show ?thesis
      by (cases b) auto
  next
    case False
    obtain res1 s1 where l: "top_depth_contacts rng l (depth - 1) s result = (res1, s1)" by fastforce
    with False ZBranch.IH(1) [of "depth - 1" s result] ZBranch.IH(2) [of "depth - 1" s1 res1] show ?thesis
      by auto
  qed
qed

section \<open>Timers and consolidation\<close>

lemma small_timer_sweep_spec:
  "zone_wf own z \<Longrightarrow> small_timer_sweep now z outcome = (outcome', z') \<Longrightarrow>
     zone_wf own z' \<and> zone_depth z' = zone_depth z \<and> zone_index z' = zone_index z
     \<and> zone_contacts z' = map (seed_expiry now) (filter (\<lambda>c. \<not> dead_and_expired now c) (zone_contacts z))
     \<and> removed outcome' = removed outcome @ map c_id (filter (dead_and_expired now) (zone_contacts z))"
proof (induction z arbitrary: outcome outcome' z')
  case (ZLeaf d i t bin)
  obtain gone probe bin' where sweep: "small_timer_for_bin bin now = ((gone, probe), bin')"
    by (metis prod.collapse)
  have gone: "gone = map c_id (filter (dead_and_expired now) (contacts bin))"
    using sweep by (simp add: small_timer_for_bin_def Let_def)
  from ZLeaf sweep show ?case
    using small_timer_inv [of bin now] small_timer_contacts [of bin now] bin_invD(2) [of bin] gone
    by (cases probe) auto
next
  case (ZBranch d i t l r)
  obtain o1 l' where l: "small_timer_sweep now l outcome = (o1, l')" by fastforce
  obtain o2 r' where r: "small_timer_sweep now r o1 = (o2, r')" by fastforce
  show ?case
    using ZBranch.prems ZBranch.IH(1) [OF _ l] ZBranch.IH(2) [OF _ r] l r
    by (auto simp: list_all_iff)
qed

lemma zone_take_due_spec:
  "zone_wf own z \<Longrightarrow> zone_take_due rng own' now rearm z s = (res, z', s') \<Longrightarrow>
     zone_wf own z' \<and> zone_depth z' = zone_depth z \<and> zone_index z' = zone_index z
     \<and> zone_contacts z' = zone_contacts z"
proof (induction z arbitrary: res z' s s')
  case (ZLeaf d i t bin)
  then show ?case by (auto simp: Let_def split: if_splits prod.splits)
next
  case (ZBranch d i t l r)
  obtain res1 l' s1 where l: "zone_take_due rng own' now rearm l s = (res1, l', s1)" by (metis prod_cases3)
  obtain res2 r' s2 where r: "zone_take_due rng own' now rearm r s1 = (res2, r', s2)" by (metis prod_cases3)
  show ?case
    using ZBranch.prems ZBranch.IH(1) [OF _ l] ZBranch.IH(2) [OF _ r] l r
    by (cases res1) auto
qed

lemma merge_bins_spec:
  "bin_inv merged \<Longrightarrow> distinct (map c_id (contacts merged @ cs)) \<Longrightarrow>
   merge_bins cs merged dropped = (merged', dropped') \<Longrightarrow>
     bin_inv merged' \<and> (\<exists>ds. dropped' = dropped @ ds
       \<and> mset (contacts merged) + mset cs = mset (contacts merged') + mset ds)"
proof (induction cs arbitrary: merged dropped)
  case Nil
  then show ?case by simp
next
  case (Cons c cs)
  show ?case
  proof (cases "bin_try_add merged c")
    case (Inl e)
    then have "merge_bins cs merged (dropped @ [c]) = (merged', dropped')"
      using Cons.prems(3) by simp
    from Cons.IH [OF Cons.prems(1) _ this] Cons.prems(2) obtain ds where
      "bin_inv merged'" "dropped' = (dropped @ [c]) @ ds"
      "mset (contacts merged) + mset cs = mset (contacts merged') + mset ds"
      by auto
    then show ?thesis by (intro conjI exI [of _ "c # ds"]) simp_all
  next
    case (Inr x)
    obtain fresh m1 where m1: "bin_try_add merged c = Inr (fresh, m1)" using Inr by (cases x) simp
    have fresh
    proof (rule ccontr)
      assume "\<not> fresh"
      with m1 have "bin_try_add merged c = Inr (False, m1)" by simp
      then obtain e where "e \<in># mset (contacts merged)" "c_id e = c_id c"
        by (rule mset_try_add_updated)
      with Cons.prems(2) show False by (auto simp: image_iff)
    qed
    with m1 have eq: "contacts m1 = contacts merged @ [c]" by (simp add: bin_try_add_added(1))
    have "merge_bins cs m1 dropped = (merged', dropped')"
      using Cons.prems(3) m1 by simp
    from Cons.IH [OF bin_try_add_inv [OF Cons.prems(1) m1] _ this] Cons.prems(2) eq obtain ds where
      "bin_inv merged'" "dropped' = dropped @ ds"
      "mset (contacts m1) + mset cs = mset (contacts merged') + mset ds"
      by auto
    with eq show ?thesis by auto
  qed
qed

lemma zone_ids_distinct: "zone_wf own z \<Longrightarrow> distinct (map c_id (zone_contacts z))"
proof (induction z)
  case (ZBranch d i t l r)
  then have "c_id x \<noteq> c_id y" if "x \<in> set (zone_contacts l)" "y \<in> set (zone_contacts r)" for x y
    using that by (auto simp: list_all_iff)
  with ZBranch show ?case by (auto 0 3)
qed (simp add: bin_invD)

lemma consolidate_leaf: "(if is_leaf z then (0, dropped, z) else zone_consolidate z dropped) = zone_consolidate z dropped"
  by (cases z) simp_all

lemma leaf_contacts_zone: "is_leaf z \<Longrightarrow> leaf_contacts z = zone_contacts z"
  by (cases z) simp_all

lemma list_all_shrunk: "mset xs = mset ys + M \<Longrightarrow> list_all P xs \<Longrightarrow> list_all P ys"
  by (metis list_all_iff set_mset_mset set_mset_union UnI1)

definition consolidated :: "node_id \<Rightarrow> routing_zone \<Rightarrow> contact list \<Rightarrow> contact list \<Rightarrow> routing_zone \<Rightarrow> bool" where
  "consolidated own z dropped dropped' z' \<longleftrightarrow>
     zone_wf own z' \<and> zone_depth z' = zone_depth z \<and> zone_index z' = zone_index z
     \<and> (\<exists>ds. dropped' = dropped @ ds \<and> zone_items z = zone_items z' + mset ds)"

lemma consolidated_branch:
  assumes "zone_wf own (ZBranch d i t l r)" "consolidated own l dr dr1 l'" "consolidated own r dr1 dr2 r'"
  shows "consolidated own (ZBranch d i t l r) dr dr2 (ZBranch d i t l' r')"
proof -
  from assms obtain ds es where
    l: "zone_wf own l'" "zone_depth l' = zone_depth l" "zone_index l' = zone_index l"
      "dr1 = dr @ ds" "zone_items l = zone_items l' + mset ds"
    and r: "zone_wf own r'" "zone_depth r' = zone_depth r" "zone_index r' = zone_index r"
      "dr2 = dr1 @ es" "zone_items r = zone_items r' + mset es"
    by (auto simp: consolidated_def)
  with assms(1) list_all_shrunk [OF l(5)] list_all_shrunk [OF r(5)] show ?thesis
    by (auto simp: consolidated_def intro!: exI [of _ "ds @ es"])
qed

lemma consolidated_merge:
  assumes "zone_wf own (ZBranch d i t l r)" "is_leaf l" "is_leaf r"
    "merge_bins (leaf_contacts l @ leaf_contacts r) bin_new dr = (merged, dr')"
  shows "consolidated own (ZBranch d i t l r) dr dr' (ZLeaf d i t merged)"
proof -
  have "distinct (map c_id (contacts bin_new @ leaf_contacts l @ leaf_contacts r))"
    using zone_ids_distinct [OF assms(1)] assms(2,3) by (simp add: leaf_contacts_zone bin_new_def)
  from merge_bins_spec [OF bin_inv_new this assms(4)] obtain ds where
    "bin_inv merged" "dr' = dr @ ds" "mset (leaf_contacts l @ leaf_contacts r) = mset (contacts merged) + mset ds"
    by (auto simp: bin_new_def)
  with assms(1-3) show ?thesis
    by (auto simp: consolidated_def leaf_contacts_zone)
qed

lemma consolidated_trans:
  "consolidated own z dr dr1 z1 \<Longrightarrow> consolidated own z1 dr1 dr2 z2 \<Longrightarrow> consolidated own z dr dr2 z2"
  by (fastforce simp: consolidated_def)

lemma zone_consolidate_spec:
  "zone_wf own z \<Longrightarrow> zone_consolidate z dr = (m, dr', z') \<Longrightarrow> consolidated own z dr dr' z'"
proof (induction z arbitrary: dr m dr' z')
  case (ZLeaf d i t bin)
  then show ?case by (auto simp: consolidated_def)
next
  case (ZBranch d i t l r)
  obtain m1 dr1 l' where l: "zone_consolidate l dr = (m1, dr1, l')" by (metis prod_cases3)
  obtain m2 dr2 r' where r: "zone_consolidate r dr1 = (m2, dr2, r')" by (metis prod_cases3)
  have branch: "consolidated own (ZBranch d i t l r) dr dr2 (ZBranch d i t l' r')"
    using ZBranch.prems(1) ZBranch.IH(1) [OF _ l] ZBranch.IH(2) [OF _ r] by (intro consolidated_branch) auto
  show ?case
  proof (cases "is_leaf l' \<and> is_leaf r' \<and> zone_count l' + zone_count r' < K div 2")
    case False
    with ZBranch.prems(2) l r branch show ?thesis
      by (auto simp: consolidate_leaf Let_def)
  next
    case True
    obtain merged dr3 where m: "merge_bins (leaf_contacts l' @ leaf_contacts r') bin_new dr2 = (merged, dr3)"
      by fastforce
    with True ZBranch.prems(2) l r have "dr' = dr3" "z' = ZLeaf d i t merged"
      by (auto simp: consolidate_leaf Let_def)
    moreover have "zone_wf own (ZBranch d i t l' r')"
      using branch unfolding consolidated_def by blast
    ultimately show ?thesis
      using consolidated_trans [OF branch consolidated_merge [OF _ _ _ m]] True by blast
  qed
qed

section \<open>Zone indices along a path\<close>

definition path_value :: "bool list \<Rightarrow> nat" where
  "path_value path = foldl (\<lambda>v b. 2 * v + of_bool b) 0 path"

definition path_index :: "bool list \<Rightarrow> nat" where
  "path_index path = foldl child_zone_index 0 path"

lemma path_index_exact: "path_value path \<le> KK \<Longrightarrow> path_index path = path_value path"
proof (induction path rule: rev_induct)
  case (snoc b path)
  then show ?case
    by (auto simp: path_value_def path_index_def child_zone_index_def KK_def)
qed (simp add: path_value_def path_index_def)

lemma bit_path_value:
  "k < length path \<Longrightarrow> bit (path_value path) (length path - 1 - k) = path ! k"
proof (induction path arbitrary: k rule: rev_induct)
  case (snoc b path)
  have step: "path_value (path @ [b]) = 2 * path_value path + of_bool b"
    by (simp add: path_value_def)
  show ?case
  proof (cases "k = length path")
    case True
    then show ?thesis by (simp add: step bit_0)
  next
    case False
    with snoc.prems have "k < length path" by simp
    then obtain m where m: "length path = Suc (k + m)" by (metis add_Suc_right less_imp_Suc_add)
    then have "bit (path_value (path @ [b])) (length (path @ [b]) - 1 - k) = bit (path_value path) m"
      by (simp add: step bit_Suc)
    also have "\<dots> = path ! k" using snoc.IH [OF \<open>k < length path\<close>] m by simp
    finally show ?thesis using \<open>k < length path\<close> by (simp add: nth_append)
  qed
qed simp

lemma bit_word_path_value:
  assumes "k < length path" "length path \<le> 64"
  shows "bit (word_of_nat (path_value path) :: u64) (length path - 1 - k) = path ! k"
proof -
  have "length path - 1 - k < 64" using assms by linarith
  with bit_path_value [OF assms(1)] show ?thesis by (simp add: bit_of_nat_iff)
qed

lemma example_leaf_wf: "zone_wf id_ZERO (ZLeaf 0 0 None \<lparr>contacts = [example_contact 1]\<rparr>)"
  by (auto intro!: bin_invI simp: K_def MAX_PER_BIN_SUBNET24_def)

section \<open>Properties\<close>

text \<open>C10: Inserting into a well-formed zone tree is an update of the finite map from identifiers to
  contacts: a new identifier is bound, a known one keeps its contact when the sighting fails the
  anti-spoofing check and gets the refreshed contact otherwise, a replacement unbinds the evicted
  contact and binds the newcomer, and a rejection changes nothing. The tree stays well-formed: every
  contact lies in the leaf its distance bits lead to, in a bin that satisfies the bin invariant.\<close>

theorem zone_add_refines_map:
  assumes "zone_wf own z" and "zone_add own now total_contacts max_table_size c z = (res, z')"
  shows "zone_wf own z' \<and>
    (case res of
       Inl e \<Rightarrow> zone_get own z' = zone_get own z \<and> (\<forall>n. e \<noteq> TableFull n)
     | Inr Added \<Rightarrow> zone_get own z (c_id c) = None \<and> zone_get own z' = (zone_get own z)(c_id c \<mapsto> c)
     | Inr Updated \<Rightarrow>
         \<exists>e. zone_get own z (c_id c) = Some e \<and>
           zone_get own z' = (zone_get own z)(c_id c \<mapsto> if update_refused e c then e else update_existing e c)
     | Inr (Replaced old) \<Rightarrow>
         zone_get own z (c_id c) = None \<and> zone_get own z (c_id old) = Some old \<and>
         zone_get own z' = (zone_get own z)(c_id old := None, c_id c \<mapsto> c))"
proof -
  have ok: "add_ok own now c res z z'" using assms by (rule zone_add_ok)
  then have wf: "zone_wf own z'" and eff: "add_effect now c res (zone_items z) (zone_items z')"
    by (simp_all add: add_ok_def)
  note same = zone_store.lookup_same [OF assms(1) wf]
  show ?thesis
  proof (cases res)
    case (Inl e)
    with eff ok same show ?thesis by (auto simp: add_effect_def add_ok_def)
  next
    case (Inr outcome)
    show ?thesis
    proof (cases outcome)
      case Added
      with Inr eff wf zone_store.lookup_added [OF assms(1) wf, of c] zone_store.lookup_None [OF assms(1), of "c_id c"]
      show ?thesis by (simp add: add_effect_def)
    next
      case Updated
      with Inr eff obtain e where e: "e \<in># zone_items z" "c_id e = c_id c"
        "if update_refused e c then zone_items z' = zone_items z
         else add_mset e (zone_items z') = add_mset (update_existing e c) (zone_items z)"
        by (auto simp: add_effect_def)
      have get: "zone_get own z (c_id c) = Some e"
        using zone_store.lookup_Some [OF assms(1)] e(1,2) by simp
      moreover have "zone_get own z' = (zone_get own z)(c_id c \<mapsto> if update_refused e c then e else update_existing e c)"
        using e get same zone_store.lookup_exchanged [OF assms(1) wf e(1), of "update_existing e c"]
        by (auto split: if_splits)
      ultimately show ?thesis using Inr Updated wf by simp
    next
      case (Replaced old)
      with Inr eff wf zone_store.lookup_exchanged [OF assms(1) wf, of old c]
        zone_store.lookup_None [OF assms(1), of "c_id c"] zone_store.lookup_Some [OF assms(1), of "c_id old" old]
      show ?thesis by (simp add: add_effect_def)
    qed
  qed
qed

theorem zone_add_refines_map_witness:
  "\<exists>res z'. zone_add id_ZERO 0 0 12000 (example_contact 1) new_root = (res, z') \<and> zone_wf id_ZERO z'"
  using zone_add_refines_map [OF zone_wf_new_root, of id_ZERO 0 0 12000 "example_contact 1"]
  by (metis prod.collapse)

text \<open>C18: Removal and mutation through a reference act on a well-formed zone tree as deletion from and
  update of the finite map from identifiers to contacts, return the contact that was stored, and
  keep the tree well-formed.\<close>

theorem zone_remove_get_mut_refine_map:
  assumes "zone_wf own z"
  shows "zone_remove own z nid = (zone_get own z nid, snd (zone_remove own z nid))
    \<and> zone_wf own (snd (zone_remove own z nid))
    \<and> zone_get own (snd (zone_remove own z nid)) = (zone_get own z)(nid := None)
    \<and> (let f = (\<lambda>c. c\<lparr>c_verified := True\<rparr>); z' = snd (zone_get_mut own z nid f) in
         fst (zone_get_mut own z nid f) = zone_get own z nid \<and> zone_wf own z'
         \<and> zone_get own z' = (zone_get own z)(nid := map_option f (zone_get own z nid)))
    \<and> (let f = (\<lambda>c. snd (checking_type_at now c)); z' = snd (zone_get_mut own z nid f) in
         fst (zone_get_mut own z nid f) = zone_get own z nid \<and> zone_wf own z'
         \<and> zone_get own z' = (zone_get own z)(nid := map_option f (zone_get own z nid)))"
  using zone_store.delete_fst [OF assms] zone_store.delete_inv [OF assms] zone_store.delete_refines [OF assms]
    zone_store.modify_fst [OF assms] zone_store.modify_inv [OF assms] zone_store.modify_refines [OF assms]
  by (simp add: Let_def prod_eq_iff)

theorem zone_remove_get_mut_refine_map_witness:
  "zone_get id_ZERO (snd (zone_remove id_ZERO (ZLeaf 0 0 None \<lparr>contacts = [example_contact 1]\<rparr>) (c_id (example_contact 1))))
     (c_id (example_contact 1)) = None"
  using zone_remove_get_mut_refine_map [OF example_leaf_wf, of "c_id (example_contact 1)" 0] by simp

text \<open>Splitting a well-formed leaf never fails and never loses a contact: the leaf becomes a branch
  whose two leaves hold, in the old order, the contacts whose distance bit at this depth is clear and
  those whose bit is set, and the result is the one of the source's loop that inserts each contact
  into a child zone with \<^verbatim>\<open>add\<close>.\<close>

theorem split_partitions_leaf:
  assumes "zone_wf own (ZLeaf d i t bin)" and "d < 127"
  shows "\<exists>l r. zone_split own d i t bin = (Inr (), ZBranch d i t l r)
    \<and> redistribute_by_add own now d (contacts bin)
         (new_leaf (d + 1) (child_zone_index i False)) (new_leaf (d + 1) (child_zone_index i True)) = Inr (l, r)
    \<and> zone_contacts l = filter (\<lambda>c. \<not> node_bit (distance (c_id c) own) d) (contacts bin)
    \<and> zone_contacts r = filter (\<lambda>c. node_bit (distance (c_id c) own) d) (contacts bin)
    \<and> zone_wf own (ZBranch d i t l r)"
proof -
  have inv: "bin_inv bin" "i \<le> KK" using assms(1) by simp_all
  have "readd_all (contacts bin) bin_new = Inr bin"
    using readd_all_fits [of "[]" "contacts bin"] inv by (simp add: bin_new_def)
  from redistribute_is_add [OF this, of own now d] redistribute_drained [OF inv(1), of own d]
    zone_split_eq [OF inv(1), of own d i t] bin_inv_filter [of "contacts bin"] inv assms(2)
  show ?thesis
    by (simp add: branch_is_right_def list_all_iff)
qed

theorem split_partitions_leaf_witness:
  "\<exists>l r. zone_split id_ZERO 0 0 None \<lparr>contacts = [example_contact 1]\<rparr> = (Inr (), ZBranch 0 0 None l r)
     \<and> zone_wf id_ZERO (ZBranch 0 0 None l r)"
proof -
  have "(0 :: nat) < 127" by simp
  from split_partitions_leaf [OF example_leaf_wf this, of 0] show ?thesis by blast
qed

text \<open>Consolidation keeps the tree well-formed and accounts for every contact: what is no longer in
  the tree is in the list of dropped contacts, once.\<close>

theorem consolidate_accounts:
  assumes "zone_wf own z" and "zone_consolidate z [] = (merges, dropped, z')"
  shows "zone_wf own z' \<and> zone_depth z' = zone_depth z
    \<and> mset (zone_contacts z) = mset (zone_contacts z') + mset dropped
    \<and> zone_count z = zone_count z' + length dropped"
proof -
  have c: "consolidated own z [] dropped z'" using assms by (rule zone_consolidate_spec)
  then have items: "mset (zone_contacts z) = mset (zone_contacts z') + mset dropped"
    by (auto simp: consolidated_def)
  have "length (zone_contacts z) = length (zone_contacts z') + length dropped"
    using arg_cong [OF items, of size] unfolding size_union size_mset .
  with c items show ?thesis
    by (auto simp: consolidated_def zone_count_contacts)
qed

theorem consolidate_accounts_witness:
  "\<exists>m ds z'. zone_consolidate new_root [] = (m, ds, z') \<and> zone_count new_root = zone_count z' + length ds"
  using consolidate_accounts [OF zone_wf_new_root [of id_ZERO], of 0 "[]" new_root]
  by (auto simp: new_root_def new_leaf_def)

text \<open>C33: The random lookup of a leaf whose path from the root has a value of at most 5 and a length of
  at most 64 targets that leaf: the distance bits of the target are the branches of the path. For
  the leaf on the path right, right, left the zone index is capped, and the target is outside the
  leaf for every random source.\<close>

theorem random_lookup_zone:
  "(path_value path \<le> 5 \<longrightarrow> length path \<le> 64 \<longrightarrow>
      (\<forall>k < length path.
         branch_is_right (fst (random_target_in_zone rng own (length path) (path_index path) r)) own k = path ! k))
   \<and> (let off = [True, True, False] in
        \<not> branch_is_right (fst (random_target_in_zone rng own 3 (path_index off) r)) own 1)"
proof -
  have bits: "branch_is_right (fst (random_target_in_zone rng own d i r)) own k =
      bit (word_of_nat i :: u64) (d - 1 - k)" if "d \<le> 64" "k < d" for d i k
  proof -
    obtain target r' where t: "random_target_in_zone rng own d i r = (target, r')" by fastforce
    have "branch_is_right target own k = node_bit (distance own target) k"
      by (auto simp: branch_is_right_def node_bit_distance)
    with random_target_bits [OF that(1) t] that show ?thesis by (simp add: t)
  qed
  have "path_index [True, True, False] = 5"
    by (simp add: path_index_def child_zone_index_def KK_def)
  moreover have "\<not> bit (word_of_nat 5 :: u64) 1" by code_simp
  ultimately have "\<not> branch_is_right (fst (random_target_in_zone rng own 3 (path_index [True, True, False]) r)) own 1"
    using bits [of 3 1 5] by simp
  moreover have "branch_is_right (fst (random_target_in_zone rng own (length path) (path_index path) r)) own k = path ! k"
    if "path_value path \<le> 5" "length path \<le> 64" "k < length path" for k
    using bits [OF that(2,3)] path_index_exact [of path] bit_word_path_value [OF that(3,2)] that(1)
    by (simp add: KK_def)
  ultimately show ?thesis by simp
qed

theorem random_lookup_zone_witness:
  "branch_is_right (fst (random_target_in_zone (\<lambda>n. (word_of_nat n, Suc n)) id_ZERO 2 (path_index [True, False]) 1)) id_ZERO 0"
  using random_lookup_zone [of "[True, False]" "\<lambda>n. (word_of_nat n, Suc n)" id_ZERO 1]
  by (auto simp: path_value_def numeral_2_eq_2)

end
