(* ===== verification/Op_System.thy ===== *)
theory Op_System
  imports Prelude
begin

text \<open>
  Components whose callers issue operations in any order: a step function from operations and states
  to states, a condition under which an operation is issued, and an invariant that every such step
  keeps. The lemma proved here once lifts the invariant to every run.
\<close>

fun allowed_run :: "('s \<Rightarrow> 'op \<Rightarrow> bool) \<Rightarrow> ('op \<Rightarrow> 's \<Rightarrow> 's) \<Rightarrow> 's \<Rightarrow> 'op list \<Rightarrow> bool" where
  "allowed_run allowed step s [] \<longleftrightarrow> True"
| "allowed_run allowed step s (op # ops) \<longleftrightarrow> allowed s op \<and> allowed_run allowed step (step op s) ops"

locale op_system =
  fixes step :: "'op \<Rightarrow> 's \<Rightarrow> 's" and allowed :: "'s \<Rightarrow> 'op \<Rightarrow> bool" and inv :: "'s \<Rightarrow> bool"
  assumes step_keeps: "inv s \<Longrightarrow> allowed s op \<Longrightarrow> inv (step op s)"
begin

lemma run_keeps: "inv s \<Longrightarrow> allowed_run allowed step s ops \<Longrightarrow> inv (fold step ops s)"
  by (induction ops arbitrary: s) (auto intro: step_keeps)

end

text \<open>A quantity that grows by at most one per operation is bounded by the length of the run.\<close>

locale counted_op_system = op_system step allowed inv
  for step :: "'op \<Rightarrow> 's \<Rightarrow> 's" and allowed :: "'s \<Rightarrow> 'op \<Rightarrow> bool" and inv :: "'s \<Rightarrow> bool" +
  fixes count :: "'s \<Rightarrow> nat"
  assumes step_counts: "inv s \<Longrightarrow> allowed s op \<Longrightarrow> count (step op s) \<le> Suc (count s)"
begin

lemma run_counts:
  "inv s \<Longrightarrow> allowed_run allowed step s ops \<Longrightarrow> count (fold step ops s) \<le> count s + length ops"
proof (induction ops arbitrary: s)
  case (Cons op ops)
  then have "count (fold step ops (step op s)) \<le> count (step op s) + length ops"
    by (auto intro: step_keeps)
  with Cons.prems step_counts [of s op] show ?case by auto
qed simp

lemma short_runs_allowed:
  assumes "\<And>s op. count s < limit \<Longrightarrow> allowed s op"
  shows "inv s \<Longrightarrow> count s + length ops \<le> limit \<Longrightarrow> allowed_run allowed step s ops"
proof (induction ops arbitrary: s)
  case (Cons op ops)
  then have "allowed s op" by (intro assms) simp
  with Cons step_counts [of s op] step_keeps [of s op] show ?case by auto
qed simp

end

end
