(* ===== verification/Routing_Table.thy ===== *)
theory Routing_Table
  imports Routing_Zone Op_System
begin

text \<open>
  \<^verbatim>\<open>emulebb-kad-routing/src/table.rs\<close>: the routing table with its per-address and per-/24 counters.
  The two hash maps are partial functions from keys to counts. A clock read of an operation is its
  argument \<open>now\<close>; \<^verbatim>\<open>get_closest_max_type\<close> reads the clock once per contact in the source and once here.
\<close>

section \<open>Model\<close>

definition DEFAULT_MAX_SIZE :: nat where
  "DEFAULT_MAX_SIZE = 12000"

definition GLOBAL_MAX_PER_SUBNET24 :: nat where
  "GLOBAL_MAX_PER_SUBNET24 = 10"

definition USIZE_MAX :: nat where
  "USIZE_MAX = 18446744073709551615"

record routing_table =
  own_id :: node_id
  max_size :: nat
  root :: routing_zone
  ip_counts :: "ipv4 \<rightharpoonup> nat"
  subnet_counts :: "subnet \<rightharpoonup> nat"
  total_contacts :: nat

definition with_max_size :: "node_id \<Rightarrow> nat \<Rightarrow> routing_table" where
  "with_max_size own size_limit =
     \<lparr>own_id = own, max_size = size_limit, root = new_root, ip_counts = Map.empty,
      subnet_counts = Map.empty, total_contacts = 0\<rparr>"

definition table_new :: "node_id \<Rightarrow> routing_table" where
  "table_new own = with_max_size own DEFAULT_MAX_SIZE"

text \<open>\<^verbatim>\<open>*map.entry(k).or_insert(0) += 1\<close> and the matching decrement, which removes a count of one.\<close>

definition incr_count :: "('k \<rightharpoonup> nat) \<Rightarrow> 'k \<Rightarrow> ('k \<rightharpoonup> nat)" where
  "incr_count m k = m(k \<mapsto> (case m k of Some n \<Rightarrow> n | None \<Rightarrow> 0) + 1)"

definition decr_count :: "('k \<rightharpoonup> nat) \<Rightarrow> 'k \<Rightarrow> ('k \<rightharpoonup> nat)" where
  "decr_count m k =
     (case m k of
        Some cnt \<Rightarrow> if cnt > 1 then m(k \<mapsto> cnt - 1) else m(k := None)
      | None \<Rightarrow> m)"

definition release_ip_bookkeeping :: "routing_table \<Rightarrow> ipv4 \<Rightarrow> routing_table" where
  "release_ip_bookkeeping t ip =
     (let t = t\<lparr>ip_counts := decr_count (ip_counts t) ip\<rparr> in
      if \<not> is_lan ip then t\<lparr>subnet_counts := decr_count (subnet_counts t) (subnet24 ip)\<rparr> else t)"

definition account_ip :: "routing_table \<Rightarrow> ipv4 \<Rightarrow> routing_table" where
  "account_ip t ip =
     (let t = t\<lparr>ip_counts := incr_count (ip_counts t) ip\<rparr> in
      if \<not> is_lan ip then t\<lparr>subnet_counts := incr_count (subnet_counts t) (subnet24 ip)\<rparr> else t)"

definition table_get :: "routing_table \<Rightarrow> node_id \<Rightarrow> contact option" where
  "table_get t nid = zone_get (own_id t) (root t) nid"

definition add_contact :: "system_time \<Rightarrow> routing_table \<Rightarrow> contact \<Rightarrow> (routing_error + unit) \<times> routing_table" where
  "add_contact now t c =
     (let ip_count = (case ip_counts t (c_ip c) of Some n \<Rightarrow> n | None \<Rightarrow> 0);
          existing_ip = map_option c_ip (zone_get (own_id t) (root t) (c_id c))
      in
      if ip_count > 0 \<and> existing_ip \<noteq> Some (c_ip c) then (Inl (IpLimitExceeded (c_ip c)), t)
      else if \<not> is_lan (c_ip c)
           \<and> (case existing_ip of Some ip \<Rightarrow> ip \<noteq> c_ip c | None \<Rightarrow> True)
           \<and> (case subnet_counts t (subnet24 (c_ip c)) of Some n \<Rightarrow> n | None \<Rightarrow> 0) \<ge> GLOBAL_MAX_PER_SUBNET24
           then (Inl (SubnetLimitExceeded 24 Global), t)
      else
        (let old_ip = existing_ip;
             new_ip = c_ip c;
             (result, root') = zone_add (own_id t) now (total_contacts t) (max_size t) c (root t);
             t = t\<lparr>root := root'\<rparr>
         in case result of
              Inr Added \<Rightarrow> (Inr (), (account_ip t new_ip)\<lparr>total_contacts := total_contacts t + 1\<rparr>)
            | Inr (Replaced evicted) \<Rightarrow>
                (Inr (), account_ip (release_ip_bookkeeping t (c_ip evicted)) new_ip)
            | Inr Updated \<Rightarrow>
                (case old_ip of
                   Some old \<Rightarrow>
                     if old \<noteq> new_ip then (Inr (), account_ip (release_ip_bookkeeping t old) new_ip)
                     else (Inr (), t)
                 | None \<Rightarrow> (Inr (), t))
            | Inl e \<Rightarrow> (Inl e, t)))"

definition table_get_closest :: "routing_table \<Rightarrow> node_id \<Rightarrow> nat \<Rightarrow> contact list" where
  "table_get_closest t target n =
     take n (sort_key (\<lambda>c. distance (c_id c) target) (zone_get_closest target (own_id t) USIZE_MAX (root t) []))"

definition table_get_closest_max_type :: "system_time \<Rightarrow> routing_table \<Rightarrow> node_id \<Rightarrow> nat \<Rightarrow> nat \<Rightarrow> contact list" where
  "table_get_closest_max_type now t target n max_type =
     take n (sort_key (\<lambda>c. distance (c_id c) target)
       (zone_get_closest_max_type now target (own_id t) USIZE_MAX max_type (root t) []))"

text \<open>\<^verbatim>\<open>total_contacts -= 1\<close> panics below zero in a checked build and wraps otherwise; the invariant
  proved below excludes both, and the subtraction on naturals agrees with it there.\<close>

definition table_remove :: "routing_table \<Rightarrow> node_id \<Rightarrow> bool \<times> routing_table" where
  "table_remove t nid =
     (case zone_remove (own_id t) (root t) nid of
        (Some c, root') \<Rightarrow>
          (let t = release_ip_bookkeeping (t\<lparr>root := root'\<rparr>) (c_ip c)
           in (True, t\<lparr>total_contacts := total_contacts t - 1\<rparr>))
      | (None, root') \<Rightarrow> (False, t\<lparr>root := root'\<rparr>))"

definition table_len :: "routing_table \<Rightarrow> nat" where
  "table_len t = total_contacts t"

definition table_is_empty :: "routing_table \<Rightarrow> bool" where
  "table_is_empty t \<longleftrightarrow> total_contacts t = 0"

definition verify_contact :: "routing_table \<Rightarrow> node_id \<Rightarrow> ipv4 \<Rightarrow> bool \<times> routing_table" where
  "verify_contact t nid ip =
     (let (found, root') =
            zone_get_mut (own_id t) (root t) nid (\<lambda>c. if c_ip c = ip then c\<lparr>c_verified := True\<rparr> else c)
      in case found of
           Some c \<Rightarrow> if c_ip c = ip then (True, t\<lparr>root := root'\<rparr>) else (False, t\<lparr>root := root'\<rparr>)
         | None \<Rightarrow> (False, t\<lparr>root := root'\<rparr>))"

definition all_contacts :: "routing_table \<Rightarrow> contact list" where
  "all_contacts t = table_get_closest t (own_id t) (total_contacts t)"

definition bootstrap_contacts ::
    "('r \<Rightarrow> bool \<times> 'r) \<Rightarrow> routing_table \<Rightarrow> nat \<Rightarrow> 'r \<Rightarrow> contact list \<times> 'r" where
  "bootstrap_contacts rng t max_contacts s =
     (let (cs, s') = top_depth_contacts rng (root t) 5 s [] in (take max_contacts cs, s'))"

definition release_removed :: "(node_id \<rightharpoonup> ipv4) \<Rightarrow> node_id \<Rightarrow> routing_table \<Rightarrow> routing_table" where
  "release_removed removed_ips nid t =
     (case removed_ips nid of
        Some ip \<Rightarrow> (let t = release_ip_bookkeeping t ip in t\<lparr>total_contacts := total_contacts t - 1\<rparr>)
      | None \<Rightarrow> t)"

definition small_timer_maintenance :: "routing_table \<Rightarrow> system_time \<Rightarrow> small_timer_outcome \<times> routing_table" where
  "small_timer_maintenance t now =
     (let removed_ips = map_of (rev (map (\<lambda>c. (c_id c, c_ip c))
            (filter (\<lambda>c. is_dead c \<and> is_expired_at c now) (all_contacts t))));
          (outcome, root') = small_timer_sweep now (root t) \<lparr>removed = [], probes = []\<rparr>
      in (outcome, fold (release_removed removed_ips) (removed outcome) (t\<lparr>root := root'\<rparr>)))"

definition release_dropped :: "contact \<Rightarrow> routing_table \<Rightarrow> routing_table" where
  "release_dropped c t =
     (let t = release_ip_bookkeeping t (c_ip c) in t\<lparr>total_contacts := total_contacts t - 1\<rparr>)"

definition table_consolidate :: "routing_table \<Rightarrow> nat \<times> routing_table" where
  "table_consolidate t =
     (let (merges, dropped, root') = zone_consolidate (root t) []
      in (merges, fold release_dropped dropped (t\<lparr>root := root'\<rparr>)))"

definition take_due_random_lookup_target ::
    "('r \<Rightarrow> u8 \<times> 'r) \<Rightarrow> routing_table \<Rightarrow> system_time \<Rightarrow> 'r \<Rightarrow> node_id option \<times> routing_table \<times> 'r" where
  "take_due_random_lookup_target rng t now s =
     (let (res, root', s') = zone_take_due rng (own_id t) now (from_secs 3600) (root t) s
      in (res, t\<lparr>root := root'\<rparr>, s'))"

definition table_checking_type :: "system_time \<Rightarrow> routing_table \<Rightarrow> node_id \<Rightarrow> nat option \<times> routing_table" where
  "table_checking_type now t nid =
     (let (found, root') = zone_get_mut (own_id t) (root t) nid (\<lambda>c. snd (checking_type_at now c))
      in (map_option (\<lambda>c. fst (checking_type_at now c)) found, t\<lparr>root := root'\<rparr>))"

section \<open>Counters as tallies\<close>

definition tally :: "('a \<Rightarrow> 'k option) \<Rightarrow> 'a multiset \<Rightarrow> ('k \<rightharpoonup> nat)" where
  "tally key M k = (let n = size (filter_mset (\<lambda>x. key x = Some k) M) in if n = 0 then None else Some n)"

lemma tally_empty [simp]: "tally key {#} = Map.empty"
  by (simp add: tally_def fun_eq_iff)

lemma tally_add:
  "tally key (add_mset x M) = (case key x of None \<Rightarrow> tally key M | Some k \<Rightarrow> incr_count (tally key M) k)"
  by (auto simp: tally_def incr_count_def fun_eq_iff Let_def split: option.splits)

lemma decr_incr_count: "m k \<noteq> Some 0 \<Longrightarrow> decr_count (incr_count m k) k = m"
  by (auto simp: decr_count_def incr_count_def fun_eq_iff split: option.splits)

lemma tally_not_zero: "tally key M k \<noteq> Some 0"
  by (simp add: tally_def Let_def)

lemma tally_remove: "key x = Some k \<Longrightarrow> decr_count (tally key (add_mset x M)) k = tally key M"
  by (simp add: tally_add decr_incr_count tally_not_zero)

definition key_ip :: "contact \<Rightarrow> ipv4 option" where
  "key_ip c = Some (c_ip c)"

definition key_subnet :: "contact \<Rightarrow> subnet option" where
  "key_subnet c = (if is_lan (c_ip c) then None else Some (subnet24 (c_ip c)))"

lemma key_subnet_in: "key_subnet c = Some s \<longleftrightarrow> in_subnet s c"
  by (auto simp: key_subnet_def in_subnet_def)

text \<open>The counters agree with the stored contacts, and the limits they enforce hold.\<close>

definition books :: "routing_table \<Rightarrow> contact multiset \<Rightarrow> bool" where
  "books t M \<longleftrightarrow> ip_counts t = tally key_ip M \<and> subnet_counts t = tally key_subnet M"

definition limits :: "contact multiset \<Rightarrow> bool" where
  "limits M \<longleftrightarrow>
     (\<forall>ip. size (filter_mset (\<lambda>c. c_ip c = ip) M) \<le> 1)
     \<and> (\<forall>s. size (filter_mset (in_subnet s) M) \<le> GLOBAL_MAX_PER_SUBNET24)"

lemma release_fields [simp]:
  "root (release_ip_bookkeeping t ip) = root t" "own_id (release_ip_bookkeeping t ip) = own_id t"
  "total_contacts (release_ip_bookkeeping t ip) = total_contacts t"
  "max_size (release_ip_bookkeeping t ip) = max_size t"
  by (simp_all add: release_ip_bookkeeping_def Let_def)

lemma account_fields [simp]:
  "root (account_ip t ip) = root t" "own_id (account_ip t ip) = own_id t"
  "total_contacts (account_ip t ip) = total_contacts t" "max_size (account_ip t ip) = max_size t"
  by (simp_all add: account_ip_def Let_def)

lemma books_simps [simp]:
  "books (t\<lparr>root := z\<rparr>) M = books t M" "books (t\<lparr>total_contacts := n\<rparr>) M = books t M"
  by (simp_all add: books_def)

lemma books_release: "books t (add_mset c M) \<Longrightarrow> books (release_ip_bookkeeping t (c_ip c)) M"
  using tally_remove [of key_ip c "c_ip c" M] tally_remove [of key_subnet c "subnet24 (c_ip c)" M]
  by (auto simp: books_def release_ip_bookkeeping_def Let_def key_ip_def key_subnet_def tally_add)

lemma books_account: "books t M \<Longrightarrow> books (account_ip t (c_ip c)) (add_mset c M)"
  by (auto simp: books_def account_ip_def Let_def tally_add key_ip_def key_subnet_def)

lemma books_same_ip: "c_ip c = c_ip e \<Longrightarrow> books t (add_mset c M) = books t (add_mset e M)"
  by (simp add: books_def tally_add key_ip_def key_subnet_def)

lemma books_ip_count:
  "books t M \<Longrightarrow> (case ip_counts t ip of Some n \<Rightarrow> n | None \<Rightarrow> 0) = size (filter_mset (\<lambda>c. c_ip c = ip) M)"
  by (auto simp: books_def tally_def key_ip_def Let_def)

lemma books_subnet_count:
  "books t M \<Longrightarrow> (case subnet_counts t s of Some n \<Rightarrow> n | None \<Rightarrow> 0) = size (filter_mset (in_subnet s) M)"
  by (auto simp: books_def tally_def key_subnet_in Let_def)

lemma limits_add:
  assumes "limits M" "size (filter_mset (\<lambda>x. c_ip x = c_ip c) M) = 0"
    "\<not> is_lan (c_ip c) \<Longrightarrow> size (filter_mset (in_subnet (subnet24 (c_ip c))) M) < GLOBAL_MAX_PER_SUBNET24"
  shows "limits (add_mset c M)"
proof -
  have "size (filter_mset (in_subnet s) (add_mset c M)) \<le> GLOBAL_MAX_PER_SUBNET24" for s
  proof (cases "in_subnet s c")
    case True
    with assms(3) show ?thesis by (auto simp: in_subnet_def)
  next
    case False
    with assms(1) show ?thesis by (simp add: limits_def del: split_paired_All)
  qed
  moreover have "size (filter_mset (\<lambda>x. c_ip x = ip) (add_mset c M)) \<le> 1" for ip
    using assms(1,2) unfolding limits_def by auto
  ultimately show ?thesis unfolding limits_def by blast
qed

lemma limits_mono: "limits N \<Longrightarrow> M \<subseteq># N \<Longrightarrow> limits M"
  unfolding limits_def by (meson multiset_filter_mono size_mset_mono order_trans)

lemma limits_same_ip: "c_ip c = c_ip e \<Longrightarrow> limits (add_mset c M) = limits (add_mset e M)"
  by (simp add: limits_def in_subnet_def)

section \<open>The table invariants\<close>

definition table_wf :: "routing_table \<Rightarrow> bool" where
  "table_wf t \<longleftrightarrow>
     zone_wf (own_id t) (root t) \<and> zone_depth (root t) = 0
     \<and> total_contacts t = length (zone_contacts (root t))"

definition table_inv :: "routing_table \<Rightarrow> bool" where
  "table_inv t \<longleftrightarrow> table_wf t \<and> books t (zone_items (root t)) \<and> limits (zone_items (root t))"

lemma table_inv_new: "table_inv (with_max_size own n)"
proof -
  have "zone_contacts new_root = []" "zone_depth new_root = 0"
    by (simp_all add: new_root_def new_leaf_def bin_new_def)
  then show ?thesis
    by (simp add: table_inv_def table_wf_def with_max_size_def zone_wf_new_root books_def limits_def)
qed

text \<open>A sighting whose address differs from the stored one and that fails the anti-spoofing check.\<close>

definition refused_move :: "routing_table \<Rightarrow> contact \<Rightarrow> bool" where
  "refused_move t c \<longleftrightarrow>
     (case table_get t (c_id c) of Some e \<Rightarrow> c_ip e \<noteq> c_ip c \<and> update_refused e c | None \<Rightarrow> False)"

lemma add_effect_length:
  assumes "add_effect now c res (mset xs) (mset ys)"
  shows "length ys = (case res of Inr Added \<Rightarrow> Suc (length xs) | _ \<Rightarrow> length xs)"
proof -
  have exchange: "length ys = length xs" if "add_mset e (mset ys) = add_mset y (mset xs)" for e y
    using mset_eq_length [of "e # ys" "y # xs"] that by simp
  show ?thesis
    using assms exchange mset_eq_length [of ys xs] mset_eq_length [of ys "c # xs"]
    by (auto simp: add_effect_def split: sum.splits add_outcome.splits if_splits)
qed

lemma add_contact_wf:
  assumes "table_wf t"
  shows "table_wf (snd (add_contact now t c)) \<and> total_contacts (snd (add_contact now t c)) \<le> Suc (total_contacts t)"
proof -
  obtain res z' where z: "zone_add (own_id t) now (total_contacts t) (max_size t) c (root t) = (res, z')"
    by fastforce
  have ok: "add_ok (own_id t) now c res (root t) z'"
    using zone_add_ok [OF _ z] assms by (simp add: table_wf_def)
  have "length (zone_contacts z') = (case res of Inr Added \<Rightarrow> Suc (total_contacts t) | _ \<Rightarrow> total_contacts t)"
    using ok assms add_effect_length [of now c res "zone_contacts (root t)" "zone_contacts z'"]
    by (auto simp: add_ok_def table_wf_def split: sum.splits add_outcome.splits)
  with ok assms z show ?thesis
    by (auto simp: add_contact_def Let_def add_ok_def table_wf_def split: sum.splits add_outcome.splits option.splits)
qed

lemma table_get_items: "table_wf t \<Longrightarrow> table_get t nid = Some c \<longleftrightarrow> c \<in># zone_items (root t) \<and> c_id c = nid"
  by (simp add: table_get_def table_wf_def zone_get_Some)

lemma table_get_None: "table_wf t \<Longrightarrow> table_get t nid = None \<longleftrightarrow> nid \<notin> c_id ` set_mset (zone_items (root t))"
  by (simp add: table_get_def table_wf_def zone_store.lookup_None)

text \<open>What the two admission checks of \<^verbatim>\<open>add_contact\<close> establish when they let a contact pass.\<close>

lemma admission_checks:
  assumes "table_inv t" "fst (add_contact now t c) \<noteq> Inl (IpLimitExceeded (c_ip c))"
    "fst (add_contact now t c) \<noteq> Inl (SubnetLimitExceeded 24 Global)"
    "map_option c_ip (table_get t (c_id c)) \<noteq> Some (c_ip c)"
  shows "size (filter_mset (\<lambda>x. c_ip x = c_ip c) (zone_items (root t))) = 0"
    and "\<not> is_lan (c_ip c) \<Longrightarrow>
      size (filter_mset (in_subnet (subnet24 (c_ip c))) (zone_items (root t))) < GLOBAL_MAX_PER_SUBNET24"
proof -
  have "books t (zone_items (root t))" using assms(1) by (simp add: table_inv_def)
  note counts = books_ip_count [OF this, of "c_ip c"] books_subnet_count [OF this, of "subnet24 (c_ip c)"]
  from assms(2,4) counts(1) show ip: "size (filter_mset (\<lambda>x. c_ip x = c_ip c) (zone_items (root t))) = 0"
    by (auto simp: add_contact_def Let_def table_get_def split: if_splits)
  show "size (filter_mset (in_subnet (subnet24 (c_ip c))) (zone_items (root t))) < GLOBAL_MAX_PER_SUBNET24"
    if "\<not> is_lan (c_ip c)"
  proof (rule ccontr)
    assume "\<not> ?thesis"
    moreover have "case map_option c_ip (zone_get (own_id t) (root t) (c_id c)) of Some ip \<Rightarrow> ip \<noteq> c_ip c | None \<Rightarrow> True"
      using assms(4) by (auto simp: table_get_def split: option.splits)
    ultimately have "fst (add_contact now t c) = Inl (SubnetLimitExceeded 24 Global)"
      using counts ip that assms(4) by (simp add: add_contact_def Let_def)
    with assms(3) show False by simp
  qed
qed

text \<open>The continuation of \<^verbatim>\<open>add_contact\<close> after both checks.\<close>

definition settle_add ::
    "routing_table \<Rightarrow> contact \<Rightarrow> routing_error + add_outcome \<Rightarrow> routing_zone \<Rightarrow> routing_table" where
  "settle_add t c res z' =
     (let t' = t\<lparr>root := z'\<rparr> in
      case res of
        Inr Added \<Rightarrow> (account_ip t' (c_ip c))\<lparr>total_contacts := total_contacts t + 1\<rparr>
      | Inr (Replaced evicted) \<Rightarrow> account_ip (release_ip_bookkeeping t' (c_ip evicted)) (c_ip c)
      | Inr Updated \<Rightarrow>
          (case map_option c_ip (table_get t (c_id c)) of
             Some old \<Rightarrow> if old \<noteq> c_ip c then account_ip (release_ip_bookkeeping t' old) (c_ip c) else t'
           | None \<Rightarrow> t')
      | Inl e \<Rightarrow> t')"

lemma add_contact_settles:
  assumes "zone_add (own_id t) now (total_contacts t) (max_size t) c (root t) = (res, z')"
  shows "snd (add_contact now t c) = t \<and>
      (fst (add_contact now t c) = Inl (IpLimitExceeded (c_ip c)) \<or>
       fst (add_contact now t c) = Inl (SubnetLimitExceeded 24 Global))
    \<or> snd (add_contact now t c) = settle_add t c res z' \<and>
      fst (add_contact now t c) = (case res of Inl e \<Rightarrow> Inl e | Inr _ \<Rightarrow> Inr ())"
  by (auto simp: add_contact_def settle_add_def assms Let_def table_get_def
      split: sum.splits add_outcome.splits option.splits)

lemma settle_exchange:
  assumes "books t (add_mset old N)" "limits (add_mset old N)"
    "size (filter_mset (\<lambda>x. c_ip x = ip) (add_mset old N)) = 0"
    "\<not> is_lan ip \<Longrightarrow> size (filter_mset (in_subnet (subnet24 ip)) (add_mset old N)) < GLOBAL_MAX_PER_SUBNET24"
    "c_ip new = ip"
  shows "books (account_ip (release_ip_bookkeeping (t\<lparr>root := z'\<rparr>) (c_ip old)) ip) (add_mset new N)"
    and "limits (add_mset new N)"
proof -
  have "books (t\<lparr>root := z'\<rparr>) (add_mset old N)" using assms(1) by simp
  from books_account [OF books_release [OF this], of new] assms(5)
  show "books (account_ip (release_ip_bookkeeping (t\<lparr>root := z'\<rparr>) (c_ip old)) ip) (add_mset new N)"
    by simp
  have "limits N" using assms(2) limits_mono [of "add_mset old N" N] by simp
  then show "limits (add_mset new N)"
    using assms(3-5) by (intro limits_add) (auto split: if_splits)
qed

lemma settle_add_inv:
  assumes inv: "table_inv t" and fresh: "\<not> refused_move t c"
    and ok: "add_ok (own_id t) now c res (root t) z'"
    and checks: "map_option c_ip (table_get t (c_id c)) \<noteq> Some (c_ip c) \<Longrightarrow>
        size (filter_mset (\<lambda>x. c_ip x = c_ip c) (zone_items (root t))) = 0"
      "map_option c_ip (table_get t (c_id c)) \<noteq> Some (c_ip c) \<Longrightarrow> \<not> is_lan (c_ip c) \<Longrightarrow>
        size (filter_mset (in_subnet (subnet24 (c_ip c))) (zone_items (root t))) < GLOBAL_MAX_PER_SUBNET24"
  shows "books (settle_add t c res z') (zone_items z') \<and> limits (zone_items z')"
proof -
  have wf: "table_wf t" and bk: "books t (zone_items (root t))" and lim: "limits (zone_items (root t))"
    using inv by (simp_all add: table_inv_def)
  have eff: "add_effect now c res (zone_items (root t)) (zone_items z')"
    using ok by (simp add: add_ok_def)
  consider (err) e where "res = Inl e" | (added) "res = Inr Added" | (updated) "res = Inr Updated"
    | (replaced) old where "res = Inr (Replaced old)"
    by (cases res; cases "projr res") auto
  then show ?thesis
  proof cases
    case err
    with eff bk lim show ?thesis by (simp add: add_effect_def settle_add_def)
  next
    case added
    with eff have M: "zone_items z' = add_mset c (zone_items (root t))" and "table_get t (c_id c) = None"
      by (simp_all add: add_effect_def table_get_None [OF wf])
    with added bk lim checks books_account [of "t\<lparr>root := z'\<rparr>" _ c] show ?thesis
      by (auto simp: settle_add_def Let_def M intro!: limits_add)
  next
    case (replaced old)
    with eff have "table_get t (c_id c) = None" and old: "old \<in># zone_items (root t)"
      "add_mset old (zone_items z') = add_mset c (zone_items (root t))"
      by (simp_all add: add_effect_def table_get_None [OF wf])
    from mset_exchange [OF old] obtain N where
      N: "zone_items (root t) = add_mset old N" "zone_items z' = add_mset c N" by blast
    with replaced settle_exchange [where ip = "c_ip c" and new = c, OF bk [unfolded N] lim [unfolded N]] checks
      \<open>table_get t (c_id c) = None\<close>
    show ?thesis by (simp add: settle_add_def Let_def)
  next
    case updated
    with eff obtain e where e: "e \<in># zone_items (root t)" "c_id e = c_id c"
      "if update_refused e c then zone_items z' = zone_items (root t)
       else add_mset e (zone_items z') = add_mset (update_existing e c) (zone_items (root t))"
      by (auto simp: add_effect_def)
    then have get: "table_get t (c_id c) = Some e" by (simp add: table_get_items [OF wf])
    show ?thesis
    proof (cases "update_refused e c")
      case True
      with fresh get have "c_ip e = c_ip c" by (simp add: refused_move_def)
      with True e updated get bk lim show ?thesis by (simp add: settle_add_def Let_def)
    next
      case False
      with e(3) mset_exchange [OF e(1)] obtain N where
        N: "zone_items (root t) = add_mset e N" "zone_items z' = add_mset (update_existing e c) N" by auto
      show ?thesis
      proof (cases "c_ip e = c_ip c")
        case True
        then have "c_ip (update_existing e c) = c_ip e" by simp
        from books_same_ip [OF this] limits_same_ip [OF this] True updated get bk lim N show ?thesis
          by (simp add: settle_add_def Let_def)
      next
        case False
        with updated settle_exchange [where ip = "c_ip c" and new = "update_existing e c", OF bk [unfolded N] lim [unfolded N]] checks get N
        show ?thesis by (simp add: settle_add_def Let_def)
      qed
    qed
  qed
qed

lemma add_contact_inv:
  assumes inv: "table_inv t" and fresh: "\<not> refused_move t c"
  shows "table_inv (snd (add_contact now t c))"
proof -
  obtain res z' where z: "zone_add (own_id t) now (total_contacts t) (max_size t) c (root t) = (res, z')"
    by fastforce
  have wf: "table_wf t" using inv by (simp add: table_inv_def)
  have ok: "add_ok (own_id t) now c res (root t) z'"
    using zone_add_ok [OF _ z] wf by (simp add: table_wf_def)
  from add_contact_settles [OF z] consider (refused) "snd (add_contact now t c) = t"
    | (settled) "snd (add_contact now t c) = settle_add t c res z'"
      "fst (add_contact now t c) = (case res of Inl e \<Rightarrow> Inl e | Inr _ \<Rightarrow> Inr ())"
    by blast
  then show ?thesis
  proof cases
    case refused
    with inv show ?thesis by simp
  next
    case settled
    have root: "root (settle_add t c res z') = z'"
      by (simp add: settle_add_def Let_def split: sum.splits add_outcome.splits option.splits)
    show ?thesis
    proof (cases res)
      case (Inl e)
      with ok have same: "zone_items z' = zone_items (root t)" by (simp add: add_ok_def add_effect_def)
      have "books (settle_add t c res z') (zone_items z')" "limits (zone_items z')"
        using inv unfolding same by (simp_all add: table_inv_def settle_add_def Inl)
      with add_contact_wf [OF wf, of now c] show ?thesis
        unfolding settled(1) table_inv_def root by simp
    next
      case (Inr out)
      then have passed: "fst (add_contact now t c) \<noteq> Inl (IpLimitExceeded (c_ip c))"
        "fst (add_contact now t c) \<noteq> Inl (SubnetLimitExceeded 24 Global)" using settled by simp_all
      have "books (settle_add t c res z') (zone_items z') \<and> limits (zone_items z')"
        by (rule settle_add_inv [OF inv fresh ok admission_checks [OF inv passed]])
      with add_contact_wf [OF wf, of now c] show ?thesis
        unfolding settled(1) table_inv_def root by simp
    qed
  qed
qed

section \<open>Operations that only drop or rewrite contacts\<close>

lemma size_filter_ip:
  "size (filter_mset (\<lambda>c. P (c_ip c)) M) = size (filter_mset P (image_mset c_ip M))"
  by (simp add: filter_mset_image_mset)

lemma books_image:
  assumes "image_mset c_ip M = image_mset c_ip N"
  shows "books t M = books t N" and "limits M = limits N"
proof -
  have size: "size (filter_mset (\<lambda>c. P (c_ip c)) M) = size (filter_mset (\<lambda>c. P (c_ip c)) N)" for P
    by (simp only: size_filter_ip assms)
  have "tally key_ip M = tally key_ip N"
    using size [of "\<lambda>x. x = k" for k] by (simp add: tally_def key_ip_def fun_eq_iff)
  moreover have "tally key_subnet M = tally key_subnet N"
    using size [of "\<lambda>x. \<not> is_lan x \<and> subnet24 x = k" for k]
    by (simp add: tally_def key_subnet_in in_subnet_def fun_eq_iff)
  ultimately show "books t M = books t N" by (simp add: books_def)
  show "limits M = limits N"
    using size [of "\<lambda>x. x = k" for k] size [of "\<lambda>x. \<not> is_lan x \<and> subnet24 x = k" for k]
    by (simp add: limits_def in_subnet_def [abs_def])
qed

lemma release_dropped_fields [simp]:
  "root (fold release_dropped ds t) = root t" "own_id (fold release_dropped ds t) = own_id t"
  "max_size (fold release_dropped ds t) = max_size t"
  "total_contacts (fold release_dropped ds t) = total_contacts t - length ds"
  by (induction ds arbitrary: t) (simp_all add: release_dropped_def Let_def)

lemma books_release_dropped: "books t (M + mset ds) \<Longrightarrow> books (fold release_dropped ds t) M"
proof (induction ds arbitrary: t)
  case (Cons d ds)
  then have "books (release_dropped d t) (M + mset ds)"
    using books_release [of t d "M + mset ds"] by (simp add: release_dropped_def Let_def)
  then show ?case using Cons.IH by simp
qed simp

lemma reroot_ok:
  assumes "zone_wf (own_id t) z'" "zone_depth z' = 0"
    and ips: "image_mset c_ip (zone_items (root t)) = image_mset c_ip (zone_items z' + mset ds)"
  shows "table_wf t \<Longrightarrow> table_wf (fold release_dropped ds (t\<lparr>root := z'\<rparr>))"
    and "table_inv t \<Longrightarrow> table_inv (fold release_dropped ds (t\<lparr>root := z'\<rparr>))"
    and "total_contacts (fold release_dropped ds (t\<lparr>root := z'\<rparr>)) \<le> total_contacts t"
proof -
  have len: "length (zone_contacts (root t)) = length (zone_contacts z') + length ds"
    using arg_cong [OF ips, of size] by simp
  show "total_contacts (fold release_dropped ds (t\<lparr>root := z'\<rparr>)) \<le> total_contacts t" by simp
  show wf: "table_wf (fold release_dropped ds (t\<lparr>root := z'\<rparr>))" if "table_wf t"
    using that len assms(1,2) by (simp add: table_wf_def)
  assume inv: "table_inv t"
  then have bk: "books t (zone_items z' + mset ds)" and lim: "limits (zone_items z' + mset ds)"
    using books_image [OF ips] by (simp_all only: table_inv_def)
  have "books (fold release_dropped ds (t\<lparr>root := z'\<rparr>)) (zone_items z')"
    using bk by (intro books_release_dropped) simp
  moreover have "limits (zone_items z')" using lim by (rule limits_mono) simp
  ultimately show "table_inv (fold release_dropped ds (t\<lparr>root := z'\<rparr>))"
    using wf inv by (simp add: table_inv_def)
qed

text \<open>Every operation but \<^verbatim>\<open>add_contact\<close> has this form.\<close>

definition rerooted :: "routing_table \<Rightarrow> routing_table \<Rightarrow> bool" where
  "rerooted t t' \<longleftrightarrow>
     (\<exists>z' ds. t' = fold release_dropped ds (t\<lparr>root := z'\<rparr>) \<and> zone_wf (own_id t) z' \<and> zone_depth z' = 0
        \<and> image_mset c_ip (zone_items (root t)) = image_mset c_ip (zone_items z' + mset ds))"

lemma rerooted_ok:
  assumes "rerooted t t'"
  shows "table_wf t \<Longrightarrow> table_wf t'" "table_inv t \<Longrightarrow> table_inv t'" "total_contacts t' \<le> total_contacts t"
  using assms reroot_ok unfolding rerooted_def by blast+

lemma rerootedI:
  assumes "zone_wf (own_id t) z'" "zone_depth z' = 0" "t' = fold release_dropped ds (t\<lparr>root := z'\<rparr>)"
    "image_mset c_ip (zone_items (root t)) = image_mset c_ip (zone_items z' + mset ds)"
  shows "rerooted t t'"
  using assms unfolding rerooted_def by blast

lemma rerooted_refl: "table_wf t \<Longrightarrow> rerooted t t"
  by (rule rerootedI [of t "root t" t "[]"]) (simp_all add: table_wf_def)

lemma table_remove_rerooted:
  assumes "table_wf t"
  shows "rerooted t (snd (table_remove t nid))"
proof (cases "zone_get (own_id t) (root t) nid")
  have z: "zone_wf (own_id t) (root t)" using assms by (simp add: table_wf_def)
  {
    case None
    from zone_remove_missing [OF z None] rerooted_refl [OF assms] show ?thesis by (simp add: table_remove_def)
  next
    case (Some c)
    then obtain z' where "zone_remove (own_id t) (root t) nid = (Some c, z')" "zone_wf (own_id t) z'"
      "zone_items (root t) = add_mset c (zone_items z')" "zone_depth z' = zone_depth (root t)"
      using zone_remove_found [OF z Some] by blast
    with assms show ?thesis
      by (intro rerootedI [of t z' _ "[c]"]) (simp_all add: table_remove_def table_wf_def release_dropped_def)
  }
qed

lemma zone_get_mut_rerooted:
  assumes "table_wf t" "\<And>x. c_id (f x) = c_id x \<and> c_ip (f x) = c_ip x"
  shows "rerooted t (t\<lparr>root := snd (zone_get_mut (own_id t) (root t) nid f)\<rparr>)"
proof (cases "zone_get (own_id t) (root t) nid")
  have z: "zone_wf (own_id t) (root t)" using assms by (simp add: table_wf_def)
  {
    case None
    from zone_get_mut_missing [OF z None] rerooted_refl [OF assms(1)] show ?thesis by simp
  next
    case (Some c)
    from zone_get_mut_found [OF assms(2) z Some] obtain z' where
      z': "zone_get_mut (own_id t) (root t) nid f = (Some c, z')" "zone_wf (own_id t) z'"
      "add_mset c (zone_items z') = add_mset (f c) (zone_items (root t))" "zone_depth z' = zone_depth (root t)"
      by blast
    have "add_mset (c_ip c) (image_mset c_ip (zone_items z')) = add_mset (c_ip c) (image_mset c_ip (zone_items (root t)))"
      using arg_cong [OF z'(3), of "image_mset c_ip"] assms(2) [of c] by (simp only: image_mset_add_mset)
    with z' assms(1) show ?thesis
      by (intro rerootedI [of t z' _ "[]"]) (simp_all add: table_wf_def)
  }
qed

lemma verify_contact_rerooted: "table_wf t \<Longrightarrow> rerooted t (snd (verify_contact t nid ip))"
  using zone_get_mut_rerooted [of t "\<lambda>c. if c_ip c = ip then c\<lparr>c_verified := True\<rparr> else c" nid]
  by (simp add: verify_contact_def Let_def case_prod_beta split: option.splits)

lemma checking_type_rerooted: "table_wf t \<Longrightarrow> rerooted t (snd (table_checking_type now t nid))"
  using zone_get_mut_rerooted [of t "\<lambda>c. snd (checking_type_at now c)" nid]
  by (simp add: table_checking_type_def Let_def case_prod_beta)

lemma take_due_rerooted:
  assumes "table_wf t"
  shows "rerooted t (fst (snd (take_due_random_lookup_target rng t now s)))"
proof -
  obtain res z' s' where z: "zone_take_due rng (own_id t) now (from_secs 3600) (root t) s = (res, z', s')"
    by (metis prod_cases3)
  with zone_take_due_spec [OF _ z, of "own_id t"] assms show ?thesis
    by (intro rerootedI [of t z' _ "[]"]) (simp_all add: table_wf_def take_due_random_lookup_target_def)
qed

lemma consolidate_rerooted:
  assumes "table_wf t"
  shows "rerooted t (snd (table_consolidate t))"
proof -
  obtain m ds z' where z: "zone_consolidate (root t) [] = (m, ds, z')" by (metis prod_cases3)
  have "consolidated (own_id t) (root t) [] ds z'"
    using zone_consolidate_spec [OF _ z] assms by (simp add: table_wf_def)
  with z assms show ?thesis
    by (intro rerootedI [of t z' _ ds]) (auto simp: table_wf_def consolidated_def table_consolidate_def)
qed

lemma sorted_all:
  "length (zone_contacts (root t)) < USIZE_MAX \<Longrightarrow>
     mset (sort_key f (zone_get_closest target own USIZE_MAX (root t) [])) = zone_items (root t)"
  using zone_get_closest_all [of "[]" "root t" USIZE_MAX target own] by simp

lemma all_contacts_complete:
  assumes "table_wf t" "total_contacts t < USIZE_MAX"
  shows "mset (all_contacts t) = zone_items (root t)"
proof -
  let ?xs = "sort_key (\<lambda>c. distance (c_id c) (own_id t)) (zone_get_closest (own_id t) (own_id t) USIZE_MAX (root t) [])"
  have eq: "mset ?xs = zone_items (root t)"
    using assms by (intro sorted_all) (simp add: table_wf_def)
  then have "length ?xs = total_contacts t"
    using mset_eq_length [OF eq] assms by (simp add: table_wf_def)
  with eq show ?thesis
    by (simp add: all_contacts_def table_get_closest_def)
qed

lemma release_removed_all:
  assumes "\<And>c. c \<in> set cs \<Longrightarrow> m (c_id c) = Some (c_ip c)"
  shows "fold (release_removed m) (map c_id cs) t = fold release_dropped cs t"
  using assms by (induction cs arbitrary: t) (simp_all add: release_removed_def release_dropped_def)

lemma seeded_ips:
  "image_mset c_ip (mset cs) =
     image_mset c_ip (mset (map (seed_expiry now) (filter (\<lambda>c. \<not> P c) cs)) + mset (filter P cs))"
  by (induction cs) auto

lemma small_timer_rerooted:
  assumes wf: "table_wf t" and small: "total_contacts t < USIZE_MAX"
  shows "rerooted t (snd (small_timer_maintenance t now))"
proof -
  have z: "zone_wf (own_id t) (root t)" using wf by (simp add: table_wf_def)
  obtain outcome z' where sweep: "small_timer_sweep now (root t) \<lparr>removed = [], probes = []\<rparr> = (outcome, z')"
    by fastforce
  note spec = small_timer_sweep_spec [OF z sweep]
  let ?gone = "filter (dead_and_expired now) (zone_contacts (root t))"
  let ?m = "map_of (rev (map (\<lambda>c. (c_id c, c_ip c)) (filter (\<lambda>c. is_dead c \<and> is_expired_at c now) (all_contacts t))))"
  have all: "mset (all_contacts t) = zone_items (root t)" by (rule all_contacts_complete [OF wf small])
  have "distinct (map c_id (all_contacts t))"
    using zone_ids_distinct [OF z] all by (metis mset_map mset_eq_imp_distinct_iff)
  then have "distinct (map fst (rev (map (\<lambda>c. (c_id c, c_ip c)) (filter (\<lambda>c. is_dead c \<and> is_expired_at c now) (all_contacts t)))))"
    by (simp add: comp_def distinct_map_filter flip: rev_map)
  moreover have "set (all_contacts t) = set (zone_contacts (root t))"
    using all by (metis set_mset_mset)
  ultimately have "?m (c_id c) = Some (c_ip c)" if "c \<in> set ?gone" for c
    using that by (auto simp: map_of_eq_Some_iff dead_and_expired_def)
  then have "snd (small_timer_maintenance t now) = fold release_dropped ?gone (t\<lparr>root := z'\<rparr>)"
    using spec release_removed_all [of ?gone ?m]
    by (simp add: small_timer_maintenance_def sweep Let_def)
  moreover have "image_mset c_ip (zone_items (root t)) = image_mset c_ip (zone_items z' + mset ?gone)"
    using spec seeded_ips [of "zone_contacts (root t)" now "dead_and_expired now"] by simp
  ultimately show ?thesis
    using spec wf by (intro rerootedI [of t z' _ ?gone]) (simp_all add: table_wf_def)
qed

section \<open>Runs of table operations\<close>

datatype table_op =
    OpAdd system_time contact
  | OpRemove node_id
  | OpVerify node_id ipv4
  | OpChecking system_time node_id
  | OpSmallTimer system_time
  | OpConsolidate
  | OpRandomLookup system_time bytes

fun next_byte :: "bytes \<Rightarrow> u8 \<times> bytes" where
  "next_byte [] = (0, [])"
| "next_byte (b # bs) = (b, bs)"

fun table_step :: "table_op \<Rightarrow> routing_table \<Rightarrow> routing_table" where
  "table_step (OpAdd now c) t = snd (add_contact now t c)"
| "table_step (OpRemove nid) t = snd (table_remove t nid)"
| "table_step (OpVerify nid ip) t = snd (verify_contact t nid ip)"
| "table_step (OpChecking now nid) t = snd (table_checking_type now t nid)"
| "table_step (OpSmallTimer now) t = snd (small_timer_maintenance t now)"
| "table_step OpConsolidate t = snd (table_consolidate t)"
| "table_step (OpRandomLookup now random) t = fst (snd (take_due_random_lookup_target next_byte t now random))"

fun add_refused :: "routing_table \<Rightarrow> table_op \<Rightarrow> bool" where
  "add_refused t (OpAdd now c) = refused_move t c"
| "add_refused t _ = False"

lemma step_rerooted:
  assumes "table_wf t" "total_contacts t < USIZE_MAX" "\<nexists>now c. op = OpAdd now c"
  shows "rerooted t (table_step op t)"
  using assms
  by (cases op) (simp_all add: table_remove_rerooted verify_contact_rerooted checking_type_rerooted
      small_timer_rerooted consolidate_rerooted take_due_rerooted)

interpretation table_runs: counted_op_system table_step "\<lambda>t _. total_contacts t < USIZE_MAX" table_wf total_contacts
proof
  fix t op
  assume t: "table_wf t" "total_contacts t < USIZE_MAX"
  show "table_wf (table_step op t)" "total_contacts (table_step op t) \<le> Suc (total_contacts t)"
  proof (atomize (full), cases "\<exists>now c. op = OpAdd now c")
    case True
    with add_contact_wf [OF t(1)]
    show "table_wf (table_step op t) \<and> total_contacts (table_step op t) \<le> Suc (total_contacts t)" by auto
  next
    case False
    then have "rerooted t (table_step op t)" using t by (intro step_rerooted)
    from rerooted_ok(1,3) [OF this] t
    show "table_wf (table_step op t) \<and> total_contacts (table_step op t) \<le> Suc (total_contacts t)" by simp
  qed
qed

lemma limits_size:
  assumes "limits M"
  shows "size M \<le> 2 ^ 32"
proof -
  define key where "key ip = (octet0 ip, octet1 ip, octet2 ip, octet3 ip)" for ip
  have inj: "inj key" by (rule injI) (auto simp: key_def intro: ipv4.expand)
  have fin: "finite (UNIV :: (u8 \<times> u8 \<times> u8 \<times> u8) set)" by simp
  have "card (UNIV :: ipv4 set) \<le> card (UNIV :: (u8 \<times> u8 \<times> u8 \<times> u8) set)"
    using inj by (rule card_inj_on_le [where f = key]) (simp_all add: fin)
  also have "\<dots> = 2 ^ 32" by (simp add: card_word)
  finally have card: "card (UNIV :: ipv4 set) \<le> 2 ^ 32" .
  have finite: "finite (UNIV :: ipv4 set)" by (rule finite_imageD [OF finite_subset [OF subset_UNIV fin] inj])
  let ?N = "image_mset c_ip M"
  have "count ?N ip \<le> 1" for ip
  proof -
    have "size (filter_mset (\<lambda>c. c_ip c = ip) M) = count ?N ip"
      using size_filter_ip [of "\<lambda>x. x = ip" M] by (simp add: filter_eq_replicate_mset)
    with assms show ?thesis unfolding limits_def by metis
  qed
  then have "sum (count ?N) (set_mset ?N) \<le> card (set_mset ?N)"
    using sum_bounded_above [of "set_mset ?N" "count ?N" 1] by simp
  then have "size ?N \<le> card (set_mset ?N)" by (simp only: size_multiset_overloaded_eq)
  also have "\<dots> \<le> card (UNIV :: ipv4 set)" by (rule card_mono [OF finite]) simp
  finally show ?thesis using card by simp
qed

lemma table_inv_bounded: "table_inv t \<Longrightarrow> total_contacts t < USIZE_MAX"
  using limits_size [of "zone_items (root t)"] by (simp add: table_inv_def table_wf_def USIZE_MAX_def)

interpretation bookkept_runs: op_system table_step "\<lambda>t op. \<not> add_refused t op" table_inv
proof
  fix t op
  assume t: "table_inv t" "\<not> add_refused t op"
  have wf: "table_wf t" using t(1) by (simp add: table_inv_def)
  show "table_inv (table_step op t)"
  proof (cases "\<exists>now c. op = OpAdd now c")
    case True
    with add_contact_inv [OF t(1)] t(2) show ?thesis by auto
  next
    case False
    then have "rerooted t (table_step op t)" using wf table_inv_bounded [OF t(1)] by (intro step_rerooted)
    from rerooted_ok(2) [OF this t(1)] show ?thesis .
  qed
qed

section \<open>Nearest contacts\<close>

lemma take_sort_key_nearest:
  fixes f :: "'a \<Rightarrow> 'b::linorder"
  assumes ys: "ys = take n (sort_key f xs)" and "distinct xs" "inj_on f (set xs)"
  shows "sorted_wrt (<) (map f ys)" "length ys = min n (length xs)" "set ys \<subseteq> set xs"
    "y \<in> set ys \<Longrightarrow> x \<in> set xs - set ys \<Longrightarrow> f y < f x"
proof -
  let ?zs = "sort_key f xs"
  have dist: "distinct (map f ?zs)"
    using assms(2,3) by (simp add: distinct_map)
  have strict: "sorted_wrt (<) (map f (take n ?zs) @ map f (drop n ?zs))"
    using dist strict_sorted_iff [of "map f ?zs"] by (simp flip: map_append)
  then show "sorted_wrt (<) (map f ys)" by (simp add: ys sorted_wrt_append)
  show "length ys = min n (length xs)" by (simp add: ys)
  show "set ys \<subseteq> set xs" using set_take_subset [of n ?zs] by (simp add: ys)
  assume y: "y \<in> set ys" and x: "x \<in> set xs - set ys"
  have "set xs = set (take n ?zs) \<union> set (drop n ?zs)"
    by (metis append_take_drop_id set_append set_sort)
  with x have "x \<in> set (drop n ?zs)" by (auto simp: ys)
  with strict y show "f y < f x" by (auto simp: ys sorted_wrt_append)
qed

lemma distance_right_inject: "distance a target = distance b target \<longleftrightarrow> a = b"
proof
  assume "distance a target = distance b target"
  then have "node_val a XOR node_val target = node_val b XOR node_val target"
    by (simp flip: node_val_distance)
  then have "node_val a = node_val b"
    by (metis xor.assoc xor.right_neutral xor_self_eq)
  then show "a = b" by (simp add: node_val_inject)
qed simp

lemma distance_inj: "inj_on c_id S \<Longrightarrow> inj_on (\<lambda>c. distance (c_id c) target) S"
  by (auto simp: inj_on_def distance_right_inject)

lemma distinct_map_filter_le:
  "(\<And>k. length (filter (\<lambda>x. f x = k) xs) \<le> 1) \<Longrightarrow> distinct (map f xs)"
proof (induction xs)
  case (Cons x xs)
  have "length (filter (\<lambda>y. f y = k) xs) \<le> 1" for k
    using Cons.prems [of k] by (auto split: if_splits)
  moreover have "filter (\<lambda>y. f y = f x) xs = []"
    using Cons.prems [of "f x"] by simp
  ultimately show ?case
    using Cons.IH by (auto simp: filter_empty_conv)
qed simp

lemma release_removed_own_id: "own_id (fold (release_removed m) nids t) = own_id t"
  by (induction nids arbitrary: t) (simp_all add: release_removed_def Let_def split: option.splits)

lemma step_own_id: "own_id (table_step op t) = own_id t"
  by (cases op) (auto simp: add_contact_def table_remove_def verify_contact_def table_checking_type_def
      small_timer_maintenance_def table_consolidate_def take_due_random_lookup_target_def Let_def
      release_removed_own_id split: prod.splits sum.splits add_outcome.splits option.splits)

lemma run_own_id: "own_id (fold table_step ops t) = own_id t"
  by (induction ops arbitrary: t) (simp_all add: step_own_id)

section \<open>Properties\<close>

text \<open>C8: After every sequence of table operations, in any order and with any arguments, the table is
  well-formed: every contact lies in the leaf its distance bits lead to, identifiers are unique, no
  bin exceeds its capacity or its /24 limit, and the contact total is the number of stored contacts,
  which is at most the number of operations.\<close>

theorem table_runs_well_formed:
  assumes "length ops < USIZE_MAX"
  shows "let t = fold table_step ops (with_max_size own n) in
    zone_wf own (root t) \<and> table_len t = zone_count (root t) \<and> table_len t \<le> length ops"
proof -
  let ?t = "with_max_size own n"
  have t: "table_wf ?t" "total_contacts ?t = 0"
    using table_inv_new by (simp_all add: table_inv_def with_max_size_def)
  have run: "allowed_run (\<lambda>t _. total_contacts t < USIZE_MAX) table_step ?t ops"
    using t assms by (intro table_runs.short_runs_allowed [where limit = USIZE_MAX]) simp_all
  with table_runs.run_keeps [OF t(1) run] table_runs.run_counts [OF t(1) run] t(2) show ?thesis
    by (simp add: table_wf_def Let_def table_len_def zone_count_contacts run_own_id with_max_size_def)
qed


theorem table_runs_well_formed_witness:
  "let t = fold table_step [OpAdd 0 (example_contact 1), OpSmallTimer 5, OpConsolidate] (with_max_size id_ZERO 100) in
    zone_wf id_ZERO (root t) \<and> table_len t \<le> 3"
  using table_runs_well_formed [of "[OpAdd 0 (example_contact 1), OpSmallTimer 5, OpConsolidate]" id_ZERO 100]
  by (simp add: USIZE_MAX_def Let_def)

text \<open>C9: The address bookkeeping is exact after every sequence of table operations in which no sighting
  that fails the anti-spoofing check carries a new address: the two counters agree with the stored
  contacts, no two contacts share an address, and no public /24 network has more than ten contacts.\<close>

theorem table_runs_bookkept:
  assumes "allowed_run (\<lambda>t op. \<not> add_refused t op) table_step (with_max_size own n) ops"
  shows "let t = fold table_step ops (with_max_size own n); cs = zone_contacts (root t) in
    distinct (map c_ip cs)
    \<and> (\<forall>s. length (filter (in_subnet s) cs) \<le> 10)
    \<and> (\<forall>ip. ip_counts t ip = (if ip \<in> c_ip ` set cs then Some 1 else None))
    \<and> (\<forall>s. subnet_counts t s =
           (let k = length (filter (in_subnet s) cs) in if k = 0 then None else Some k))"
proof -
  define t where "t = fold table_step ops (with_max_size own n)"
  define cs where "cs = zone_contacts (root t)"
  have inv: "table_inv t"
    unfolding t_def by (rule bookkept_runs.run_keeps [OF table_inv_new assms])
  then have bk: "books t (mset cs)" and lim: "limits (mset cs)" by (simp_all add: table_inv_def cs_def)
  have one: "length (filter (\<lambda>c. c_ip c = ip) cs) \<le> 1" for ip
    using lim unfolding limits_def length_filter_mset by blast
  then have "distinct (map c_ip cs)" by (rule distinct_map_filter_le)
  moreover have "ip_counts t ip = (if ip \<in> c_ip ` set cs then Some 1 else None)" for ip
  proof -
    have "ip_counts t ip = (let k = length (filter (\<lambda>c. c_ip c = ip) cs) in if k = 0 then None else Some k)"
      using bk by (simp add: books_def tally_def key_ip_def length_filter_mset)
    moreover have "length (filter (\<lambda>c. c_ip c = ip) cs) = 0 \<longleftrightarrow> ip \<notin> c_ip ` set cs"
      by (auto simp: filter_empty_conv)
    ultimately show ?thesis using one [of ip] by (auto simp: Let_def le_Suc_eq)
  qed
  moreover have "length (filter (in_subnet s) cs) \<le> 10" for s
    using lim unfolding limits_def length_filter_mset GLOBAL_MAX_PER_SUBNET24_def by blast
  moreover have "subnet_counts t s = (let k = length (filter (in_subnet s) cs) in if k = 0 then None else Some k)" for s
    using bk by (simp add: books_def tally_def key_subnet_in length_filter_mset)
  ultimately show ?thesis unfolding t_def [symmetric] cs_def [symmetric] Let_def by blast
qed

theorem table_runs_bookkept_witness:
  "distinct (map c_ip (zone_contacts (root (fold table_step [OpAdd 0 (example_contact 1), OpRemove id_ZERO] (with_max_size id_ZERO 100)))))"
proof -
  have "table_get (with_max_size id_ZERO 100) nid = None" for nid
    by (simp add: table_get_def with_max_size_def new_root_def new_leaf_def bin_new_def)
  then have "allowed_run (\<lambda>t op. \<not> add_refused t op) table_step (with_max_size id_ZERO 100)
      [OpAdd 0 (example_contact 1), OpRemove id_ZERO]"
    by (simp add: refused_move_def)
  from table_runs_bookkept [OF this] show ?thesis unfolding Let_def by blast
qed

text \<open>A contact whose address is stored under another identifier is refused, and the table is
  unchanged.\<close>

theorem duplicate_address_refused:
  assumes "table_inv t" and "e \<in> set (zone_contacts (root t))" and "c_ip e = c_ip c" and "c_id e \<noteq> c_id c"
  shows "add_contact now t c = (Inl (IpLimitExceeded (c_ip c)), t)"
proof -
  have wf: "table_wf t" and bk: "books t (zone_items (root t))" and lim: "limits (zone_items (root t))"
    using assms(1) by (simp_all add: table_inv_def)
  have "e \<in># filter_mset (\<lambda>x. c_ip x = c_ip c) (zone_items (root t))" using assms(2,3) by simp
  then have "0 < size (filter_mset (\<lambda>x. c_ip x = c_ip c) (zone_items (root t)))"
    by (metis gr0I size_eq_0_iff_empty empty_iff set_mset_empty)
  then have count: "0 < (case ip_counts t (c_ip c) of Some n \<Rightarrow> n | None \<Rightarrow> 0)"
    by (simp only: books_ip_count [OF bk])
  have "map_option c_ip (zone_get (own_id t) (root t) (c_id c)) \<noteq> Some (c_ip c)"
  proof
    assume "map_option c_ip (zone_get (own_id t) (root t) (c_id c)) = Some (c_ip c)"
    then obtain x where x: "zone_get (own_id t) (root t) (c_id c) = Some x" "c_ip x = c_ip c" by auto
    then have "x \<in> set (zone_contacts (root t))" "c_id x = c_id c"
      using wf by (simp_all add: table_wf_def zone_get_Some)
    moreover have "size (filter_mset (\<lambda>y. c_ip y = c_ip c) (zone_items (root t))) \<le> 1"
      using lim unfolding limits_def by blast
    moreover have "{#e, x#} \<subseteq># filter_mset (\<lambda>y. c_ip y = c_ip c) (zone_items (root t))" if "e \<noteq> x"
      using that assms(2,3) x(2) \<open>x \<in> set (zone_contacts (root t))\<close>
      by (auto simp: insert_subset_eq_iff in_diff_count)
    ultimately show False using assms(4) size_mset_mono by fastforce
  qed
  with count show ?thesis by (simp add: add_contact_def Let_def)
qed

definition example_table :: routing_table where
  "example_table = snd (add_contact 0 (with_max_size id_ZERO 20) (example_contact 1))"

lemma example_table_facts:
  "table_inv example_table" "zone_contacts (root example_table) = [example_contact 1]"
proof -
  have none: "table_get (with_max_size id_ZERO 20) nid = None" for nid
    by (simp add: table_get_def with_max_size_def new_root_def new_leaf_def bin_new_def)
  then show "table_inv example_table"
    unfolding example_table_def by (intro add_contact_inv table_inv_new) (simp add: refused_move_def)
  show "zone_contacts (root example_table) = [example_contact 1]"
    by (simp add: example_table_def add_contact_def with_max_size_def new_root_def new_leaf_def
        bin_new_def bin_try_add_def K_def MAX_PER_BIN_SUBNET24_def GLOBAL_MAX_PER_SUBNET24_def)
qed

theorem duplicate_address_refused_witness:
  "add_contact 5 example_table ((example_contact 2)\<lparr>c_ip := c_ip (example_contact 1)\<rparr>)
     = (Inl (IpLimitExceeded (c_ip (example_contact 1))), example_table)"
proof -
  have "c_id (example_contact 1) \<noteq> c_id (example_contact 2)" by code_simp
  with duplicate_address_refused [OF example_table_facts(1), of "example_contact 1"
      "(example_contact 2)\<lparr>c_ip := c_ip (example_contact 1)\<rparr>" 5] example_table_facts(2)
  show ?thesis by simp
qed

text \<open>C16: \<^verbatim>\<open>get_closest\<close> returns the contacts nearest to the target: as many as requested and available,
  in strictly increasing distance, each strictly closer than every stored contact left out.\<close>

theorem get_closest_nearest:
  assumes "table_wf t" and "table_len t < USIZE_MAX"
  shows "let r = table_get_closest t target n in
    sorted_wrt (<) (map (\<lambda>c. distance (c_id c) target) r) \<and> length r = min n (table_len t)
    \<and> set r \<subseteq> set (zone_contacts (root t))
    \<and> (\<forall>c \<in> set r. \<forall>d \<in> set (zone_contacts (root t)) - set r.
         distance (c_id c) target < distance (c_id d) target)"
proof -
  let ?xs = "zone_get_closest target (own_id t) USIZE_MAX (root t) []"
  have xs: "mset ?xs = zone_items (root t)"
    using assms zone_get_closest_all [of "[]" "root t" USIZE_MAX target "own_id t"]
    by (simp add: table_wf_def table_len_def)
  then have same: "set ?xs = set (zone_contacts (root t))" "length ?xs = table_len t"
    using assms mset_eq_setD [OF xs] mset_eq_length [OF xs] by (simp_all add: table_wf_def table_len_def)
  have "distinct (map c_id (zone_contacts (root t)))"
    using assms zone_ids_distinct [of "own_id t" "root t"] by (simp add: table_wf_def)
  then have dist: "distinct (map c_id ?xs)"
    using xs by (metis mset_map mset_eq_imp_distinct_iff)
  then have "distinct ?xs" "inj_on (\<lambda>c. distance (c_id c) target) (set ?xs)"
    by (simp_all add: distinct_map distance_inj)
  from take_sort_key_nearest [where n = n, OF refl this] same show ?thesis
    by (simp add: table_get_closest_def Let_def)
qed

theorem get_closest_nearest_witness:
  "length (table_get_closest example_table id_ZERO 3) = 1"
proof -
  have "table_wf example_table" "table_len example_table = 1"
    using example_table_facts by (simp_all add: table_inv_def table_wf_def table_len_def)
  with get_closest_nearest [of example_table id_ZERO 3] show ?thesis
    by (simp add: USIZE_MAX_def Let_def)
qed

text \<open>C27: The responder variant hands out only contacts that are verified and fresh enough, and among
  those the nearest ones: every verified fresh contact it leaves out is strictly farther away than
  each one returned, and it leaves none out when fewer than requested qualify.\<close>

theorem get_closest_max_type_verified:
  assumes "table_wf t" and "table_len t < USIZE_MAX"
  shows "let r = table_get_closest_max_type now t target n max_type;
             ok = (\<lambda>c. oracle_type_at c now \<le> max_type \<and> c_verified c) in
    list_all ok r \<and> sorted_wrt (<) (map (\<lambda>c. distance (c_id c) target) r)
    \<and> length r = min n (length (filter ok (zone_contacts (root t))))
    \<and> (\<forall>c \<in> set r. \<forall>d \<in> set (zone_contacts (root t)) - set r. ok d \<longrightarrow>
         distance (c_id c) target < distance (c_id d) target)"
proof -
  let ?xs = "zone_get_closest_max_type now target (own_id t) USIZE_MAX max_type (root t) []"
  let ?ok = "\<lambda>c. oracle_type_at c now \<le> max_type \<and> c_verified c"
  have xs: "mset ?xs = mset (filter ?ok (zone_contacts (root t)))"
    using assms zone_get_closest_max_type_all [of "[]" "root t" USIZE_MAX now target "own_id t" max_type]
    by (simp add: table_wf_def table_len_def)
  then have same: "set ?xs = set (filter ?ok (zone_contacts (root t)))"
    "length ?xs = length (filter ?ok (zone_contacts (root t)))"
    by (metis mset_eq_setD) (metis xs mset_eq_length)
  have "distinct (map c_id (filter ?ok (zone_contacts (root t))))"
    using assms zone_ids_distinct [of "own_id t" "root t"] by (simp add: table_wf_def distinct_map_filter)
  then have "distinct (map c_id ?xs)"
    using xs by (metis mset_map mset_eq_imp_distinct_iff)
  then have "distinct ?xs" "inj_on (\<lambda>c. distance (c_id c) target) (set ?xs)"
    by (simp_all add: distinct_map distance_inj)
  note nearest = take_sort_key_nearest [where n = n, OF refl this]
  have "set (take n (sort_key (\<lambda>c. distance (c_id c) target) ?xs)) \<subseteq> {c \<in> set (zone_contacts (root t)). ?ok c}"
    using nearest(3) same by auto
  with nearest same show ?thesis
    by (auto simp: table_get_closest_max_type_def Let_def list_all_iff)
qed

theorem get_closest_max_type_verified_witness:
  "table_get_closest_max_type 0 example_table id_ZERO 3 2 = []"
proof -
  have "table_wf example_table" "table_len example_table = 1"
    using example_table_facts by (simp_all add: table_inv_def table_wf_def table_len_def)
  with get_closest_max_type_verified [of example_table 0 id_ZERO 3 2] example_table_facts(2) show ?thesis
    by (simp add: USIZE_MAX_def Let_def example_contact_def contact_new_def)
qed

text \<open>The small timer removes exactly the dead and expired contacts from the table, reports their
  identifiers, keeps every other contact under its identifier and the total exact, and keeps the
  bookkeeping exact.\<close>

theorem small_timer_table:
  assumes "table_inv t" and "small_timer_maintenance t now = (outcome, t')"
  shows "table_inv t'
    \<and> set (removed outcome) = {c_id c | c. c \<in> set (zone_contacts (root t)) \<and> is_dead c \<and> is_expired_at c now}
    \<and> table_get t' nid = (case table_get t nid of
        Some c \<Rightarrow> if is_dead c \<and> is_expired_at c now then None else Some (seed_expiry now c)
      | None \<Rightarrow> None)
    \<and> table_len t = table_len t' + length (removed outcome)"
proof -
  have wf: "table_wf t" using assms(1) by (simp add: table_inv_def)
  have inv': "table_inv t'"
    using rerooted_ok(2) [OF small_timer_rerooted [OF wf table_inv_bounded [OF assms(1)], of now] assms(1)] assms(2)
    by simp
  obtain z' where sweep: "small_timer_sweep now (root t) \<lparr>removed = [], probes = []\<rparr> = (outcome, z')"
    using assms(2) by (auto simp: small_timer_maintenance_def Let_def split: prod.splits)
  have t': "root t' = z'" "own_id t' = own_id t"
  proof -
    have "root (fold (release_removed m) nids s) = root s" for m nids s
      by (induction nids arbitrary: s) (simp_all add: release_removed_def Let_def split: option.splits)
    then show "root t' = z'" "own_id t' = own_id t"
      using assms(2) sweep by (auto simp: small_timer_maintenance_def Let_def release_removed_own_id)
  qed
  have z: "zone_wf (own_id t) (root t)" using wf by (simp add: table_wf_def)
  note spec = small_timer_sweep_spec [OF z sweep]
  have get: "table_get t' nid = Some d \<longleftrightarrow>
      (\<exists>c. table_get t nid = Some c \<and> \<not> dead_and_expired now c \<and> d = seed_expiry now c)" for d
    using spec z t' by (auto simp: table_get_def zone_get_Some)
  have "table_get t' nid = (case table_get t nid of
      Some c \<Rightarrow> if is_dead c \<and> is_expired_at c now then None else Some (seed_expiry now c) | None \<Rightarrow> None)"
    using get by (auto simp: dead_and_expired_def split: option.splits) (metis not_None_eq)+
  moreover have "table_len t = table_len t' + length (removed outcome)"
    using spec wf inv' t' sum_length_filter_compl [of "dead_and_expired now" "zone_contacts (root t)"]
    by (simp add: table_len_def table_inv_def table_wf_def)
  moreover have "set (removed outcome) = {c_id c | c. c \<in> set (zone_contacts (root t)) \<and> is_dead c \<and> is_expired_at c now}"
    using spec by (auto simp: dead_and_expired_def)
  ultimately show ?thesis using inv' by blast
qed

theorem small_timer_table_witness:
  "table_len (snd (small_timer_maintenance example_table 7)) = 1"
proof -
  obtain outcome t' where t': "small_timer_maintenance example_table 7 = (outcome, t')" by fastforce
  note small_timer_table [OF example_table_facts(1) t', of id_ZERO]
  moreover have "\<not> is_dead (example_contact 1)"
    by (simp add: is_dead_def example_contact_def contact_new_def CONTACT_TYPE_DEAD_def)
  ultimately have "removed outcome = []"
    using example_table_facts(2) by (simp flip: set_empty)
  moreover have "table_len example_table = 1"
    using example_table_facts by (simp add: table_inv_def table_wf_def table_len_def)
  ultimately show ?thesis
    using small_timer_table [OF example_table_facts(1) t', of id_ZERO] t' by simp
qed


definition crowded_zone :: "contact \<Rightarrow> contact \<Rightarrow> contact \<Rightarrow> contact \<Rightarrow> routing_zone" where
  "crowded_zone a b c d =
     ZBranch 0 0 None (ZLeaf 1 0 None \<lparr>contacts = [a, b]\<rparr>) (ZLeaf 1 1 None \<lparr>contacts = [c, d]\<rparr>)"

definition in_same_24 :: "u8 \<Rightarrow> u8 \<Rightarrow> contact" where
  "in_same_24 msb host = contact_new 0 (NodeId (arr16 [host, 0, 0, msb])) (Ipv4 20 0 0 host) 4672 4662 9"

text \<open>C35: Consolidation can drop live contacts although the two leaves together hold fewer than half a
  bin: two leaves of a well-formed tree that hold two contacts of one /24 network each are merged into
  a leaf that keeps the first two and drops the others.\<close>

theorem consolidate_drops_live_contacts:
  "let a = in_same_24 0 1; b = in_same_24 0 2; c = in_same_24 128 3; d = in_same_24 128 4;
       z = crowded_zone a b c d in
   zone_wf id_ZERO z \<and> zone_count z < K div 2
   \<and> zone_consolidate z [] = (1, [c, d], ZLeaf 0 0 None \<lparr>contacts = [a, b]\<rparr>)"
proof -
  define a b c d where "a = in_same_24 0 1" and "b = in_same_24 0 2"
    and "c = in_same_24 128 3" and "d = in_same_24 128 4"
  have two: "bin_inv \<lparr>contacts = [x, y]\<rparr>" if "c_id x \<noteq> c_id y" for x y
    using that by (intro bin_invI) (simp_all add: K_def MAX_PER_BIN_SUBNET24_def subnet_load_def)
  have "c_id a \<noteq> c_id b" "c_id c \<noteq> c_id d"
    "\<not> branch_is_right (c_id a) id_ZERO 0" "\<not> branch_is_right (c_id b) id_ZERO 0"
    "branch_is_right (c_id c) id_ZERO 0" "branch_is_right (c_id d) id_ZERO 0"
    unfolding a_def b_def c_def d_def by code_simp+
  then have "zone_wf id_ZERO (crowded_zone a b c d)" "zone_count (crowded_zone a b c d) < K div 2"
    by (simp_all add: crowded_zone_def two child_zone_index_def KK_def bin_len_def K_def)
  moreover have "zone_consolidate (crowded_zone a b c d) [] = (1, [c, d], ZLeaf 0 0 None \<lparr>contacts = [a, b]\<rparr>)"
    unfolding a_def b_def c_def d_def by code_simp
  ultimately show ?thesis
    unfolding Let_def a_def b_def c_def d_def by blast
qed

end
