(* ===== verification/Packet_Tracker.thy ===== *)
theory Packet_Tracker
  imports Op_System
begin

text \<open>
  \<^verbatim>\<open>emulebb-kad-net/src/tracker.rs\<close>: the inbound flood tracker, a token bucket per source address and
  request family. The clock is an argument of every operation. Token counts are 64-bit signed integers,
  kept as \<open>int\<close> with saturation and wrap-around written out where the source has them.
\<close>

section \<open>Signed 64-bit arithmetic and the clock\<close>

definition I64_MAX :: int where "I64_MAX = 9223372036854775807"
definition I64_MIN :: int where "I64_MIN = - 9223372036854775808"

definition i64_saturate :: "int \<Rightarrow> int" where
  "i64_saturate x = max I64_MIN (min I64_MAX x)"

definition i64_wrap :: "int \<Rightarrow> int" where
  "i64_wrap x = (x - I64_MIN) mod 18446744073709551616 + I64_MIN"

text \<open>Division truncates towards zero.\<close>

definition i64_div :: "int \<Rightarrow> int \<Rightarrow> int" where
  "i64_div a b = (if a < 0 then - ((- a) div b) else a div b)"

text \<open>\<^verbatim>\<open>Instant::duration_since\<close> is zero for a later instant.\<close>

definition instant_since :: "system_time \<Rightarrow> system_time \<Rightarrow> duration" where
  "instant_since now earlier = nat (now - earlier)"

section \<open>Model\<close>

datatype ip_address = V4 ipv4 | V6 "128 word"

datatype packet_tracker_bucket =
    BkBootstrapReq | BkHelloReq | BkFindNodeReq | BkSearchReq | BkPublishKeyReq | BkPublishSourceReq
  | BkPublishNotesReq | BkFirewalledReq | BkFindBuddyReq | BkCallbackReq | BkPingReq | BkSearchRes | BkDefault

record packet_tracker_key =
  key_ip_addr :: ip_address
  key_bucket :: packet_tracker_bucket

record token_bucket_state =
  tokens :: int
  last_tick :: system_time

record packet_tracker_limit =
  max_packets :: u32
  limit_window :: duration

datatype packet_tracker_action = Allow | Drop | MassiveDrop

record packet_tracker_decision =
  action :: packet_tracker_action
  allowed :: bool
  observed_packets :: u32
  decision_max_packets :: u32
  decision_window :: duration

record packet_tracker =
  buckets :: "packet_tracker_key \<rightharpoonup> token_bucket_state"
  limits_of :: "packet_tracker_bucket \<rightharpoonup> packet_tracker_limit"
  default_limit :: packet_tracker_limit
  banned_until :: "ip_address \<rightharpoonup> system_time"

definition MASSIVE_FLOOD_BAN :: duration where
  "MASSIVE_FLOOD_BAN = from_secs (60 * 60)"

definition limit_new :: "u32 \<Rightarrow> duration \<Rightarrow> packet_tracker_limit" where
  "limit_new max_p w = \<lparr> max_packets = max_p, limit_window = w \<rparr>"

definition tracker_new :: "u32 \<Rightarrow> u32 \<Rightarrow> duration \<Rightarrow> duration \<Rightarrow> packet_tracker" where
  "tracker_new max_per_window search_res_max_per_window window request_window =
     \<lparr> buckets = Map.empty,
       limits_of =
         [BkBootstrapReq \<mapsto> limit_new 2 request_window,
          BkHelloReq \<mapsto> limit_new 3 request_window,
          BkFindNodeReq \<mapsto> limit_new 10 request_window,
          BkSearchReq \<mapsto> limit_new 3 request_window,
          BkPublishKeyReq \<mapsto> limit_new 4 request_window,
          BkPublishSourceReq \<mapsto> limit_new 3 request_window,
          BkPublishNotesReq \<mapsto> limit_new 2 request_window,
          BkFirewalledReq \<mapsto> limit_new 2 request_window,
          BkFindBuddyReq \<mapsto> limit_new 2 request_window,
          BkCallbackReq \<mapsto> limit_new 1 request_window,
          BkPingReq \<mapsto> limit_new 2 request_window,
          BkSearchRes \<mapsto> limit_new search_res_max_per_window window],
       default_limit = limit_new max_per_window window,
       banned_until = Map.empty \<rparr>"

definition is_banned :: "packet_tracker \<Rightarrow> ip_address \<Rightarrow> system_time \<Rightarrow> bool" where
  "is_banned t ip now = (case banned_until t ip of None \<Rightarrow> False | Some until \<Rightarrow> now < until)"

definition bucket_cap_ms :: "packet_tracker_limit \<Rightarrow> int" where
  "bucket_cap_ms limit = min (int (as_millis (limit_window limit))) I64_MAX"

definition per_packet_token_cost_ms :: "packet_tracker_limit \<Rightarrow> int" where
  "per_packet_token_cost_ms limit = max (bucket_cap_ms limit div uint (max (max_packets limit) 1)) 1"

definition max_u32 :: "u32 \<Rightarrow> int \<Rightarrow> u32" where
  "max_u32 a b = (if b < uint a then a else word_of_int b)"

definition limit_for_bucket :: "packet_tracker \<Rightarrow> packet_tracker_bucket \<Rightarrow> packet_tracker_limit" where
  "limit_for_bucket t b = (case limits_of t b of None \<Rightarrow> default_limit t | Some limit \<Rightarrow> limit)"

definition charge :: "int \<Rightarrow> int \<Rightarrow> token_bucket_state option \<Rightarrow> system_time \<Rightarrow> token_bucket_state" where
  "charge cap cost entry now =
     (let st = (case entry of None \<Rightarrow> \<lparr> tokens = cap - cost, last_tick = now \<rparr> | Some s \<Rightarrow> s);
          charged =
            (if last_tick st \<noteq> now \<or> tokens st \<noteq> cap - cost then
               let elapsed_ms = min (int (as_millis (instant_since now (last_tick st)))) I64_MAX
               in i64_saturate (min (i64_saturate (tokens st + elapsed_ms)) cap - cost)
             else tokens st)
      in \<lparr> tokens = charged, last_tick = now \<rparr>)"

definition record_and_check_at ::
  "packet_tracker \<Rightarrow> packet_tracker_key \<Rightarrow> system_time \<Rightarrow> packet_tracker_decision \<times> packet_tracker" where
  "record_and_check_at t key now =
     (let limit = limit_for_bucket t (key_bucket key);
          cap = bucket_cap_ms limit;
          cost = per_packet_token_cost_ms limit;
          massive_floor = i64_wrap (- 3 * cap);
          st = charge cap cost (buckets t key) now;
          act = (if tokens st < massive_floor then MassiveDrop else if tokens st < 0 then Drop else Allow);
          bans = (if tokens st < massive_floor
                  then (banned_until t)(key_ip_addr key \<mapsto> now + int MASSIVE_FLOOD_BAN)
                  else banned_until t)
      in (\<lparr> action = act, allowed = (act = Allow),
            observed_packets = max_u32 0 (i64_div (i64_wrap (cap - tokens st)) (max cost 1)),
            decision_max_packets = max_packets limit, decision_window = limit_window limit \<rparr>,
          t\<lparr> buckets := (buckets t)(key \<mapsto> st), banned_until := bans \<rparr>))"

definition tracker_prune :: "packet_tracker \<Rightarrow> system_time \<Rightarrow> packet_tracker" where
  "tracker_prune t now =
     t\<lparr> buckets := (\<lambda>key. case buckets t key of
          None \<Rightarrow> None
        | Some state \<Rightarrow>
            let cap = bucket_cap_ms (case limits_of t (key_bucket key) of None \<Rightarrow> default_limit t | Some l \<Rightarrow> l)
            in if instant_since now (last_tick state) < nat (max cap 0) * 1000000 then Some state else None),
        banned_until := (\<lambda>ip. case banned_until t ip of
          None \<Rightarrow> None
        | Some until \<Rightarrow> if now < until then Some until else None) \<rparr>"

definition bucket_label :: "packet_tracker_bucket \<Rightarrow> string" where
  "bucket_label b =
     (case b of
        BkBootstrapReq \<Rightarrow> ''bootstrap_req''
      | BkHelloReq \<Rightarrow> ''hello_req''
      | BkFindNodeReq \<Rightarrow> ''find_node_req''
      | BkSearchReq \<Rightarrow> ''search_req''
      | BkPublishKeyReq \<Rightarrow> ''publish_key_req''
      | BkPublishSourceReq \<Rightarrow> ''publish_source_req''
      | BkPublishNotesReq \<Rightarrow> ''publish_notes_req''
      | BkFirewalledReq \<Rightarrow> ''firewalled_req''
      | BkFindBuddyReq \<Rightarrow> ''find_buddy_req''
      | BkCallbackReq \<Rightarrow> ''callback_req''
      | BkPingReq \<Rightarrow> ''ping_req''
      | BkDefault \<Rightarrow> ''default''
      | BkSearchRes \<Rightarrow> ''search_res'')"

definition action_label :: "packet_tracker_action \<Rightarrow> string" where
  "action_label a = (case a of Allow \<Rightarrow> ''allow'' | Drop \<Rightarrow> ''drop'' | MassiveDrop \<Rightarrow> ''massive_drop'')"

section \<open>Runs\<close>

datatype tracker_op = Record packet_tracker_key system_time | Prune system_time

fun tracker_step :: "tracker_op \<Rightarrow> packet_tracker \<Rightarrow> packet_tracker" where
  "tracker_step (Record key now) t = snd (record_and_check_at t key now)"
| "tracker_step (Prune now) t = tracker_prune t now"

fun op_time :: "tracker_op \<Rightarrow> system_time" where
  "op_time (Record key now) = now"
| "op_time (Prune now) = now"

text \<open>The requests of one stream that a run lets through.\<close>

fun allowed_requests :: "packet_tracker_key \<Rightarrow> packet_tracker \<Rightarrow> tracker_op list \<Rightarrow> nat" where
  "allowed_requests key t [] = 0"
| "allowed_requests key t (op # ops) =
     (case op of
        Record k now \<Rightarrow> if k = key \<and> allowed (fst (record_and_check_at t k now)) then 1 else 0
      | Prune now \<Rightarrow> 0) + allowed_requests key (tracker_step op t) ops"



section \<open>The rate bound\<close>

lemma cap_nonneg: "0 \<le> bucket_cap_ms l" and cap_le_max: "bucket_cap_ms l \<le> I64_MAX"
  by (simp_all add: bucket_cap_ms_def I64_MAX_def)


lemma cost_le: "per_packet_token_cost_ms l \<le> max (bucket_cap_ms l) 1"
proof -
  have "bucket_cap_ms l div uint (max (max_packets l) 1) \<le> bucket_cap_ms l"
    using cap_nonneg [of l] by (intro zdiv_mono2 [of _ 1, simplified]) (auto simp: max_def word_le_def word_less_def)
  then show ?thesis by (auto simp: per_packet_token_cost_ms_def)
qed







lemma charge_tick [simp]: "last_tick (charge cap cost entry now) = now"
  by (simp add: charge_def Let_def)




lemma step_limits [simp]:
  "limits_of (tracker_step op t) = limits_of t" "default_limit (tracker_step op t) = default_limit t"
  by (cases op; simp add: record_and_check_at_def tracker_prune_def Let_def)+

lemma step_limit_for [simp]: "limit_for_bucket (tracker_step op t) b = limit_for_bucket t b"
  by (simp add: limit_for_bucket_def split: option.split)








section \<open>Flood bans\<close>

text \<open>A ban that lasts until an instant survives every operation before it.\<close>

lemma ban_step:
  assumes "banned_until t ip = Some v" "until \<le> v" "op_time op < until" "until \<le> op_time op + int MASSIVE_FLOOD_BAN"
  shows "\<exists>v'. banned_until (tracker_step op t) ip = Some v' \<and> until \<le> v'"
  using assms by (cases op) (auto simp: record_and_check_at_def tracker_prune_def Let_def)

interpretation flood_ban: op_system tracker_step
  "\<lambda>t op. op_time op < until \<and> until \<le> op_time op + int MASSIVE_FLOOD_BAN"
  "\<lambda>t. \<exists>v. banned_until t ip = Some v \<and> until \<le> v" for ip until
  by unfold_locales (use ban_step in blast)

section \<open>Properties\<close>


definition example_tracker :: packet_tracker where
  "example_tracker = tracker_new 100 100 (from_secs 60) (from_secs 60)"

definition example_key :: packet_tracker_key where
  "example_key = \<lparr> key_ip_addr = V4 (Ipv4 10 0 0 1), key_bucket = BkPingReq \<rparr>"

lemma example_limit:
  "limit_for_bucket example_tracker BkPingReq = limit_new 2 (from_secs 60)"
  "bucket_cap_ms (limit_new 2 (from_secs 60)) = 60000"
  "per_packet_token_cost_ms (limit_new 2 (from_secs 60)) = 30000"
  by (simp_all add: limit_for_bucket_def example_tracker_def tracker_new_def bucket_cap_ms_def
      per_packet_token_cost_ms_def limit_new_def from_secs_def as_millis_def I64_MAX_def max_def
      word_le_nat_alt)

lemma example_record:
  assumes "limit_for_bucket t BkPingReq = limit_new 2 (from_secs 60)"
  shows "action (fst (record_and_check_at t example_key now)) =
      (let n = tokens (charge 60000 30000 (buckets t example_key) now)
       in if n < -180000 then MassiveDrop else if n < 0 then Drop else Allow)"
    and "allowed (fst (record_and_check_at t example_key now))
      \<longleftrightarrow> action (fst (record_and_check_at t example_key now)) = Allow"
    and "buckets (tracker_step (Record example_key now) t) example_key = Some (charge 60000 30000 (buckets t example_key) now)"
proof -
  have "i64_wrap (-180000) = -180000" by (simp add: i64_wrap_def I64_MIN_def)
  then show "action (fst (record_and_check_at t example_key now)) =
      (let n = tokens (charge 60000 30000 (buckets t example_key) now)
       in if n < -180000 then MassiveDrop else if n < 0 then Drop else Allow)"
    using assms by (simp add: record_and_check_at_def example_key_def example_limit Let_def)
qed (use assms in \<open>simp_all add: record_and_check_at_def example_key_def example_limit Let_def\<close>)

lemma example_charges:
  "charge 60000 30000 None now = \<lparr> tokens = 30000, last_tick = now \<rparr>"
  "charge 60000 30000 (Some \<lparr> tokens = 30000, last_tick = 1 \<rparr>) 2 = \<lparr> tokens = 0, last_tick = 2 \<rparr>"
  "charge 60000 30000 (Some \<lparr> tokens = 0, last_tick = 2 \<rparr>) 3 = \<lparr> tokens = -30000, last_tick = 3 \<rparr>"
  "charge 60000 30000 (Some \<lparr> tokens = -180000, last_tick = 0 \<rparr>) 1 = \<lparr> tokens = -210000, last_tick = 1 \<rparr>"
  "charge 60000 30000 (Some \<lparr> tokens = -180000, last_tick = 0 \<rparr>) 61000000000 = \<lparr> tokens = -149000, last_tick = 61000000000 \<rparr>"
  by (simp_all add: charge_def i64_saturate_def I64_MIN_def I64_MAX_def instant_since_def as_millis_def)


text \<open>C21: A massive flood bans its source: once a request is answered with the massive-flood action, the source
  address stays banned for the whole following hour, through every later request and pruning, and
  pruning does not lift the ban early.\<close>

theorem massive_flood_bans:
  assumes "action (fst (record_and_check_at t key now)) = MassiveDrop"
    and "\<And>op. op \<in> set ops \<Longrightarrow> now \<le> op_time op \<and> op_time op < now + int MASSIVE_FLOOD_BAN"
    and "at < now + int MASSIVE_FLOOD_BAN"
  shows "is_banned (fold tracker_step ops (snd (record_and_check_at t key now))) (key_ip_addr key) at"
proof -
  let ?until = "now + int MASSIVE_FLOOD_BAN" and ?t = "snd (record_and_check_at t key now)"
  have "banned_until ?t (key_ip_addr key) = Some ?until"
    using assms(1) by (auto simp: record_and_check_at_def Let_def split: if_splits)
  moreover have "allowed_run (\<lambda>t op. op_time op < ?until \<and> ?until \<le> op_time op + int MASSIVE_FLOOD_BAN) tracker_step s ops"
    if "\<And>op. op \<in> set ops \<Longrightarrow> now \<le> op_time op \<and> op_time op < ?until" for s ops
    using that by (induction ops arbitrary: s) fastforce+
  ultimately obtain v where "banned_until (fold tracker_step ops ?t) (key_ip_addr key) = Some v" "?until \<le> v"
    using flood_ban.run_keeps [of ?t "key_ip_addr key" ?until ops] assms(2) by blast
  with assms(3) show ?thesis by (simp add: is_banned_def)
qed

definition flooded_tracker :: packet_tracker where
  "flooded_tracker = example_tracker\<lparr> buckets := [example_key \<mapsto> \<lparr> tokens = -180000, last_tick = 0 \<rparr>] \<rparr>"

lemma flooded_limit: "limit_for_bucket flooded_tracker b = limit_for_bucket example_tracker b"
  by (simp add: flooded_tracker_def limit_for_bucket_def split: option.split)

theorem massive_flood_bans_witness:
  "action (fst (record_and_check_at flooded_tracker example_key 1)) = MassiveDrop
   \<and> is_banned (tracker_prune (snd (record_and_check_at flooded_tracker example_key 1)) 100) (V4 (Ipv4 10 0 0 1)) 200"
proof -
  have "action (fst (record_and_check_at flooded_tracker example_key 1)) = MassiveDrop"
    by (simp add: example_record flooded_limit example_limit(1)) (simp add: flooded_tracker_def example_charges)
  with massive_flood_bans [OF this, of "[Prune 100]" 200] show ?thesis
    by (simp add: MASSIVE_FLOOD_BAN_def from_secs_def example_key_def)
qed

section \<open>Where the tracker is more lenient than its budget\<close>

text \<open>Requests of a new stream that arrive at one and the same clock reading are not charged after the
  first: any number of them is let through.\<close>

lemma same_instant_uncharged:
  assumes "cost = per_packet_token_cost_ms (limit_for_bucket t (key_bucket key))"
    and "cap = bucket_cap_ms (limit_for_bucket t (key_bucket key))"
    and "cost \<le> cap" "3 * cap \<le> I64_MAX"
    and "buckets t key = None \<or> buckets t key = Some \<lparr> tokens = cap - cost, last_tick = now \<rparr>"
  shows "allowed_requests key t (replicate n (Record key now)) = n"
  using assms
proof (induction n arbitrary: t)
  case (Suc n)
  let ?t = "snd (record_and_check_at t key now)"
  have cap: "0 \<le> cap" using Suc.prems(2) cap_nonneg by simp
  have ch: "charge cap cost (buckets t key) now = \<lparr> tokens = cap - cost, last_tick = now \<rparr>"
    using Suc.prems(5) by (auto simp: charge_def Let_def)
  have "i64_wrap (- 3 * cap) = - 3 * cap"
    using Suc.prems(4) cap by (simp add: i64_wrap_def I64_MIN_def I64_MAX_def)
  with ch cap Suc.prems(1-3) have "allowed (fst (record_and_check_at t key now))"
    by (simp add: record_and_check_at_def Let_def)
  moreover have "buckets ?t key = Some \<lparr> tokens = cap - cost, last_tick = now \<rparr>"
    using ch Suc.prems(1,2) by (simp add: record_and_check_at_def Let_def)
  moreover have "limit_for_bucket ?t b = limit_for_bucket t b" for b
    using step_limit_for [of "Record key now" t b] by simp
  ultimately show ?case using Suc.IH [of ?t] Suc.prems(1-4) by simp
qed simp

text \<open>Pruning one window after the last request forgets a deficit of several windows: the next request is
  let through, although without the pruning it would be dropped.\<close>

lemma prune_forgives_deficit:
  "action (fst (record_and_check_at (tracker_prune flooded_tracker (60 * 10 ^ 9)) example_key (61 * 10 ^ 9))) = Allow"
  "action (fst (record_and_check_at flooded_tracker example_key (61 * 10 ^ 9))) = Drop"
proof -
  have "buckets (tracker_prune flooded_tracker (60 * 10 ^ 9)) example_key = None"
    by (simp add: tracker_prune_def flooded_tracker_def instant_since_def Let_def)
      (simp add: example_key_def example_tracker_def tracker_new_def example_limit)
  moreover have "limit_for_bucket (tracker_prune flooded_tracker (60 * 10 ^ 9)) b = limit_for_bucket example_tracker b" for b
    using step_limit_for [of "Prune (60 * 10 ^ 9)" flooded_tracker b] by (simp add: flooded_limit)
  ultimately show "action (fst (record_and_check_at (tracker_prune flooded_tracker (60 * 10 ^ 9)) example_key (61 * 10 ^ 9))) = Allow"
    by (simp add: example_record example_limit(1) example_charges)
  show "action (fst (record_and_check_at flooded_tracker example_key (61 * 10 ^ 9))) = Drop"
    by (simp add: example_record flooded_limit example_limit(1)) (simp add: flooded_tracker_def example_charges)
qed

end
