(* ===== verification/Kad_Wire.thy ===== *)
theory Kad_Wire
  imports Node_Id
begin

text \<open>
  The reading and writing layer under the Kad packet codec:
  \<^verbatim>\<open>emulebb-kad-proto/src/error.rs\<close>, the counted vectors of \<^verbatim>\<open>packet/types.rs\<close> and the little-endian
  primitives that the sources take from \<^verbatim>\<open>binrw\<close>. A reader maps the bytes after the cursor to an error
  or to a value and the bytes still unread; a writer returns the bytes it appends. UTF-8 decoding is
  that of the Rust standard library; a \<^verbatim>\<open>String\<close> is the list of its bytes.
\<close>

section \<open>Errors\<close>

datatype proto_error =
    ProtoIo
  | InvalidNodeId
  | UnknownTagType u8
  | UnknownOpcode u8
  | InvalidProtocol u8
  | BinRw binrw_error
  | InvalidUtf8
  | BufferTooShort
  | InvalidPacketSize u8 nat nat
  | InvalidCountedVector nat nat nat
  | WireCountOverflow string nat nat
  | DecompressError
and binrw_error = BIo | BCustom proto_error

definition wire_count_u8 :: "string \<Rightarrow> nat \<Rightarrow> proto_error + u8" where
  "wire_count_u8 field actual =
     (if actual \<le> 255 then Inr (word_of_nat actual) else Inl (WireCountOverflow field 255 actual))"

definition wire_count_u16 :: "string \<Rightarrow> nat \<Rightarrow> proto_error + u16" where
  "wire_count_u16 field actual =
     (if actual \<le> 65535 then Inr (word_of_nat actual) else Inl (WireCountOverflow field 65535 actual))"

definition from_binrw :: "binrw_error \<Rightarrow> proto_error" where
  "from_binrw e =
     (case e of
        BCustom (InvalidCountedVector cnt minimum remaining) \<Rightarrow> InvalidCountedVector cnt minimum remaining
      | BCustom (WireCountOverflow field maximum actual) \<Rightarrow> WireCountOverflow field maximum actual
      | _ \<Rightarrow> BinRw e)"

definition map_err :: "('e \<Rightarrow> 'f) \<Rightarrow> 'e + 'a \<Rightarrow> 'f + 'a" where
  "map_err f r = (case r of Inl e \<Rightarrow> Inl (f e) | Inr x \<Rightarrow> Inr x)"

section \<open>Readers\<close>

type_synonym 'a reader = "bytes \<Rightarrow> binrw_error + 'a \<times> bytes"

definition rret :: "'a \<Rightarrow> bytes \<Rightarrow> 'e + 'a \<times> bytes" where
  "rret x bs = Inr (x, bs)"

definition rbind ::
  "(bytes \<Rightarrow> 'e + 'a \<times> bytes) \<Rightarrow> ('a \<Rightarrow> bytes \<Rightarrow> 'e + 'b \<times> bytes) \<Rightarrow> bytes \<Rightarrow> 'e + 'b \<times> bytes" where
  "rbind r f bs = (case r bs of Inl e \<Rightarrow> Inl e | Inr (x, rest) \<Rightarrow> f x rest)"

definition read_bytes :: "nat \<Rightarrow> bytes reader" where
  "read_bytes n bs = (if n \<le> length bs then Inr (take n bs, drop n bs) else Inl BIo)"

definition read_u8 :: "u8 reader" where
  "read_u8 = rbind (read_bytes 1) (\<lambda>bs. rret (from_le bs))"

definition read_u16 :: "u16 reader" where
  "read_u16 = rbind (read_bytes 2) (\<lambda>bs. rret (from_le bs))"

definition read_u32 :: "u32 reader" where
  "read_u32 = rbind (read_bytes 4) (\<lambda>bs. rret (from_le bs))"

definition read_u64 :: "u64 reader" where
  "read_u64 = rbind (read_bytes 8) (\<lambda>bs. rret (from_le bs))"

definition read_node_id :: "node_id reader" where
  "read_node_id = rbind (read_bytes 16) (\<lambda>bs. rret (NodeId (arr16 bs)))"

definition read_ed2k_hash :: "ed2k_hash reader" where
  "read_ed2k_hash = rbind (read_bytes 16) (\<lambda>bs. rret (Ed2kHash (arr16 bs)))"

definition write_node_id :: "node_id \<Rightarrow> bytes" where
  "write_node_id i = arr_bytes (wire_bytes i)"

definition write_ed2k_hash :: "ed2k_hash \<Rightarrow> bytes" where
  "write_ed2k_hash h = arr_bytes (hash_bytes h)"

definition ensure_counted_vector_fits :: "nat \<Rightarrow> nat \<Rightarrow> bytes \<Rightarrow> proto_error + unit" where
  "ensure_counted_vector_fits cnt minimum_element_size bs =
     (let remaining = length bs;
          minimum_required = min (cnt * minimum_element_size) 18446744073709551615
      in if minimum_required > remaining
         then Inl (InvalidCountedVector cnt minimum_element_size remaining)
         else Inr ())"

fun read_times :: "(bytes \<Rightarrow> 'e + 'a \<times> bytes) \<Rightarrow> nat \<Rightarrow> bytes \<Rightarrow> 'e + 'a list \<times> bytes" where
  "read_times r 0 bs = Inr ([], bs)"
| "read_times r (Suc n) bs = rbind r (\<lambda>x. rbind (read_times r n) (\<lambda>xs. rret (x # xs))) bs"

definition read_counted_vector :: "'a reader \<Rightarrow> nat \<Rightarrow> nat \<Rightarrow> 'a list reader" where
  "read_counted_vector r cnt minimum_element_size bs =
     (case ensure_counted_vector_fits cnt minimum_element_size bs of
        Inl e \<Rightarrow> Inl (BCustom e)
      | Inr _ \<Rightarrow> read_times r cnt bs)"

fun write_all :: "('a \<Rightarrow> 'e + bytes) \<Rightarrow> 'a list \<Rightarrow> 'e + bytes" where
  "write_all w [] = Inr []"
| "write_all w (x # xs) = try_bind (w x) (\<lambda>b. try_bind (write_all w xs) (\<lambda>bs. Inr (b @ bs)))"

section \<open>UTF-8\<close>

definition is_cont :: "u8 \<Rightarrow> bool" where
  "is_cont b \<longleftrightarrow> b AND 0xC0 = 0x80"

definition byte_at :: "bytes \<Rightarrow> nat \<Rightarrow> u8" where
  "byte_at bs i = (if i < length bs then bs ! i else 0)"

definition utf8_char_width :: "u8 \<Rightarrow> nat" where
  "utf8_char_width b =
     (if b < 0x80 then 1 else if 0xC2 \<le> b \<and> b \<le> 0xDF then 2 else if 0xE0 \<le> b \<and> b \<le> 0xEF then 3
      else if 0xF0 \<le> b \<and> b \<le> 0xF4 then 4 else 0)"

text \<open>The second byte that a three- or four-byte sequence may have after its first byte.\<close>

definition second_ok :: "u8 \<Rightarrow> u8 \<Rightarrow> bool" where
  "second_ok b c =
     (if b = 0xE0 then 0xA0 \<le> c \<and> c \<le> 0xBF
      else if b = 0xED then 0x80 \<le> c \<and> c \<le> 0x9F
      else if b = 0xF0 then 0x90 \<le> c \<and> c \<le> 0xBF
      else if b = 0xF4 then 0x80 \<le> c \<and> c \<le> 0x8F
      else 0x80 \<le> c \<and> c \<le> 0xBF)"

text \<open>One step of the chunk iterator: whether a character starts here, and how many bytes it has or
  how many bytes are one invalid sequence.\<close>

definition utf8_step :: "bytes \<Rightarrow> bool \<times> nat" where
  "utf8_step bs =
     (let b = byte_at bs 0; w = utf8_char_width b in
      if w = 1 then (True, 1)
      else if w = 2 then (if is_cont (byte_at bs 1) then (True, 2) else (False, 1))
      else if w = 3 then
        (if \<not> second_ok b (byte_at bs 1) then (False, 1)
         else if \<not> is_cont (byte_at bs 2) then (False, 2) else (True, 3))
      else if w = 4 then
        (if \<not> second_ok b (byte_at bs 1) then (False, 1)
         else if \<not> is_cont (byte_at bs 2) then (False, 2)
         else if \<not> is_cont (byte_at bs 3) then (False, 3) else (True, 4))
      else (False, 1))"

lemma utf8_step_pos: "0 < snd (utf8_step bs)"
  by (simp add: utf8_step_def Let_def)

lemma utf8_step_drop: "bs \<noteq> [] \<Longrightarrow> (ok, n) = utf8_step bs \<Longrightarrow> length bs - n < length bs"
  using utf8_step_pos [of bs] by (metis diff_less length_greater_0_conv snd_conv)

function from_utf8_lossy :: "bytes \<Rightarrow> bytes" where
  "from_utf8_lossy bs =
     (if bs = [] then []
      else let (ok, n) = utf8_step bs in
        (if ok then take n bs else [0xEF, 0xBF, 0xBD]) @ from_utf8_lossy (drop n bs))"
  by pat_completeness auto
termination
  by (relation "measure length") (auto intro: utf8_step_drop)

function utf8_valid :: "bytes \<Rightarrow> bool" where
  "utf8_valid bs =
     (if bs = [] then True
      else let (ok, n) = utf8_step bs in ok \<and> utf8_valid (drop n bs))"
  by pat_completeness auto
termination
  by (relation "measure length") (auto intro: utf8_step_drop)

declare from_utf8_lossy.simps [simp del] utf8_valid.simps [simp del]

lemma from_utf8_lossy_valid: "utf8_valid bs \<Longrightarrow> from_utf8_lossy bs = bs"
proof (induction bs rule: utf8_valid.induct)
  case (1 bs)
  show ?case
  proof (cases "bs = []")
    case False
    obtain ok n where step: "utf8_step bs = (ok, n)" by fastforce
    with 1 False have "ok" "from_utf8_lossy (drop n bs) = drop n bs"
      by (simp_all add: utf8_valid.simps [of bs])
    with step False show ?thesis by (simp add: from_utf8_lossy.simps [of bs])
  qed (simp add: from_utf8_lossy.simps)
qed

text \<open>Lossy decoding always yields valid UTF-8, which is the invariant of \<^verbatim>\<open>String\<close>.\<close>

lemma is_cont_zero [simp]: "\<not> is_cont 0" "\<not> second_ok b 0"
  by (simp_all add: is_cont_def second_ok_def)

lemma utf8_step_fits: "bs \<noteq> [] \<Longrightarrow> utf8_step bs = (True, n) \<Longrightarrow> n \<le> length bs"
  by (cases bs) (auto simp: utf8_step_def Let_def byte_at_def not_less_eq_eq Suc_le_eq split: if_splits)

lemma utf8_step_prefix:
  assumes "utf8_step bs = (True, n)" "n \<le> length bs"
  shows "utf8_step (take n bs @ ys) = (True, n)"
proof -
  have "byte_at (take n bs @ ys) i = byte_at bs i" if "i < n" for i
    using that assms(2) by (simp add: byte_at_def nth_append)
  with assms(1) show ?thesis
    by (auto simp: utf8_step_def Let_def split: if_splits)
qed

lemma utf8_valid_append:
  assumes "utf8_step bs = (True, n)" "bs \<noteq> []" "utf8_valid ys"
  shows "utf8_valid (take n bs @ ys)"
proof -
  have n: "n \<le> length bs" "0 < n"
    using utf8_step_fits [OF assms(2,1)] utf8_step_pos [of bs] assms(1) by simp_all
  with utf8_step_prefix [OF assms(1) n(1), of ys] assms(2,3) show ?thesis
    by (subst utf8_valid.simps) simp
qed

lemma utf8_valid_replacement: "utf8_valid ys \<Longrightarrow> utf8_valid ([0xEF, 0xBF, 0xBD] @ ys)"
  using utf8_valid_append [of "[0xEF, 0xBF, 0xBD]" 3 ys]
  by (simp add: utf8_step_def byte_at_def utf8_char_width_def second_ok_def is_cont_def)

lemma utf8_valid_lossy: "utf8_valid (from_utf8_lossy bs)"
proof (induction bs rule: from_utf8_lossy.induct)
  case (1 bs)
  show ?case
  proof (cases "bs = []")
    case True
    then show ?thesis by (simp add: from_utf8_lossy.simps utf8_valid.simps)
  next
    case False
    obtain ok n where step: "utf8_step bs = (ok, n)" by fastforce
    with 1 False have rest: "utf8_valid (from_utf8_lossy (drop n bs))" by simp
    show ?thesis
    proof (cases ok)
      case True
      with step False utf8_valid_append [of bs n, OF _ False rest] show ?thesis
        by (simp add: from_utf8_lossy.simps [of bs])
    next
      case ko: False
      with step False utf8_valid_replacement [OF rest] show ?thesis
        by (simp add: from_utf8_lossy.simps [of bs])
    qed
  qed
qed

section \<open>Round trips of the primitives\<close>

lemma rbind_Inr: "r bs = Inr (x, rest) \<Longrightarrow> rbind r f bs = f x rest"
  by (simp add: rbind_def)

lemma rret_simp [simp]: "rret x bs = Inr (x, bs)"
  by (simp add: rret_def)

lemma read_bytes_append [wire_roundtrip]: "length xs = n \<Longrightarrow> read_bytes n (xs @ rest) = Inr (xs, rest)"
  by (simp add: read_bytes_def)

lemma read_words [wire_roundtrip]:
  "read_u8 (to_le 1 a @ rest) = Inr (a, rest)"
  "read_u16 (to_le 2 b @ rest) = Inr (b, rest)"
  "read_u32 (to_le 4 c @ rest) = Inr (c, rest)"
  "read_u64 (to_le 8 d @ rest) = Inr (d, rest)"
  by (simp_all add: read_u8_def read_u16_def read_u32_def read_u64_def rbind_def read_bytes_append
      del: from_le.simps)

lemma to_le_u8 [simp]: "to_le (Suc 0) (b :: u8) = [b]"
  by (simp add: to_le_def)

lemma read_u8_Cons [wire_roundtrip]: "read_u8 (b # rest) = Inr (b, rest)"
  using read_words(1) [of b rest] by simp

lemma read_node_id_append [wire_roundtrip]: "read_node_id (write_node_id i @ rest) = Inr (i, rest)"
  by (cases i) (simp add: read_node_id_def write_node_id_def rbind_def read_bytes_append)

lemma read_ed2k_hash_append [wire_roundtrip]: "read_ed2k_hash (write_ed2k_hash h @ rest) = Inr (h, rest)"
  by (cases h) (simp add: read_ed2k_hash_def write_ed2k_hash_def rbind_def read_bytes_append)

lemma length_write_ids [simp]: "length (write_node_id i) = 16" "length (write_ed2k_hash h) = 16"
  by (simp_all add: write_node_id_def write_ed2k_hash_def)

section \<open>Element codecs and counted vectors\<close>

text \<open>
  The contract of an element codec: every element that satisfies \<open>ok\<close> is written, in at least \<open>least\<close>
  bytes, and reading the written bytes back gives the element in the form \<open>norm\<close> that the reader
  produces, with the rest of the input untouched. The vector lemmas are proved once from it.
\<close>

locale codec =
  fixes wr :: "'a \<Rightarrow> 'e + bytes"
    and rd :: "bytes \<Rightarrow> 'e + 'a \<times> bytes"
    and ok :: "'a \<Rightarrow> bool"
    and norm :: "'a \<Rightarrow> 'a"
    and least :: nat
  assumes written: "ok x \<Longrightarrow> \<exists>bs. wr x = Inr bs \<and> least \<le> length bs \<and> (\<forall>rest. rd (bs @ rest) = Inr (norm x, rest))"
begin

lemma vector_written:
  "list_all ok xs \<Longrightarrow>
     \<exists>bs. write_all wr xs = Inr bs \<and> length xs * least \<le> length bs
       \<and> (\<forall>rest. read_times rd (length xs) (bs @ rest) = Inr (map norm xs, rest))"
proof (induction xs)
  case Nil
  then show ?case by simp
next
  case (Cons x xs)
  then obtain b where b: "wr x = Inr b" "least \<le> length b" "\<And>rest. rd (b @ rest) = Inr (norm x, rest)"
    using written [of x] by auto
  from Cons obtain bs where bs: "write_all wr xs = Inr bs" "length xs * least \<le> length bs"
    "\<And>rest. read_times rd (length xs) (bs @ rest) = Inr (map norm xs, rest)"
    by auto
  with b show ?case
    by (auto simp: rbind_def)
qed

lemma vector_fits:
  "length xs * least \<le> length bs \<Longrightarrow> ensure_counted_vector_fits (length xs) least (bs @ rest) = Inr ()"
  by (auto simp: ensure_counted_vector_fits_def Let_def min_def)

lemma mapped: "codec (\<lambda>x. map_err f (wr x)) (\<lambda>bs. map_err f (rd bs)) ok norm least"
proof
  fix x assume "ok x"
  then show "\<exists>bs. map_err f (wr x) = Inr bs \<and> least \<le> length bs
    \<and> (\<forall>rest. map_err f (rd (bs @ rest)) = Inr (norm x, rest))"
    using written [of x] by (auto simp: map_err_def)
qed

end

lemma counted_vector_written:
  assumes "codec wr rd ok norm least" "list_all ok xs"
  shows "\<exists>bs. write_all wr xs = Inr bs \<and> length xs * least \<le> length bs
    \<and> (\<forall>rest. read_counted_vector rd (length xs) least (bs @ rest) = Inr (map norm xs, rest))"
proof -
  from codec.vector_written [OF assms] obtain bs where bs: "write_all wr xs = Inr bs" "length xs * least \<le> length bs"
    "\<And>rest. read_times rd (length xs) (bs @ rest) = Inr (map norm xs, rest)"
    by blast
  with codec.vector_fits [OF assms(1) bs(2)] show ?thesis by (auto simp: read_counted_vector_def)
qed

lemma ensure_counted_vector_fits_code [code]:
  "ensure_counted_vector_fits cnt m bs =
     (let remaining = length bs in
      if cnt * m > remaining \<and> int remaining < 18446744073709551615
      then Inl (InvalidCountedVector cnt m remaining) else Inr ())"
  by (auto simp: ensure_counted_vector_fits_def Let_def min_def)

end
