(* ===== verification/Kad_Tag.thy ===== *)
theory Kad_Tag
  imports Kad_Wire
begin

text \<open>
  \<^verbatim>\<open>emulebb-kad-proto/src/tag.rs\<close>: Kad tags and their codec. A 32-bit float is its bit pattern. The
  Windows-1252 decoder of the \<^verbatim>\<open>encoding_rs\<close> package, which is only reached for search results that
  are not valid UTF-8, is the argument \<open>legacy\<close>; the Windows build with its code-page call is not
  modelled.
\<close>

section \<open>Model\<close>

datatype tag_name = Short u8 | Long bytes

datatype tag_value =
    VHash ed2k_hash
  | VString bytes
  | VUInt u64
  | VU64 u64
  | VU32 u32
  | VU16 u16
  | VU8 u8
  | VFloat u32
  | VSmallBlob bytes

datatype tag = Tag (t_name: tag_name) (t_value: tag_value)

datatype string_decode_mode = LossyUtf8 | SearchResult

definition decode_string_bytes :: "(bytes \<Rightarrow> bytes) \<Rightarrow> bytes \<Rightarrow> string_decode_mode \<Rightarrow> bytes" where
  "decode_string_bytes legacy bs mode =
     (case mode of
        LossyUtf8 \<Rightarrow> from_utf8_lossy bs
      | SearchResult \<Rightarrow> if utf8_valid bs then bs else legacy bs)"

definition new_short :: "u8 \<Rightarrow> tag_value \<Rightarrow> tag" where
  "new_short name_byte value = Tag (Short name_byte) value"

definition new_long :: "bytes \<Rightarrow> tag_value \<Rightarrow> tag" where
  "new_long name value = Tag (Long name) value"

definition tag_validate_wire_counts :: "tag \<Rightarrow> proto_error + unit" where
  "tag_validate_wire_counts t =
     try_bind (case t_name t of
                 Long name \<Rightarrow> try_bind (wire_count_u16 ''Tag.name'' (length name)) (\<lambda>_. Inr ())
               | Short _ \<Rightarrow> Inr ())
       (\<lambda>_. case t_value t of
              VString v \<Rightarrow> try_bind (wire_count_u16 ''Tag.string'' (length v)) (\<lambda>_. Inr ())
            | VSmallBlob v \<Rightarrow> try_bind (wire_count_u8 ''Tag.small_blob'' (length v)) (\<lambda>_. Inr ())
            | _ \<Rightarrow> Inr ())"

definition FT_FILENAME :: u8 where "FT_FILENAME = 0x01"
definition FT_FILESIZE :: u8 where "FT_FILESIZE = 0x02"
definition FT_FILETYPE :: u8 where "FT_FILETYPE = 0x03"
definition FT_SOURCES :: u8 where "FT_SOURCES = 0x15"
definition FT_KADAICHHASHPUB :: u8 where "FT_KADAICHHASHPUB = 0x36"

definition tag_filename :: "bytes \<Rightarrow> tag" where
  "tag_filename name = new_short FT_FILENAME (VString name)"

definition tag_filesize :: "u64 \<Rightarrow> tag" where
  "tag_filesize sz = new_short FT_FILESIZE (VUInt sz)"

definition tag_filetype :: "bytes \<Rightarrow> tag" where
  "tag_filetype t = new_short FT_FILETYPE (VString t)"

definition tag_sources :: "u32 \<Rightarrow> tag" where
  "tag_sources n = new_short FT_SOURCES (VUInt (ucast n))"

definition kad_aich_hash_pub :: "bytes \<Rightarrow> tag" where
  "kad_aich_hash_pub h = new_short FT_KADAICHHASHPUB (VSmallBlob h)"

definition value_type_byte :: "tag_value \<Rightarrow> u8" where
  "value_type_byte v =
     (case v of
        VHash _ \<Rightarrow> 0x01
      | VString _ \<Rightarrow> 0x02
      | VUInt x \<Rightarrow> if x \<le> 0xFF then 0x09 else if x \<le> 0xFFFF then 0x08 else if x \<le> 0xFFFFFFFF then 0x03 else 0x0B
      | VU32 _ \<Rightarrow> 0x03
      | VFloat _ \<Rightarrow> 0x04
      | VSmallBlob _ \<Rightarrow> 0x0A
      | VU16 _ \<Rightarrow> 0x08
      | VU8 _ \<Rightarrow> 0x09
      | VU64 _ \<Rightarrow> 0x0B)"

definition read_len_capped_bytes :: "nat \<Rightarrow> bytes reader" where
  "read_len_capped_bytes len bs = (if len > length bs then Inl BIo else read_bytes len bs)"

definition read_tag_value :: "(bytes \<Rightarrow> bytes) \<Rightarrow> string_decode_mode \<Rightarrow> u8 \<Rightarrow> tag_value reader" where
  "read_tag_value legacy mode tag_type =
     (if tag_type = 0x01 then rbind read_ed2k_hash (\<lambda>h. rret (VHash h))
      else if tag_type = 0x02 then
        rbind read_u16 (\<lambda>n. rbind (read_len_capped_bytes (unat n))
          (\<lambda>s. rret (VString (decode_string_bytes legacy s mode))))
      else if tag_type = 0x03 then rbind read_u32 (\<lambda>v. rret (VU32 v))
      else if tag_type = 0x04 then rbind read_u32 (\<lambda>v. rret (VFloat v))
      else if tag_type = 0x08 then rbind read_u16 (\<lambda>v. rret (VU16 v))
      else if tag_type = 0x09 then rbind read_u8 (\<lambda>v. rret (VU8 v))
      else if tag_type = 0x0A then
        rbind read_u8 (\<lambda>n. rbind (read_len_capped_bytes (unat n)) (\<lambda>d. rret (VSmallBlob d)))
      else if tag_type = 0x0B then rbind read_u64 (\<lambda>v. rret (VU64 v))
      else (\<lambda>bs. Inl (BCustom (UnknownTagType tag_type))))"

definition read_with_mode :: "(bytes \<Rightarrow> bytes) \<Rightarrow> string_decode_mode \<Rightarrow> tag reader" where
  "read_with_mode legacy mode =
     rbind read_u8 (\<lambda>tag_type.
     rbind read_u16 (\<lambda>name_len.
     rbind (read_len_capped_bytes (unat name_len)) (\<lambda>name_bytes.
       let name = (if length name_bytes = 1 then Short (name_bytes ! 0)
                   else Long (decode_string_bytes legacy name_bytes mode))
       in rbind (read_tag_value legacy mode tag_type) (\<lambda>value. rret (Tag name value)))))"

definition read_tag :: "(bytes \<Rightarrow> bytes) \<Rightarrow> tag reader" where
  "read_tag legacy = read_with_mode legacy LossyUtf8"

definition write_tag_name :: "tag_name \<Rightarrow> binrw_error + bytes" where
  "write_tag_name name =
     (case name of
        Short b \<Rightarrow> Inr (to_le 2 (1 :: u16) @ [b])
      | Long s \<Rightarrow>
          try_bind (map_err BCustom (wire_count_u16 ''Tag.name'' (length s))) (\<lambda>len. Inr (to_le 2 len @ s)))"

definition write_tag_value :: "tag_value \<Rightarrow> binrw_error + bytes" where
  "write_tag_value v =
     (case v of
        VHash h \<Rightarrow> Inr (write_ed2k_hash h)
      | VString s \<Rightarrow>
          try_bind (map_err BCustom (wire_count_u16 ''Tag.string'' (length s))) (\<lambda>len. Inr (to_le 2 len @ s))
      | VUInt x \<Rightarrow>
          Inr (if x \<le> 0xFF then [ucast x]
               else if x \<le> 0xFFFF then to_le 2 (ucast x :: u16)
               else if x \<le> 0xFFFFFFFF then to_le 4 (ucast x :: u32)
               else to_le 8 x)
      | VU32 x \<Rightarrow> Inr (to_le 4 x)
      | VFloat x \<Rightarrow> Inr (to_le 4 x)
      | VSmallBlob d \<Rightarrow>
          try_bind (map_err BCustom (wire_count_u8 ''Tag.small_blob'' (length d))) (\<lambda>len. Inr (len # d))
      | VU16 x \<Rightarrow> Inr (to_le 2 x)
      | VU8 x \<Rightarrow> Inr [x]
      | VU64 x \<Rightarrow> Inr (to_le 8 x))"

definition write_tag :: "tag \<Rightarrow> binrw_error + bytes" where
  "write_tag t =
     try_bind (map_err BCustom (tag_validate_wire_counts t)) (\<lambda>_.
     try_bind (write_tag_name (t_name t)) (\<lambda>name.
     try_bind (write_tag_value (t_value t)) (\<lambda>value.
       Inr (value_type_byte (t_value t) # name @ value))))"

section \<open>What the reader returns for a written tag\<close>

text \<open>The compact integer form is read back at its width, and a long name of one byte as a short one.\<close>

fun norm_value :: "tag_value \<Rightarrow> tag_value" where
  "norm_value (VUInt x) =
     (if x \<le> 0xFF then VU8 (ucast x) else if x \<le> 0xFFFF then VU16 (ucast x)
      else if x \<le> 0xFFFFFFFF then VU32 (ucast x) else VU64 x)"
| "norm_value v = v"

fun norm_name :: "tag_name \<Rightarrow> tag_name" where
  "norm_name (Long s) = (if length s = 1 then Short (s ! 0) else Long s)"
| "norm_name (Short b) = Short b"

definition norm_tag :: "tag \<Rightarrow> tag" where
  "norm_tag t = Tag (norm_name (t_name t)) (norm_value (t_value t))"

fun name_ok :: "tag_name \<Rightarrow> bool" where
  "name_ok (Long s) \<longleftrightarrow> length s \<le> 65535 \<and> utf8_valid s"
| "name_ok (Short b) \<longleftrightarrow> True"

fun value_ok :: "tag_value \<Rightarrow> bool" where
  "value_ok (VString s) \<longleftrightarrow> length s \<le> 65535 \<and> utf8_valid s"
| "value_ok (VSmallBlob d) \<longleftrightarrow> length d \<le> 255"
| "value_ok _ \<longleftrightarrow> True"

definition tag_ok :: "tag \<Rightarrow> bool" where
  "tag_ok t \<longleftrightarrow> name_ok (t_name t) \<and> value_ok (t_value t)"

lemma decode_valid: "utf8_valid s \<Longrightarrow> decode_string_bytes legacy s mode = s"
  by (cases mode) (simp_all add: decode_string_bytes_def from_utf8_lossy_valid)

lemma unat_count: "n \<le> 65535 \<Longrightarrow> unat (word_of_nat n :: u16) = n" "m \<le> 255 \<Longrightarrow> unat (word_of_nat m :: u8) = m"
  by (simp_all add: unat_of_nat take_bit_nat_eq_self)

lemma read_len_capped_append [wire_roundtrip]:
  "length xs = n \<Longrightarrow> read_len_capped_bytes n (xs @ rest) = Inr (xs, rest)"
  by (simp add: read_len_capped_bytes_def read_bytes_append)

lemma wire_count_ok:
  "n \<le> 65535 \<Longrightarrow> wire_count_u16 field n = Inr (word_of_nat n)"
  "m \<le> 255 \<Longrightarrow> wire_count_u8 field m = Inr (word_of_nat m)"
  by (simp_all add: wire_count_u16_def wire_count_u8_def)

lemma name_written:
  assumes "name_ok name"
  shows "\<exists>len raw. write_tag_name name = Inr (to_le 2 len @ raw) \<and> length raw = unat (len :: u16)
    \<and> (if length raw = 1 then Short (raw ! 0) else Long (decode_string_bytes legacy raw mode)) = norm_name name"
proof (cases name)
  case (Short b)
  then show ?thesis by (intro exI [of _ 1] exI [of _ "[b]"]) (simp add: write_tag_name_def)
next
  case (Long s)
  with assms show ?thesis
    by (intro exI [of _ "word_of_nat (length s)"] exI [of _ s])
      (simp add: write_tag_name_def wire_count_ok map_err_def unat_count decode_valid)
qed

lemma value_written:
  assumes "value_ok v"
  shows "\<exists>bs. write_tag_value v = Inr bs \<and> 1 \<le> length bs
    \<and> (\<forall>rest. read_tag_value legacy mode (value_type_byte v) (bs @ rest) = Inr (norm_value v, rest))"
  using assms
  by (cases v)
    (simp_all add: write_tag_value_def value_type_byte_def read_tag_value_def wire_count_ok map_err_def
      rbind_def unat_count decode_valid wire_roundtrip)

lemma tag_written:
  assumes "tag_ok t"
  shows "\<exists>bs. write_tag t = Inr bs \<and> 4 \<le> length bs
    \<and> (\<forall>rest. read_with_mode legacy mode (bs @ rest) = Inr (norm_tag t, rest))"
proof -
  obtain len raw where name: "write_tag_name (t_name t) = Inr (to_le 2 len @ raw)" "length raw = unat (len :: u16)"
    "(if length raw = 1 then Short (raw ! 0) else Long (decode_string_bytes legacy raw mode)) = norm_name (t_name t)"
    using name_written [of "t_name t" legacy mode] assms by (auto simp: tag_ok_def)
  obtain bs where val: "write_tag_value (t_value t) = Inr bs" "1 \<le> length bs"
    "\<And>rest. read_tag_value legacy mode (value_type_byte (t_value t)) (bs @ rest) = Inr (norm_value (t_value t), rest)"
    using value_written [of "t_value t" legacy mode] assms by (auto simp: tag_ok_def)
  have "tag_validate_wire_counts t = Inr ()"
    using assms
    by (cases "t_name t"; cases "t_value t") (simp_all add: tag_validate_wire_counts_def tag_ok_def wire_count_ok)
  with name val show ?thesis
    by (simp add: write_tag_def map_err_def read_with_mode_def rbind_def wire_roundtrip norm_tag_def Let_def)
qed

interpretation tag_codec: codec write_tag "read_with_mode legacy mode" tag_ok norm_tag 4 for legacy mode
  by unfold_locales (rule tag_written)

interpretation plain_tag_codec: codec write_tag "read_tag legacy" tag_ok norm_tag 4 for legacy
  unfolding read_tag_def by (rule tag_codec.codec_axioms)

section \<open>Well-formed strings\<close>

text \<open>The invariant of \<^verbatim>\<open>String\<close> on the strings of a tag.\<close>

fun name_utf8 :: "tag_name \<Rightarrow> bool" where
  "name_utf8 (Long s) \<longleftrightarrow> utf8_valid s"
| "name_utf8 (Short b) \<longleftrightarrow> True"

fun value_utf8 :: "tag_value \<Rightarrow> bool" where
  "value_utf8 (VString s) \<longleftrightarrow> utf8_valid s"
| "value_utf8 v \<longleftrightarrow> True"

definition tag_utf8 :: "tag \<Rightarrow> bool" where
  "tag_utf8 t \<longleftrightarrow> name_utf8 (t_name t) \<and> value_utf8 (t_value t)"

text \<open>The contract of the Windows-1252 decoder: its result is a \<^verbatim>\<open>String\<close>.\<close>

definition decoder_utf8 :: "(bytes \<Rightarrow> bytes) \<Rightarrow> bool" where
  "decoder_utf8 legacy \<longleftrightarrow> (\<forall>b. utf8_valid (legacy b))"

lemma decode_string_utf8:
  "decoder_utf8 legacy \<Longrightarrow> utf8_valid (decode_string_bytes legacy bs mode)"
  by (cases mode) (auto simp: decode_string_bytes_def utf8_valid_lossy decoder_utf8_def)

lemma read_value_utf8:
  "decoder_utf8 legacy \<Longrightarrow> read_tag_value legacy mode ty bs = Inr (v, rest) \<Longrightarrow> value_utf8 v"
  by (auto simp: read_tag_value_def rbind_def decode_string_utf8 split: if_splits sum.splits)

lemma read_tag_utf8:
  "decoder_utf8 legacy \<Longrightarrow> read_with_mode legacy mode bs = Inr (t, rest) \<Longrightarrow> tag_utf8 t"
  by (auto simp: read_with_mode_def rbind_def Let_def tag_utf8_def decode_string_utf8
      split: if_splits sum.splits) (blast intro: read_value_utf8)+

end
