(* ===== verification/Kad_Packet_Types.thy ===== *)
theory Kad_Packet_Types
  imports Kad_Tag
begin

text \<open>
  \<^verbatim>\<open>emulebb-kad-proto/src/packet/types.rs\<close> and \<^verbatim>\<open>packet/codec.rs\<close>: the structures of the Kad2 packet
  bodies, with a reader and a writer for each. Derived codecs fail with a \<^verbatim>\<open>binrw\<close> error, the hand-written
  ones of \<^verbatim>\<open>codec.rs\<close> with a \<open>proto_error\<close>.
\<close>

section \<open>Structures\<close>

datatype contact_entry = ContactEntry
  (ce_node_id: node_id) (ce_ip: u32) (ce_udp_port: u16) (ce_tcp_port: u16) (ce_version: u8)

datatype bootstrap_res = BootstrapRes
  (br_sender_id: node_id) (br_sender_tcp_port: u16) (br_sender_version: u8) (br_contacts: "contact_entry list")

datatype hello_req = HelloReq (hq_node_id: node_id) (hq_tcp_port: u16) (hq_version: u8) (hq_tags: "tag list")

datatype hello_res = HelloRes (hr_node_id: node_id) (hr_tcp_port: u16) (hr_version: u8) (hr_tags: "tag list")

datatype hello_res_ack = HelloResAck (ha_node_id: node_id) (ha_tags: "tag list")

datatype req = Req (rq_count: u8) (rq_target: node_id) (rq_recipient_id: node_id)

datatype res = Res (rs_target: node_id) (rs_contacts: "contact_entry list")

datatype search_key_req = SearchKeyReq
  (sk_target: node_id) (sk_start_position: u16) (sk_restrictive_payload: bytes)

datatype search_source_req = SearchSourceReq (ss_target: node_id) (ss_start_position: u16) (ss_size: u64)

datatype search_notes_req = SearchNotesReq (sn_target: node_id) (sn_size: u64)

datatype legacy_search_kind = Keyword bytes | Source

datatype legacy_search_req = LegacySearchReq (ls_target: node_id) (ls_kind: legacy_search_kind)

datatype legacy_search_notes_req = LegacySearchNotesReq (ln_target: node_id) (ln_requester_id: node_id)

datatype search_result_entry = SearchResultEntry (se_entry_id: ed2k_hash) (se_tags: "tag list")

datatype search_res = SearchRes
  (sr_sender_id: node_id) (sr_target: node_id) (sr_results: "search_result_entry list")

datatype legacy_search_res = LegacySearchRes (lr_target: node_id) (lr_results: "search_result_entry list")

datatype publish_entry = PublishEntry (pe_hash: ed2k_hash) (pe_tags: "tag list")

datatype publish_key_req = PublishKeyReq (pk_target: node_id) (pk_entries: "publish_entry list")

datatype publish_source_req = PublishSourceReq
  (ps_target: node_id) (ps_publisher_id: node_id) (ps_tags: "tag list")

datatype publish_notes_req = PublishNotesReq
  (pn_target: node_id) (pn_publisher_id: node_id) (pn_tags: "tag list")

datatype publish_res = PublishRes (pr_target: node_id) (pr_load: u8) (pr_options: "u8 option")

datatype legacy_publish_res = LegacyPublishRes (lp_target: node_id) (lp_load: "u8 option")

datatype firewalled_req = FirewalledReq (fq_tcp_port: u16)

datatype firewalled2_req = Firewalled2Req
  (f2_tcp_port: u16) (f2_user_hash: ed2k_hash) (f2_connect_options: u8)

datatype firewalled_res = FirewalledRes (fr_ip: u32)

datatype firewall_udp = FirewallUdp (fu_error_code: u8) (fu_udp_port: u16)

datatype find_buddy_req = FindBuddyReq (bq_buddy_id: node_id) (bq_client_hash: ed2k_hash) (bq_tcp_port: u16)

datatype find_buddy_res = FindBuddyRes
  (bs_buddy_id: node_id) (bs_client_hash: ed2k_hash) (bs_tcp_port: u16) (bs_connect_options: "u8 option")

datatype callback_req = CallbackReq (cb_buddy_id: node_id) (cb_file_hash: ed2k_hash) (cb_tcp_port: u16)

datatype pong = Pong (po_udp_port: u16)

section \<open>Derived codecs (types.rs)\<close>

definition read_tags :: "(bytes \<Rightarrow> bytes) \<Rightarrow> tag list reader" where
  "read_tags legacy = rbind read_u8 (\<lambda>tag_count. read_counted_vector (read_tag legacy) (unat tag_count) 4)"

definition write_tags :: "string \<Rightarrow> tag list \<Rightarrow> binrw_error + bytes" where
  "write_tags field tags =
     try_bind (map_err BCustom (wire_count_u8 field (length tags))) (\<lambda>tag_count.
     try_bind (write_all write_tag tags) (\<lambda>bs. Inr (tag_count # bs)))"

definition read_contact_entry :: "contact_entry reader" where
  "read_contact_entry =
     rbind read_node_id (\<lambda>node_id. rbind read_u32 (\<lambda>ip. rbind read_u16 (\<lambda>udp_port.
     rbind read_u16 (\<lambda>tcp_port. rbind read_u8 (\<lambda>version.
       rret (ContactEntry node_id ip udp_port tcp_port version))))))"

definition write_contact_entry :: "contact_entry \<Rightarrow> binrw_error + bytes" where
  "write_contact_entry c =
     Inr (write_node_id (ce_node_id c) @ to_le 4 (ce_ip c) @ to_le 2 (ce_udp_port c)
          @ to_le 2 (ce_tcp_port c) @ [ce_version c])"

text \<open>The address has the most significant octet first.\<close>

definition ip_addr :: "contact_entry \<Rightarrow> bytes" where
  "ip_addr c = rev (to_le 4 (ce_ip c))"

definition read_bootstrap_res :: "bootstrap_res reader" where
  "read_bootstrap_res =
     rbind read_node_id (\<lambda>sender_id. rbind read_u16 (\<lambda>tcp_port. rbind read_u8 (\<lambda>version.
     rbind read_u16 (\<lambda>cnt. rbind (read_counted_vector read_contact_entry (unat cnt) 25) (\<lambda>cs.
       rret (BootstrapRes sender_id tcp_port version cs))))))"

definition write_bootstrap_res :: "bootstrap_res \<Rightarrow> binrw_error + bytes" where
  "write_bootstrap_res p =
     try_bind (map_err BCustom (wire_count_u16 ''BootstrapRes.contacts'' (length (br_contacts p)))) (\<lambda>cnt.
     try_bind (write_all write_contact_entry (br_contacts p)) (\<lambda>cs.
       Inr (write_node_id (br_sender_id p) @ to_le 2 (br_sender_tcp_port p) @ [br_sender_version p]
            @ to_le 2 cnt @ cs)))"

definition read_hello_req :: "(bytes \<Rightarrow> bytes) \<Rightarrow> hello_req reader" where
  "read_hello_req legacy =
     rbind read_node_id (\<lambda>node_id. rbind read_u16 (\<lambda>tcp_port. rbind read_u8 (\<lambda>version.
     rbind (read_tags legacy) (\<lambda>tags. rret (HelloReq node_id tcp_port version tags)))))"

definition write_hello_req :: "hello_req \<Rightarrow> binrw_error + bytes" where
  "write_hello_req p =
     try_bind (write_tags ''HelloReq.tags'' (hq_tags p)) (\<lambda>tags.
       Inr (write_node_id (hq_node_id p) @ to_le 2 (hq_tcp_port p) @ [hq_version p] @ tags))"

definition read_hello_res :: "(bytes \<Rightarrow> bytes) \<Rightarrow> hello_res reader" where
  "read_hello_res legacy =
     rbind read_node_id (\<lambda>node_id. rbind read_u16 (\<lambda>tcp_port. rbind read_u8 (\<lambda>version.
     rbind (read_tags legacy) (\<lambda>tags. rret (HelloRes node_id tcp_port version tags)))))"

definition write_hello_res :: "hello_res \<Rightarrow> binrw_error + bytes" where
  "write_hello_res p =
     try_bind (write_tags ''HelloRes.tags'' (hr_tags p)) (\<lambda>tags.
       Inr (write_node_id (hr_node_id p) @ to_le 2 (hr_tcp_port p) @ [hr_version p] @ tags))"

definition read_hello_res_ack :: "(bytes \<Rightarrow> bytes) \<Rightarrow> hello_res_ack reader" where
  "read_hello_res_ack legacy =
     rbind read_node_id (\<lambda>node_id. rbind (read_tags legacy) (\<lambda>tags. rret (HelloResAck node_id tags)))"

definition write_hello_res_ack :: "hello_res_ack \<Rightarrow> binrw_error + bytes" where
  "write_hello_res_ack p =
     try_bind (write_tags ''HelloResAck.tags'' (ha_tags p)) (\<lambda>tags. Inr (write_node_id (ha_node_id p) @ tags))"

definition read_req :: "req reader" where
  "read_req =
     rbind read_u8 (\<lambda>cnt. rbind read_node_id (\<lambda>target. rbind read_node_id (\<lambda>recipient_id.
       rret (Req cnt target recipient_id))))"

definition write_req :: "req \<Rightarrow> bytes" where
  "write_req p = [rq_count p] @ write_node_id (rq_target p) @ write_node_id (rq_recipient_id p)"

definition read_res :: "res reader" where
  "read_res =
     rbind read_node_id (\<lambda>target. rbind read_u8 (\<lambda>cnt.
     rbind (read_counted_vector read_contact_entry (unat cnt) 25) (\<lambda>cs. rret (Res target cs))))"

definition write_res :: "res \<Rightarrow> binrw_error + bytes" where
  "write_res p =
     try_bind (map_err BCustom (wire_count_u8 ''Res.contacts'' (length (rs_contacts p)))) (\<lambda>cnt.
     try_bind (write_all write_contact_entry (rs_contacts p)) (\<lambda>cs.
       Inr (write_node_id (rs_target p) @ [cnt] @ cs)))"

definition read_search_notes_req :: "search_notes_req reader" where
  "read_search_notes_req =
     rbind read_node_id (\<lambda>target. rbind read_u64 (\<lambda>sz. rret (SearchNotesReq target sz)))"

definition write_search_notes_req :: "search_notes_req \<Rightarrow> bytes" where
  "write_search_notes_req p = write_node_id (sn_target p) @ to_le 8 (sn_size p)"

definition write_legacy_search_notes_req :: "legacy_search_notes_req \<Rightarrow> bytes" where
  "write_legacy_search_notes_req p = write_node_id (ln_target p) @ write_node_id (ln_requester_id p)"

definition read_publish_entry :: "(bytes \<Rightarrow> bytes) \<Rightarrow> publish_entry reader" where
  "read_publish_entry legacy =
     rbind read_ed2k_hash (\<lambda>h. rbind (read_tags legacy) (\<lambda>tags. rret (PublishEntry h tags)))"

definition write_publish_entry :: "publish_entry \<Rightarrow> binrw_error + bytes" where
  "write_publish_entry p =
     try_bind (write_tags ''PublishEntry.tags'' (pe_tags p)) (\<lambda>tags. Inr (write_ed2k_hash (pe_hash p) @ tags))"

definition read_publish_key_req :: "(bytes \<Rightarrow> bytes) \<Rightarrow> publish_key_req reader" where
  "read_publish_key_req legacy =
     rbind read_node_id (\<lambda>target. rbind read_u16 (\<lambda>cnt.
     rbind (read_counted_vector (read_publish_entry legacy) (unat cnt) 17) (\<lambda>entries.
       rret (PublishKeyReq target entries))))"

definition write_publish_key_req :: "publish_key_req \<Rightarrow> binrw_error + bytes" where
  "write_publish_key_req p =
     try_bind (map_err BCustom (wire_count_u16 ''PublishKeyReq.entries'' (length (pk_entries p)))) (\<lambda>cnt.
     try_bind (write_all write_publish_entry (pk_entries p)) (\<lambda>entries.
       Inr (write_node_id (pk_target p) @ to_le 2 cnt @ entries)))"

definition read_publish_source_req :: "(bytes \<Rightarrow> bytes) \<Rightarrow> publish_source_req reader" where
  "read_publish_source_req legacy =
     rbind read_node_id (\<lambda>target. rbind read_node_id (\<lambda>publisher_id.
     rbind (read_tags legacy) (\<lambda>tags. rret (PublishSourceReq target publisher_id tags))))"

definition write_publish_source_req :: "publish_source_req \<Rightarrow> binrw_error + bytes" where
  "write_publish_source_req p =
     try_bind (write_tags ''PublishSourceReq.tags'' (ps_tags p)) (\<lambda>tags.
       Inr (write_node_id (ps_target p) @ write_node_id (ps_publisher_id p) @ tags))"

definition read_publish_notes_req :: "(bytes \<Rightarrow> bytes) \<Rightarrow> publish_notes_req reader" where
  "read_publish_notes_req legacy =
     rbind read_node_id (\<lambda>target. rbind read_node_id (\<lambda>publisher_id.
     rbind (read_tags legacy) (\<lambda>tags. rret (PublishNotesReq target publisher_id tags))))"

definition write_publish_notes_req :: "publish_notes_req \<Rightarrow> binrw_error + bytes" where
  "write_publish_notes_req p =
     try_bind (write_tags ''PublishNotesReq.tags'' (pn_tags p)) (\<lambda>tags.
       Inr (write_node_id (pn_target p) @ write_node_id (pn_publisher_id p) @ tags))"

definition read_firewalled_req :: "firewalled_req reader" where
  "read_firewalled_req = rbind read_u16 (\<lambda>tcp_port. rret (FirewalledReq tcp_port))"

definition write_firewalled_req :: "firewalled_req \<Rightarrow> bytes" where
  "write_firewalled_req p = to_le 2 (fq_tcp_port p)"

definition read_firewalled2_req :: "firewalled2_req reader" where
  "read_firewalled2_req =
     rbind read_u16 (\<lambda>tcp_port. rbind read_ed2k_hash (\<lambda>user_hash. rbind read_u8 (\<lambda>connect_options.
       rret (Firewalled2Req tcp_port user_hash connect_options))))"

definition write_firewalled2_req :: "firewalled2_req \<Rightarrow> bytes" where
  "write_firewalled2_req p = to_le 2 (f2_tcp_port p) @ write_ed2k_hash (f2_user_hash p) @ [f2_connect_options p]"

definition read_firewalled_res :: "firewalled_res reader" where
  "read_firewalled_res = rbind read_u32 (\<lambda>ip. rret (FirewalledRes ip))"

definition write_firewalled_res :: "firewalled_res \<Rightarrow> bytes" where
  "write_firewalled_res p = to_le 4 (fr_ip p)"

definition read_firewall_udp :: "firewall_udp reader" where
  "read_firewall_udp = rbind read_u8 (\<lambda>error_code. rbind read_u16 (\<lambda>udp_port. rret (FirewallUdp error_code udp_port)))"

definition write_firewall_udp :: "firewall_udp \<Rightarrow> bytes" where
  "write_firewall_udp p = [fu_error_code p] @ to_le 2 (fu_udp_port p)"

definition read_pong :: "pong reader" where
  "read_pong = rbind read_u16 (\<lambda>udp_port. rret (Pong udp_port))"

definition write_pong :: "pong \<Rightarrow> bytes" where
  "write_pong p = to_le 2 (po_udp_port p)"

section \<open>Hand-written codecs (codec.rs)\<close>

text \<open>The question mark operator on a \<^verbatim>\<open>binrw\<close> result.\<close>

definition lift_read :: "'a reader \<Rightarrow> bytes \<Rightarrow> proto_error + 'a \<times> bytes" where
  "lift_read r bs = map_err from_binrw (r bs)"

type_synonym 'a preader = "bytes \<Rightarrow> proto_error + 'a \<times> bytes"

definition read_kad_uint128_hash :: "ed2k_hash preader" where
  "read_kad_uint128_hash =
     rbind (lift_read read_node_id) (\<lambda>wire. rret (from_kad_uint128_wire_bytes (wire_bytes wire)))"

definition write_kad_uint128_hash :: "ed2k_hash \<Rightarrow> bytes" where
  "write_kad_uint128_hash h = write_node_id (NodeId (to_kad_uint128_wire_bytes h))"

definition ensure_fits :: "nat \<Rightarrow> nat \<Rightarrow> unit preader" where
  "ensure_fits cnt minimum_element_size bs =
     try_bind (ensure_counted_vector_fits cnt minimum_element_size bs) (\<lambda>_. Inr ((), bs))"

definition read_search_result_entry :: "(bytes \<Rightarrow> bytes) \<Rightarrow> search_result_entry preader" where
  "read_search_result_entry legacy =
     rbind read_kad_uint128_hash (\<lambda>entry_id.
     rbind (lift_read read_u8) (\<lambda>tag_count.
     rbind (ensure_fits (unat tag_count) 4) (\<lambda>_.
     rbind (read_times (lift_read (read_with_mode legacy SearchResult)) (unat tag_count)) (\<lambda>tags.
       rret (SearchResultEntry entry_id tags)))))"

definition read_search_result_entries :: "(bytes \<Rightarrow> bytes) \<Rightarrow> u16 \<Rightarrow> search_result_entry list preader" where
  "read_search_result_entries legacy cnt =
     rbind (ensure_fits (unat cnt) 17) (\<lambda>_. read_times (read_search_result_entry legacy) (unat cnt))"

definition read_search_res :: "(bytes \<Rightarrow> bytes) \<Rightarrow> search_res preader" where
  "read_search_res legacy =
     rbind (lift_read read_node_id) (\<lambda>sender_id. rbind (lift_read read_node_id) (\<lambda>target.
     rbind (lift_read read_u16) (\<lambda>cnt. rbind (read_search_result_entries legacy cnt) (\<lambda>results.
       rret (SearchRes sender_id target results)))))"

definition read_legacy_search_res :: "(bytes \<Rightarrow> bytes) \<Rightarrow> legacy_search_res preader" where
  "read_legacy_search_res legacy =
     rbind (lift_read read_node_id) (\<lambda>target. rbind (lift_read read_u16) (\<lambda>cnt.
     rbind (read_search_result_entries legacy cnt) (\<lambda>results. rret (LegacySearchRes target results))))"

definition write_search_result_entry :: "search_result_entry \<Rightarrow> proto_error + bytes" where
  "write_search_result_entry r =
     try_bind (wire_count_u8 ''SearchResultEntry.tags'' (length (se_tags r))) (\<lambda>tag_count.
     try_bind (write_all (\<lambda>t. map_err from_binrw (write_tag t)) (se_tags r)) (\<lambda>tags.
       Inr (write_kad_uint128_hash (se_entry_id r) @ [tag_count] @ tags)))"

definition write_search_res :: "search_res \<Rightarrow> proto_error + bytes" where
  "write_search_res p =
     try_bind (wire_count_u16 ''SearchRes.results'' (length (sr_results p))) (\<lambda>cnt.
     try_bind (write_all write_search_result_entry (sr_results p)) (\<lambda>results.
       Inr (write_node_id (sr_sender_id p) @ write_node_id (sr_target p) @ to_le 2 cnt @ results)))"

definition write_legacy_search_res :: "legacy_search_res \<Rightarrow> proto_error + bytes" where
  "write_legacy_search_res p =
     try_bind (wire_count_u16 ''LegacySearchRes.results'' (length (lr_results p))) (\<lambda>cnt.
     try_bind (write_all write_search_result_entry (lr_results p)) (\<lambda>results.
       Inr (write_node_id (lr_target p) @ to_le 2 cnt @ results)))"

definition read_find_buddy_req :: "find_buddy_req preader" where
  "read_find_buddy_req =
     rbind (lift_read read_node_id) (\<lambda>buddy_id. rbind read_kad_uint128_hash (\<lambda>client_hash.
     rbind (lift_read read_u16) (\<lambda>tcp_port. rret (FindBuddyReq buddy_id client_hash tcp_port))))"

definition write_find_buddy_req :: "find_buddy_req \<Rightarrow> bytes" where
  "write_find_buddy_req p =
     write_node_id (bq_buddy_id p) @ write_kad_uint128_hash (bq_client_hash p) @ to_le 2 (bq_tcp_port p)"

text \<open>The optional last byte, read when the cursor is not at the end.\<close>

definition read_trailing_u8 :: "u8 option preader" where
  "read_trailing_u8 bs = (if bs = [] then Inr (None, bs) else rbind (lift_read read_u8) (\<lambda>b. rret (Some b)) bs)"

definition write_trailing_u8 :: "u8 option \<Rightarrow> bytes" where
  "write_trailing_u8 b = (case b of None \<Rightarrow> [] | Some v \<Rightarrow> [v])"

definition read_find_buddy_res :: "find_buddy_res preader" where
  "read_find_buddy_res =
     rbind (lift_read read_node_id) (\<lambda>buddy_id. rbind read_kad_uint128_hash (\<lambda>client_hash.
     rbind (lift_read read_u16) (\<lambda>tcp_port. rbind read_trailing_u8 (\<lambda>connect_options.
       rret (FindBuddyRes buddy_id client_hash tcp_port connect_options)))))"

definition write_find_buddy_res :: "find_buddy_res \<Rightarrow> bytes" where
  "write_find_buddy_res p =
     write_node_id (bs_buddy_id p) @ write_kad_uint128_hash (bs_client_hash p) @ to_le 2 (bs_tcp_port p)
     @ write_trailing_u8 (bs_connect_options p)"

definition read_callback_req :: "callback_req preader" where
  "read_callback_req =
     rbind (lift_read read_node_id) (\<lambda>buddy_id. rbind read_kad_uint128_hash (\<lambda>file_hash.
     rbind (lift_read read_u16) (\<lambda>tcp_port. rret (CallbackReq buddy_id file_hash tcp_port))))"

definition write_callback_req :: "callback_req \<Rightarrow> bytes" where
  "write_callback_req p =
     write_node_id (cb_buddy_id p) @ write_kad_uint128_hash (cb_file_hash p) @ to_le 2 (cb_tcp_port p)"

definition read_publish_res :: "publish_res preader" where
  "read_publish_res =
     rbind (lift_read read_node_id) (\<lambda>target. rbind (lift_read read_u8) (\<lambda>load.
     rbind read_trailing_u8 (\<lambda>options. rret (PublishRes target load options))))"

definition write_publish_res :: "publish_res \<Rightarrow> bytes" where
  "write_publish_res p = write_node_id (pr_target p) @ [pr_load p] @ write_trailing_u8 (pr_options p)"

definition read_legacy_publish_res :: "legacy_publish_res preader" where
  "read_legacy_publish_res =
     rbind (lift_read read_node_id) (\<lambda>target. rbind read_trailing_u8 (\<lambda>load. rret (LegacyPublishRes target load)))"

definition write_legacy_publish_res :: "legacy_publish_res \<Rightarrow> bytes" where
  "write_legacy_publish_res p = write_node_id (lp_target p) @ write_trailing_u8 (lp_load p)"

definition write_legacy_publish_source_req :: "publish_source_req \<Rightarrow> proto_error + bytes" where
  "write_legacy_publish_source_req p =
     try_bind (wire_count_u8 ''LegacyPublishSourceReq.tags'' (length (ps_tags p))) (\<lambda>tag_count.
     try_bind (write_all (\<lambda>t. map_err from_binrw (write_tag t)) (ps_tags p)) (\<lambda>tags.
       Inr (write_node_id (ps_target p) @ to_le 2 (1 :: u16) @ write_node_id (ps_publisher_id p)
            @ [tag_count] @ tags)))"

definition write_legacy_search_req :: "legacy_search_req \<Rightarrow> bytes" where
  "write_legacy_search_req p =
     write_node_id (ls_target p)
     @ (case ls_kind p of
          Keyword payload \<Rightarrow> if payload = [] then [0, 0] else [2] @ payload
        | Source \<Rightarrow> [1])"

definition read_search_key_req :: "search_key_req preader" where
  "read_search_key_req =
     rbind (lift_read read_node_id) (\<lambda>target. rbind (lift_read read_u16) (\<lambda>start_position.
       (\<lambda>bs. Inr (SearchKeyReq target start_position bs, []))))"

definition write_search_key_req :: "search_key_req \<Rightarrow> bytes" where
  "write_search_key_req p =
     write_node_id (sk_target p) @ to_le 2 (sk_start_position p) @ sk_restrictive_payload p"

definition read_search_source_req :: "search_source_req preader" where
  "read_search_source_req =
     rbind (lift_read read_node_id) (\<lambda>target bs.
       let remaining = length bs in
       if remaining = 4 then rbind (lift_read read_u32) (\<lambda>sz. rret (SearchSourceReq target 0 (ucast sz))) bs
       else if remaining = 8 then rbind (lift_read read_u64) (\<lambda>sz. rret (SearchSourceReq target 0 sz)) bs
       else if remaining = 10 then
         rbind (lift_read read_u16) (\<lambda>start. rbind (lift_read read_u64) (\<lambda>sz.
           rret (SearchSourceReq target (start AND 0x7FFF) sz))) bs
       else Inl BufferTooShort)"

definition write_search_source_req :: "search_source_req \<Rightarrow> bytes" where
  "write_search_source_req p =
     write_node_id (ss_target p) @ to_le 2 (ss_start_position p) @ to_le 8 (ss_size p)"

section \<open>Element codecs\<close>

definition tags_ok :: "tag list \<Rightarrow> bool" where
  "tags_ok tags \<longleftrightarrow> length tags \<le> 255 \<and> list_all tag_ok tags"

lemma contact_entry_written:
  "\<exists>bs. write_contact_entry c = Inr bs \<and> 25 \<le> length bs \<and> (\<forall>rest. read_contact_entry (bs @ rest) = Inr (c, rest))"
  by (cases c) (simp add: write_contact_entry_def read_contact_entry_def rbind_def wire_roundtrip)

interpretation contact_codec: codec write_contact_entry read_contact_entry "\<lambda>_. True" "\<lambda>c. c" 25
  by unfold_locales (rule contact_entry_written)

lemma tags_written:
  assumes "tags_ok tags"
  shows "\<exists>bs. write_tags field tags = Inr bs \<and> 1 \<le> length bs
    \<and> (\<forall>rest. read_tags legacy (bs @ rest) = Inr (map norm_tag tags, rest))"
proof -
  have ok: "list_all tag_ok tags" and len: "length tags \<le> 255"
    using assms by (simp_all add: tags_ok_def)
  from counted_vector_written [OF plain_tag_codec.codec_axioms ok, of legacy] len
  show ?thesis
    by (auto simp: write_tags_def read_tags_def rbind_def wire_roundtrip wire_count_ok map_err_def unat_count)
qed

definition norm_publish_entry :: "publish_entry \<Rightarrow> publish_entry" where
  "norm_publish_entry e = PublishEntry (pe_hash e) (map norm_tag (pe_tags e))"

definition norm_search_result_entry :: "search_result_entry \<Rightarrow> search_result_entry" where
  "norm_search_result_entry e = SearchResultEntry (se_entry_id e) (map norm_tag (se_tags e))"

lemma publish_entry_written:
  assumes "tags_ok (pe_tags e)"
  shows "\<exists>bs. write_publish_entry e = Inr bs \<and> 17 \<le> length bs
    \<and> (\<forall>rest. read_publish_entry legacy (bs @ rest) = Inr (norm_publish_entry e, rest))"
  using tags_written [OF assms, of "''PublishEntry.tags''" legacy]
  by (auto simp: write_publish_entry_def read_publish_entry_def norm_publish_entry_def rbind_def wire_roundtrip)

interpretation publish_codec: codec write_publish_entry "read_publish_entry legacy" "\<lambda>e. tags_ok (pe_tags e)"
  norm_publish_entry 17 for legacy
  by unfold_locales (rule publish_entry_written)

lemma lift_read_Inr [wire_roundtrip]: "r bs = Inr x \<Longrightarrow> lift_read r bs = Inr x"
  by (simp add: lift_read_def map_err_def)

lemma read_kad_hash_append [wire_roundtrip]: "read_kad_uint128_hash (write_kad_uint128_hash h @ rest) = Inr (h, rest)"
  by (simp add: read_kad_uint128_hash_def write_kad_uint128_hash_def rbind_def wire_roundtrip)

lemma length_write_kad_hash [simp]: "length (write_kad_uint128_hash h) = 16"
  by (simp add: write_kad_uint128_hash_def)

interpretation result_tag_codec: codec "\<lambda>t. map_err from_binrw (write_tag t)"
  "lift_read (read_with_mode legacy SearchResult)" tag_ok norm_tag 4 for legacy
  using tag_codec.mapped [of from_binrw legacy SearchResult] by (simp add: lift_read_def [abs_def])

lemma ensure_fits_Inr: "ensure_counted_vector_fits n m bs = Inr () \<Longrightarrow> ensure_fits n m bs = Inr ((), bs)"
  by (simp add: ensure_fits_def)

lemma search_result_entry_written:
  assumes "tags_ok (se_tags e)"
  shows "\<exists>bs. write_search_result_entry e = Inr bs \<and> 17 \<le> length bs
    \<and> (\<forall>rest. read_search_result_entry legacy (bs @ rest) = Inr (norm_search_result_entry e, rest))"
proof -
  have ok: "list_all tag_ok (se_tags e)" and len: "length (se_tags e) \<le> 255"
    using assms by (simp_all add: tags_ok_def)
  from result_tag_codec.vector_written [OF ok, of legacy] obtain bs
    where bs: "write_all (\<lambda>t. map_err from_binrw (write_tag t)) (se_tags e) = Inr bs"
      "length (se_tags e) * 4 \<le> length bs"
      "\<And>rest. read_times (lift_read (read_with_mode legacy SearchResult)) (length (se_tags e)) (bs @ rest)
         = Inr (map norm_tag (se_tags e), rest)"
    by blast
  have "ensure_fits (length (se_tags e)) 4 (bs @ rest) = Inr ((), bs @ rest)" for rest
    using plain_tag_codec.vector_fits [OF bs(2)] by (rule ensure_fits_Inr)
  with bs len show ?thesis
    by (simp add: write_search_result_entry_def read_search_result_entry_def norm_search_result_entry_def
        rbind_def wire_roundtrip wire_count_ok unat_count)
qed

interpretation result_codec: codec write_search_result_entry "read_search_result_entry legacy"
  "\<lambda>e. tags_ok (se_tags e)" norm_search_result_entry 17 for legacy
  by unfold_locales (rule search_result_entry_written)

lemma search_results_written:
  assumes "length es \<le> 65535" "list_all (\<lambda>e. tags_ok (se_tags e)) es"
  shows "\<exists>bs. write_all write_search_result_entry es = Inr bs \<and> length es * 17 \<le> length bs
    \<and> (\<forall>rest. read_search_result_entries legacy (word_of_nat (length es)) (bs @ rest)
          = Inr (map norm_search_result_entry es, rest))"
proof -
  from result_codec.vector_written [OF assms(2), of legacy] obtain bs
    where bs: "write_all write_search_result_entry es = Inr bs" "length es * 17 \<le> length bs"
      "\<And>rest. read_times (read_search_result_entry legacy) (length es) (bs @ rest)
         = Inr (map norm_search_result_entry es, rest)"
    by blast
  have "ensure_fits (length es) 17 (bs @ rest) = Inr ((), bs @ rest)" for rest
    using publish_codec.vector_fits [OF bs(2)] by (rule ensure_fits_Inr)
  with bs assms(1) show ?thesis
    by (simp add: read_search_result_entries_def rbind_def unat_count)
qed

end
