(* ===== verification/Kad_Packet.thy ===== *)
theory Kad_Packet
  imports Kad_Packet_Types
begin

text \<open>
  \<^verbatim>\<open>emulebb-kad-proto/src/packet.rs\<close> with the opcodes of \<^verbatim>\<open>constants.rs\<close>: the Kad2 packet, its encoding,
  decoding and packing. The zlib package is a parameter: \<open>deflate\<close> compresses or fails, and
  \<open>inflate data n\<close> reads at most \<open>n\<close> bytes of the decompressed stream or fails.
\<close>

section \<open>Opcodes\<close>

definition OP_KADEMLIAHEADER :: u8 where "OP_KADEMLIAHEADER = 0xE4"
definition OP_KADEMLIAPACKEDPROT :: u8 where "OP_KADEMLIAPACKEDPROT = 0xE5"

definition OP_BOOTSTRAP_REQ :: u8 where "OP_BOOTSTRAP_REQ = 0x01"
definition OP_BOOTSTRAP_RES :: u8 where "OP_BOOTSTRAP_RES = 0x09"
definition OP_HELLO_REQ_DEPRECATED :: u8 where "OP_HELLO_REQ_DEPRECATED = 0x10"
definition OP_HELLO_REQ :: u8 where "OP_HELLO_REQ = 0x11"
definition OP_HELLO_RES_DEPRECATED :: u8 where "OP_HELLO_RES_DEPRECATED = 0x18"
definition OP_HELLO_RES :: u8 where "OP_HELLO_RES = 0x19"
definition OP_REQ_DEPRECATED :: u8 where "OP_REQ_DEPRECATED = 0x20"
definition OP_REQ :: u8 where "OP_REQ = 0x21"
definition OP_HELLO_RES_ACK :: u8 where "OP_HELLO_RES_ACK = 0x22"
definition OP_RES_DEPRECATED :: u8 where "OP_RES_DEPRECATED = 0x28"
definition OP_RES :: u8 where "OP_RES = 0x29"
definition OP_SEARCH_KEY_REQ :: u8 where "OP_SEARCH_KEY_REQ = 0x33"
definition OP_SEARCH_SOURCE_REQ :: u8 where "OP_SEARCH_SOURCE_REQ = 0x34"
definition OP_SEARCH_NOTES_REQ :: u8 where "OP_SEARCH_NOTES_REQ = 0x35"
definition OP_SEARCH_REQ_LEGACY :: u8 where "OP_SEARCH_REQ_LEGACY = 0x30"
definition OP_SEARCH_NOTES_REQ_LEGACY :: u8 where "OP_SEARCH_NOTES_REQ_LEGACY = 0x32"
definition OP_SEARCH_RES_LEGACY :: u8 where "OP_SEARCH_RES_LEGACY = 0x38"
definition OP_SEARCH_NOTES_RES_LEGACY :: u8 where "OP_SEARCH_NOTES_RES_LEGACY = 0x3A"
definition OP_SEARCH_RES :: u8 where "OP_SEARCH_RES = 0x3B"
definition OP_PUBLISH_KEY_REQ :: u8 where "OP_PUBLISH_KEY_REQ = 0x43"
definition OP_PUBLISH_SOURCE_REQ :: u8 where "OP_PUBLISH_SOURCE_REQ = 0x44"
definition OP_PUBLISH_NOTES_REQ :: u8 where "OP_PUBLISH_NOTES_REQ = 0x45"
definition OP_PUBLISH_REQ_LEGACY :: u8 where "OP_PUBLISH_REQ_LEGACY = 0x40"
definition OP_PUBLISH_RES_LEGACY :: u8 where "OP_PUBLISH_RES_LEGACY = 0x48"
definition OP_PUBLISH_RES :: u8 where "OP_PUBLISH_RES = 0x4B"
definition OP_PUBLISH_RES_ACK :: u8 where "OP_PUBLISH_RES_ACK = 0x4C"
definition OP_FIREWALLED_REQ :: u8 where "OP_FIREWALLED_REQ = 0x50"
definition OP_FIREWALLED2_REQ :: u8 where "OP_FIREWALLED2_REQ = 0x53"
definition OP_FIREWALLED_RES :: u8 where "OP_FIREWALLED_RES = 0x58"
definition OP_FIREWALLED_ACK_RES :: u8 where "OP_FIREWALLED_ACK_RES = 0x59"
definition OP_FIREWALLUDP :: u8 where "OP_FIREWALLUDP = 0x62"
definition OP_FINDBUDDY_REQ :: u8 where "OP_FINDBUDDY_REQ = 0x51"
definition OP_CALLBACK_REQ :: u8 where "OP_CALLBACK_REQ = 0x52"
definition OP_FINDBUDDY_RES :: u8 where "OP_FINDBUDDY_RES = 0x5A"
definition OP_PING :: u8 where "OP_PING = 0x60"
definition OP_PONG :: u8 where "OP_PONG = 0x61"

lemmas opcode_defs =
  OP_KADEMLIAHEADER_def OP_KADEMLIAPACKEDPROT_def
  OP_BOOTSTRAP_REQ_def
  OP_BOOTSTRAP_RES_def
  OP_HELLO_REQ_DEPRECATED_def
  OP_HELLO_REQ_def
  OP_HELLO_RES_DEPRECATED_def
  OP_HELLO_RES_def
  OP_REQ_DEPRECATED_def
  OP_REQ_def
  OP_HELLO_RES_ACK_def
  OP_RES_DEPRECATED_def
  OP_RES_def
  OP_SEARCH_KEY_REQ_def
  OP_SEARCH_SOURCE_REQ_def
  OP_SEARCH_NOTES_REQ_def
  OP_SEARCH_REQ_LEGACY_def
  OP_SEARCH_NOTES_REQ_LEGACY_def
  OP_SEARCH_RES_LEGACY_def
  OP_SEARCH_NOTES_RES_LEGACY_def
  OP_SEARCH_RES_def
  OP_PUBLISH_KEY_REQ_def
  OP_PUBLISH_SOURCE_REQ_def
  OP_PUBLISH_NOTES_REQ_def
  OP_PUBLISH_REQ_LEGACY_def
  OP_PUBLISH_RES_LEGACY_def
  OP_PUBLISH_RES_def
  OP_PUBLISH_RES_ACK_def
  OP_FIREWALLED_REQ_def
  OP_FIREWALLED2_REQ_def
  OP_FIREWALLED_RES_def
  OP_FIREWALLED_ACK_RES_def
  OP_FIREWALLUDP_def
  OP_FINDBUDDY_REQ_def
  OP_CALLBACK_REQ_def
  OP_FINDBUDDY_RES_def
  OP_PING_def
  OP_PONG_def

section \<open>Model\<close>

definition MAX_DECOMPRESSED_KAD_PACKET_LEN :: nat where
  "MAX_DECOMPRESSED_KAD_PACKET_LEN = 65536"

definition KAD_PACK_THRESHOLD :: nat where
  "KAD_PACK_THRESHOLD = 200"

definition pack_kad_packet :: "(bytes \<Rightarrow> bytes option) \<Rightarrow> bytes \<Rightarrow> bytes" where
  "pack_kad_packet deflate encoded =
     (if length encoded \<le> KAD_PACK_THRESHOLD then encoded
      else let body = drop 2 encoded in
        (case deflate body of
           None \<Rightarrow> encoded
         | Some compressed \<Rightarrow>
             if length compressed \<ge> length body then encoded
             else OP_KADEMLIAPACKEDPROT # encoded ! 1 # compressed))"

definition require_body_len :: "u8 \<Rightarrow> bytes \<Rightarrow> nat \<Rightarrow> proto_error + unit" where
  "require_body_len op body expected =
     (if length body = expected then Inr () else Inl (InvalidPacketSize op expected (length body)))"

definition require_min_body_len :: "u8 \<Rightarrow> bytes \<Rightarrow> nat \<Rightarrow> proto_error + unit" where
  "require_min_body_len op body expected_min =
     (if length body \<ge> expected_min then Inr () else Inl (InvalidPacketSize op expected_min (length body)))"

datatype kad_packet =
    PktBootstrapReq
  | PktBootstrapRes bootstrap_res
  | PktHelloReq hello_req
  | PktHelloRes hello_res
  | PktHelloResAck hello_res_ack
  | PktReq req
  | PktRes res
  | PktSearchKeyReq search_key_req
  | PktSearchSourceReq search_source_req
  | PktSearchNotesReq search_notes_req
  | PktLegacySearchReq legacy_search_req
  | PktLegacySearchNotesReq legacy_search_notes_req
  | PktSearchRes search_res
  | PktLegacySearchRes legacy_search_res
  | PktLegacySearchNotesRes legacy_search_res
  | PktPublishKeyReq publish_key_req
  | PktPublishSourceReq publish_source_req
  | PktLegacyPublishSourceReq publish_source_req
  | PktPublishNotesReq publish_notes_req
  | PktPublishRes publish_res
  | PktLegacyPublishRes legacy_publish_res
  | PktPublishResAck
  | PktFirewalledReq firewalled_req
  | PktFirewalled2Req firewalled2_req
  | PktFirewalledRes firewalled_res
  | PktFirewalledAckRes
  | PktFirewallUdp firewall_udp
  | PktFindBuddyReq find_buddy_req
  | PktFindBuddyRes find_buddy_res
  | PktCallbackReq callback_req
  | PktPing
  | PktPong pong
  | PktUnknown u8 bytes

fun validate_each :: "('a \<Rightarrow> proto_error + unit) \<Rightarrow> 'a list \<Rightarrow> proto_error + unit" where
  "validate_each f [] = Inr ()"
| "validate_each f (x # xs) = try_bind (f x) (\<lambda>_. validate_each f xs)"

definition validate_tags :: "string \<Rightarrow> tag list \<Rightarrow> proto_error + unit" where
  "validate_tags field tags =
     try_bind (wire_count_u8 field (length tags)) (\<lambda>_. validate_each tag_validate_wire_counts tags)"

definition validate_search_results :: "string \<Rightarrow> search_result_entry list \<Rightarrow> proto_error + unit" where
  "validate_search_results field results =
     try_bind (wire_count_u16 field (length results))
       (\<lambda>_. validate_each (\<lambda>r. validate_tags ''SearchResultEntry.tags'' (se_tags r)) results)"

definition count_only :: "proto_error + 'a \<Rightarrow> proto_error + unit" where
  "count_only r = try_bind r (\<lambda>_. Inr ())"

definition packet_validate_wire_counts :: "kad_packet \<Rightarrow> proto_error + unit" where
  "packet_validate_wire_counts packet =
     (case packet of
        PktBootstrapRes p \<Rightarrow> count_only (wire_count_u16 ''BootstrapRes.contacts'' (length (br_contacts p)))
      | PktHelloReq p \<Rightarrow> validate_tags ''HelloReq.tags'' (hq_tags p)
      | PktHelloRes p \<Rightarrow> validate_tags ''HelloRes.tags'' (hr_tags p)
      | PktHelloResAck p \<Rightarrow> validate_tags ''HelloResAck.tags'' (ha_tags p)
      | PktRes p \<Rightarrow> count_only (wire_count_u8 ''Res.contacts'' (length (rs_contacts p)))
      | PktSearchRes p \<Rightarrow> validate_search_results ''SearchRes.results'' (sr_results p)
      | PktLegacySearchRes p \<Rightarrow> validate_search_results ''LegacySearchRes.results'' (lr_results p)
      | PktLegacySearchNotesRes p \<Rightarrow> validate_search_results ''LegacySearchRes.results'' (lr_results p)
      | PktPublishKeyReq p \<Rightarrow> try_bind (wire_count_u16 ''PublishKeyReq.entries'' (length (pk_entries p)))
            (\<lambda>_. validate_each (\<lambda>entry. validate_tags ''PublishEntry.tags'' (pe_tags entry)) (pk_entries p))
      | PktPublishSourceReq p \<Rightarrow> validate_tags ''PublishSourceReq.tags'' (ps_tags p)
      | PktLegacyPublishSourceReq p \<Rightarrow> validate_tags ''LegacyPublishSourceReq.tags'' (ps_tags p)
      | PktPublishNotesReq p \<Rightarrow> validate_tags ''PublishNotesReq.tags'' (pn_tags p)
      | _ \<Rightarrow> Inr ())"

definition run_body :: "'a preader \<Rightarrow> bytes \<Rightarrow> ('a \<Rightarrow> kad_packet) \<Rightarrow> proto_error + kad_packet" where
  "run_body r body mk = try_bind (r body) (\<lambda>(p, rest). Inr (mk p))"

definition decode_body :: "(bytes \<Rightarrow> bytes) \<Rightarrow> u8 \<Rightarrow> bytes \<Rightarrow> proto_error + kad_packet" where
  "decode_body legacy op body =
     (if op = OP_BOOTSTRAP_REQ then Inr PktBootstrapReq
      else if op = OP_BOOTSTRAP_RES then run_body (lift_read read_bootstrap_res) body PktBootstrapRes
      else if op = OP_HELLO_REQ then run_body (lift_read (read_hello_req legacy)) body PktHelloReq
      else if op = OP_HELLO_RES then run_body (lift_read (read_hello_res legacy)) body PktHelloRes
      else if op = OP_HELLO_RES_ACK then run_body (lift_read (read_hello_res_ack legacy)) body PktHelloResAck
      else if op = OP_REQ then run_body (lift_read read_req) body PktReq
      else if op = OP_RES then run_body (lift_read read_res) body PktRes
      else if op = OP_SEARCH_KEY_REQ then run_body read_search_key_req body PktSearchKeyReq
      else if op = OP_SEARCH_SOURCE_REQ then run_body read_search_source_req body PktSearchSourceReq
      else if op = OP_SEARCH_NOTES_REQ then run_body (lift_read read_search_notes_req) body PktSearchNotesReq
      else if op = OP_SEARCH_RES_LEGACY then
        try_bind (require_min_body_len op body 37) (\<lambda>_. run_body (read_legacy_search_res legacy) body PktLegacySearchRes)
      else if op = OP_SEARCH_NOTES_RES_LEGACY then
        try_bind (require_min_body_len op body 37) (\<lambda>_. run_body (read_legacy_search_res legacy) body PktLegacySearchNotesRes)
      else if op = OP_SEARCH_RES then run_body (read_search_res legacy) body PktSearchRes
      else if op = OP_PUBLISH_KEY_REQ then run_body (lift_read (read_publish_key_req legacy)) body PktPublishKeyReq
      else if op = OP_PUBLISH_SOURCE_REQ then run_body (lift_read (read_publish_source_req legacy)) body PktPublishSourceReq
      else if op = OP_PUBLISH_NOTES_REQ then run_body (lift_read (read_publish_notes_req legacy)) body PktPublishNotesReq
      else if op = OP_PUBLISH_RES then
        try_bind (require_min_body_len op body 17) (\<lambda>_. run_body read_publish_res body PktPublishRes)
      else if op = OP_PUBLISH_RES_LEGACY then
        try_bind (require_min_body_len op body 16) (\<lambda>_. run_body read_legacy_publish_res body PktLegacyPublishRes)
      else if op = OP_PUBLISH_RES_ACK then Inr PktPublishResAck
      else if op = OP_FIREWALLED_REQ then
        try_bind (require_body_len op body 2) (\<lambda>_. run_body (lift_read read_firewalled_req) body PktFirewalledReq)
      else if op = OP_FIREWALLED2_REQ then run_body (lift_read read_firewalled2_req) body PktFirewalled2Req
      else if op = OP_FIREWALLED_RES then
        try_bind (require_body_len op body 4) (\<lambda>_. run_body (lift_read read_firewalled_res) body PktFirewalledRes)
      else if op = OP_FIREWALLED_ACK_RES then
        try_bind (require_body_len op body 0) (\<lambda>_. Inr PktFirewalledAckRes)
      else if op = OP_FIREWALLUDP then
        try_bind (require_min_body_len op body 3) (\<lambda>_. run_body (lift_read read_firewall_udp) body PktFirewallUdp)
      else if op = OP_FINDBUDDY_REQ then
        try_bind (require_min_body_len op body 34) (\<lambda>_. run_body read_find_buddy_req body PktFindBuddyReq)
      else if op = OP_FINDBUDDY_RES then
        try_bind (require_min_body_len op body 34) (\<lambda>_. run_body read_find_buddy_res body PktFindBuddyRes)
      else if op = OP_CALLBACK_REQ then
        try_bind (require_min_body_len op body 34) (\<lambda>_. run_body read_callback_req body PktCallbackReq)
      else if op = OP_PING then Inr PktPing
      else if op = OP_PONG then
        try_bind (require_min_body_len op body 2) (\<lambda>_. run_body (lift_read read_pong) body PktPong)
      else Inr (PktUnknown op body))"

definition decode_header :: "(bytes \<Rightarrow> nat \<Rightarrow> bytes option) \<Rightarrow> bytes \<Rightarrow> proto_error + u8 \<times> bytes" where
  "decode_header inflate buf =
     (if length buf < 2 then Inl BufferTooShort
      else if buf ! 0 = OP_KADEMLIAPACKEDPROT then
        (case inflate (drop 2 buf) (MAX_DECOMPRESSED_KAD_PACKET_LEN + 1) of
           None \<Rightarrow> Inl DecompressError
         | Some decompressed \<Rightarrow>
             if length decompressed > MAX_DECOMPRESSED_KAD_PACKET_LEN then Inl DecompressError
             else Inr (buf ! 1, decompressed))
      else if buf ! 0 = OP_KADEMLIAHEADER then Inr (buf ! 1, drop 2 buf)
      else Inl (InvalidProtocol (buf ! 0)))"

definition decode :: "(bytes \<Rightarrow> nat \<Rightarrow> bytes option) \<Rightarrow> (bytes \<Rightarrow> bytes) \<Rightarrow> bytes \<Rightarrow> proto_error + kad_packet" where
  "decode inflate legacy buf = try_bind (decode_header inflate buf) (\<lambda>(op, body). decode_body legacy op body)"

definition opcode :: "kad_packet \<Rightarrow> u8" where
  "opcode packet =
     (case packet of
        PktBootstrapReq \<Rightarrow> OP_BOOTSTRAP_REQ
      | PktBootstrapRes _ \<Rightarrow> OP_BOOTSTRAP_RES
      | PktHelloReq _ \<Rightarrow> OP_HELLO_REQ
      | PktHelloRes _ \<Rightarrow> OP_HELLO_RES
      | PktHelloResAck _ \<Rightarrow> OP_HELLO_RES_ACK
      | PktReq _ \<Rightarrow> OP_REQ
      | PktRes _ \<Rightarrow> OP_RES
      | PktSearchKeyReq _ \<Rightarrow> OP_SEARCH_KEY_REQ
      | PktSearchSourceReq _ \<Rightarrow> OP_SEARCH_SOURCE_REQ
      | PktSearchNotesReq _ \<Rightarrow> OP_SEARCH_NOTES_REQ
      | PktLegacySearchReq _ \<Rightarrow> OP_SEARCH_REQ_LEGACY
      | PktLegacySearchNotesReq _ \<Rightarrow> OP_SEARCH_NOTES_REQ_LEGACY
      | PktSearchRes _ \<Rightarrow> OP_SEARCH_RES
      | PktLegacySearchRes _ \<Rightarrow> OP_SEARCH_RES_LEGACY
      | PktLegacySearchNotesRes _ \<Rightarrow> OP_SEARCH_NOTES_RES_LEGACY
      | PktPublishKeyReq _ \<Rightarrow> OP_PUBLISH_KEY_REQ
      | PktPublishSourceReq _ \<Rightarrow> OP_PUBLISH_SOURCE_REQ
      | PktLegacyPublishSourceReq _ \<Rightarrow> OP_PUBLISH_REQ_LEGACY
      | PktPublishNotesReq _ \<Rightarrow> OP_PUBLISH_NOTES_REQ
      | PktPublishRes _ \<Rightarrow> OP_PUBLISH_RES
      | PktLegacyPublishRes _ \<Rightarrow> OP_PUBLISH_RES_LEGACY
      | PktPublishResAck \<Rightarrow> OP_PUBLISH_RES_ACK
      | PktFirewalledReq _ \<Rightarrow> OP_FIREWALLED_REQ
      | PktFirewalled2Req _ \<Rightarrow> OP_FIREWALLED2_REQ
      | PktFirewalledRes _ \<Rightarrow> OP_FIREWALLED_RES
      | PktFirewalledAckRes \<Rightarrow> OP_FIREWALLED_ACK_RES
      | PktFirewallUdp _ \<Rightarrow> OP_FIREWALLUDP
      | PktFindBuddyReq _ \<Rightarrow> OP_FINDBUDDY_REQ
      | PktFindBuddyRes _ \<Rightarrow> OP_FINDBUDDY_RES
      | PktCallbackReq _ \<Rightarrow> OP_CALLBACK_REQ
      | PktPing \<Rightarrow> OP_PING
      | PktPong _ \<Rightarrow> OP_PONG
      | PktUnknown op _ \<Rightarrow> op)"

definition encode_body :: "kad_packet \<Rightarrow> proto_error + bytes" where
  "encode_body packet =
     (case packet of
        PktBootstrapReq \<Rightarrow> Inr []
      | PktBootstrapRes p \<Rightarrow> map_err from_binrw (write_bootstrap_res p)
      | PktHelloReq p \<Rightarrow> map_err from_binrw (write_hello_req p)
      | PktHelloRes p \<Rightarrow> map_err from_binrw (write_hello_res p)
      | PktHelloResAck p \<Rightarrow> map_err from_binrw (write_hello_res_ack p)
      | PktReq p \<Rightarrow> Inr (write_req p)
      | PktRes p \<Rightarrow> map_err from_binrw (write_res p)
      | PktSearchKeyReq p \<Rightarrow> Inr (write_search_key_req p)
      | PktSearchSourceReq p \<Rightarrow> Inr (write_search_source_req p)
      | PktSearchNotesReq p \<Rightarrow> Inr (write_search_notes_req p)
      | PktLegacySearchReq p \<Rightarrow> Inr (write_legacy_search_req p)
      | PktLegacySearchNotesReq p \<Rightarrow> Inr (write_legacy_search_notes_req p)
      | PktSearchRes p \<Rightarrow> write_search_res p
      | PktLegacySearchRes p \<Rightarrow> write_legacy_search_res p
      | PktLegacySearchNotesRes p \<Rightarrow> write_legacy_search_res p
      | PktPublishKeyReq p \<Rightarrow> map_err from_binrw (write_publish_key_req p)
      | PktPublishSourceReq p \<Rightarrow> map_err from_binrw (write_publish_source_req p)
      | PktLegacyPublishSourceReq p \<Rightarrow> write_legacy_publish_source_req p
      | PktPublishNotesReq p \<Rightarrow> map_err from_binrw (write_publish_notes_req p)
      | PktPublishRes p \<Rightarrow> Inr (write_publish_res p)
      | PktLegacyPublishRes p \<Rightarrow> Inr (write_legacy_publish_res p)
      | PktPublishResAck \<Rightarrow> Inr []
      | PktFirewalledReq p \<Rightarrow> Inr (write_firewalled_req p)
      | PktFirewalled2Req p \<Rightarrow> Inr (write_firewalled2_req p)
      | PktFirewalledRes p \<Rightarrow> Inr (write_firewalled_res p)
      | PktFirewalledAckRes \<Rightarrow> Inr []
      | PktFirewallUdp p \<Rightarrow> Inr (write_firewall_udp p)
      | PktFindBuddyReq p \<Rightarrow> Inr (write_find_buddy_req p)
      | PktFindBuddyRes p \<Rightarrow> Inr (write_find_buddy_res p)
      | PktCallbackReq p \<Rightarrow> Inr (write_callback_req p)
      | PktPing \<Rightarrow> Inr []
      | PktPong p \<Rightarrow> Inr (write_pong p)
      | PktUnknown _ payload \<Rightarrow> Inr payload)"

definition encode :: "kad_packet \<Rightarrow> proto_error + bytes" where
  "encode packet =
     try_bind (packet_validate_wire_counts packet) (\<lambda>_.
     try_bind (encode_body packet) (\<lambda>body. Inr (OP_KADEMLIAHEADER # opcode packet # body)))"

section \<open>Round trip\<close>

text \<open>The packets the encoder accepts and the decoder reads back: counts within their wire fields, valid
  strings, and no unknown packet under an opcode the decoder knows.\<close>

definition known_opcodes :: "u8 list" where
  "known_opcodes =
     [OP_BOOTSTRAP_REQ, OP_BOOTSTRAP_RES, OP_HELLO_REQ, OP_HELLO_RES, OP_HELLO_RES_ACK, OP_REQ, OP_RES,
      OP_SEARCH_KEY_REQ, OP_SEARCH_SOURCE_REQ, OP_SEARCH_NOTES_REQ, OP_SEARCH_RES_LEGACY,
      OP_SEARCH_NOTES_RES_LEGACY, OP_SEARCH_RES, OP_PUBLISH_KEY_REQ, OP_PUBLISH_SOURCE_REQ,
      OP_PUBLISH_NOTES_REQ, OP_PUBLISH_RES, OP_PUBLISH_RES_LEGACY, OP_PUBLISH_RES_ACK, OP_FIREWALLED_REQ,
      OP_FIREWALLED2_REQ, OP_FIREWALLED_RES, OP_FIREWALLED_ACK_RES, OP_FIREWALLUDP, OP_FINDBUDDY_REQ,
      OP_FINDBUDDY_RES, OP_CALLBACK_REQ, OP_PING, OP_PONG]"

definition results_ok :: "search_result_entry list \<Rightarrow> bool" where
  "results_ok rs \<longleftrightarrow> length rs \<le> 65535 \<and> list_all (\<lambda>e. tags_ok (se_tags e)) rs"

definition legacy_long_enough :: "legacy_search_res \<Rightarrow> bool" where
  "legacy_long_enough p = (case write_legacy_search_res p of Inl _ \<Rightarrow> False | Inr body \<Rightarrow> 37 \<le> length body)"

definition packet_ok :: "kad_packet \<Rightarrow> bool" where
  "packet_ok packet =
     (case packet of
        PktBootstrapRes p \<Rightarrow> length (br_contacts p) \<le> 65535
      | PktHelloReq p \<Rightarrow> tags_ok (hq_tags p)
      | PktHelloRes p \<Rightarrow> tags_ok (hr_tags p)
      | PktHelloResAck p \<Rightarrow> tags_ok (ha_tags p)
      | PktRes p \<Rightarrow> length (rs_contacts p) \<le> 255
      | PktSearchRes p \<Rightarrow> results_ok (sr_results p)
      | PktLegacySearchRes p \<Rightarrow> results_ok (lr_results p) \<and> legacy_long_enough p
      | PktLegacySearchNotesRes p \<Rightarrow> results_ok (lr_results p) \<and> legacy_long_enough p
      | PktPublishKeyReq p \<Rightarrow> length (pk_entries p) \<le> 65535 \<and> list_all (\<lambda>e. tags_ok (pe_tags e)) (pk_entries p)
      | PktPublishSourceReq p \<Rightarrow> tags_ok (ps_tags p)
      | PktLegacyPublishSourceReq p \<Rightarrow> tags_ok (ps_tags p)
      | PktPublishNotesReq p \<Rightarrow> tags_ok (pn_tags p)
      | PktUnknown op _ \<Rightarrow> op \<notin> set known_opcodes
      | _ \<Rightarrow> True)"

text \<open>What the decoder returns for an encoded packet: tags in their read form, the start position
  without its top bit, and the write-only legacy requests as unknown packets.\<close>

definition norm_packet :: "kad_packet \<Rightarrow> kad_packet" where
  "norm_packet packet =
     (case packet of
        PktHelloReq p \<Rightarrow> PktHelloReq (HelloReq (hq_node_id p) (hq_tcp_port p) (hq_version p) (map norm_tag (hq_tags p)))
      | PktHelloRes p \<Rightarrow> PktHelloRes (HelloRes (hr_node_id p) (hr_tcp_port p) (hr_version p) (map norm_tag (hr_tags p)))
      | PktHelloResAck p \<Rightarrow> PktHelloResAck (HelloResAck (ha_node_id p) (map norm_tag (ha_tags p)))
      | PktSearchSourceReq p \<Rightarrow>
          PktSearchSourceReq (SearchSourceReq (ss_target p) (ss_start_position p AND 0x7FFF) (ss_size p))
      | PktLegacySearchReq p \<Rightarrow> PktUnknown OP_SEARCH_REQ_LEGACY (write_legacy_search_req p)
      | PktLegacySearchNotesReq p \<Rightarrow> PktUnknown OP_SEARCH_NOTES_REQ_LEGACY (write_legacy_search_notes_req p)
      | PktSearchRes p \<Rightarrow>
          PktSearchRes (SearchRes (sr_sender_id p) (sr_target p) (map norm_search_result_entry (sr_results p)))
      | PktLegacySearchRes p \<Rightarrow>
          PktLegacySearchRes (LegacySearchRes (lr_target p) (map norm_search_result_entry (lr_results p)))
      | PktLegacySearchNotesRes p \<Rightarrow>
          PktLegacySearchNotesRes (LegacySearchRes (lr_target p) (map norm_search_result_entry (lr_results p)))
      | PktPublishKeyReq p \<Rightarrow> PktPublishKeyReq (PublishKeyReq (pk_target p) (map norm_publish_entry (pk_entries p)))
      | PktPublishSourceReq p \<Rightarrow>
          PktPublishSourceReq (PublishSourceReq (ps_target p) (ps_publisher_id p) (map norm_tag (ps_tags p)))
      | PktLegacyPublishSourceReq p \<Rightarrow>
          PktUnknown OP_PUBLISH_REQ_LEGACY (projr (write_legacy_publish_source_req p))
      | PktPublishNotesReq p \<Rightarrow>
          PktPublishNotesReq (PublishNotesReq (pn_target p) (pn_publisher_id p) (map norm_tag (pn_tags p)))
      | _ \<Rightarrow> packet)"

lemma validate_each_ok: "(\<And>x. x \<in> set xs \<Longrightarrow> f x = Inr ()) \<Longrightarrow> validate_each f xs = Inr ()"
  by (induction xs) simp_all

lemma tag_validates: "tag_ok t \<Longrightarrow> tag_validate_wire_counts t = Inr ()"
  by (cases "t_name t"; cases "t_value t") (simp_all add: tag_validate_wire_counts_def tag_ok_def wire_count_ok)

lemma tags_validate: "tags_ok tags \<Longrightarrow> validate_tags field tags = Inr ()"
  by (simp add: validate_tags_def tags_ok_def wire_count_ok validate_each_ok tag_validates list_all_iff)

lemma results_validate: "results_ok rs \<Longrightarrow> validate_search_results field rs = Inr ()"
  by (simp add: validate_search_results_def results_ok_def wire_count_ok validate_each_ok tags_validate list_all_iff)

lemma packet_validates: "packet_ok p \<Longrightarrow> packet_validate_wire_counts p = Inr ()"
  by (cases p)
    (simp_all add: packet_ok_def packet_validate_wire_counts_def count_only_def wire_count_ok tags_validate
      results_validate validate_each_ok list_all_iff)

lemma read_trailing_written [wire_roundtrip]:
  "read_trailing_u8 (write_trailing_u8 b) = Inr (b, [])"
  by (cases b) (simp_all add: read_trailing_u8_def write_trailing_u8_def rbind_def wire_roundtrip)

text \<open>A body that a reader turns into its structure is decoded into the packet.\<close>

lemma run_body_Inr: "r body = Inr (x, rest) \<Longrightarrow> run_body r body mk = Inr (mk x)"
  by (simp add: run_body_def)

lemma run_lifted_Inr: "r body = Inr (x, rest) \<Longrightarrow> run_body (lift_read r) body mk = Inr (mk x)"
  by (simp add: run_body_def wire_roundtrip)

text \<open>The structures of fixed shape are read back exactly.\<close>

lemmas read_defs =
  read_bootstrap_res_def read_hello_req_def read_hello_res_def read_hello_res_ack_def read_req_def read_res_def
  read_search_key_req_def read_search_source_req_def read_search_notes_req_def read_search_res_def
  read_legacy_search_res_def read_publish_key_req_def read_publish_source_req_def read_publish_notes_req_def
  read_publish_res_def read_legacy_publish_res_def read_firewalled_req_def read_firewalled2_req_def
  read_firewalled_res_def read_firewall_udp_def read_find_buddy_req_def read_find_buddy_res_def
  read_callback_req_def read_pong_def

lemmas write_defs =
  write_bootstrap_res_def write_hello_req_def write_hello_res_def write_hello_res_ack_def write_req_def write_res_def
  write_search_key_req_def write_search_source_req_def write_search_notes_req_def write_search_res_def
  write_legacy_search_res_def write_publish_key_req_def write_publish_source_req_def write_publish_notes_req_def
  write_publish_res_def write_legacy_publish_res_def write_firewalled_req_def write_firewalled2_req_def
  write_firewalled_res_def write_firewall_udp_def write_find_buddy_req_def write_find_buddy_res_def
  write_callback_req_def write_pong_def

lemmas read_words_end [wire_roundtrip] = read_words [where rest = "[]", simplified]

lemma fixed_written:
  "read_req (write_req p1) = Inr (p1, [])"
  "read_search_notes_req (write_search_notes_req p2) = Inr (p2, [])"
  "read_firewalled_req (write_firewalled_req p3) = Inr (p3, [])"
  "read_firewalled2_req (write_firewalled2_req p4) = Inr (p4, [])"
  "read_firewalled_res (write_firewalled_res p5) = Inr (p5, [])"
  "read_firewall_udp (write_firewall_udp p6) = Inr (p6, [])"
  "read_pong (write_pong p7) = Inr (p7, [])"
  by (simp_all add: read_defs write_defs rbind_def wire_roundtrip
      read_node_id_append [where rest = "[]", simplified])

lemma codec_written:
  "read_search_key_req (write_search_key_req p1) = Inr (p1, [])"
  "read_search_source_req (write_search_source_req p2)
     = Inr (SearchSourceReq (ss_target p2) (ss_start_position p2 AND 0x7FFF) (ss_size p2), [])"
  "read_find_buddy_req (write_find_buddy_req p3) = Inr (p3, [])"
  "read_find_buddy_res (write_find_buddy_res p4) = Inr (p4, [])"
  "read_callback_req (write_callback_req p5) = Inr (p5, [])"
  "read_publish_res (write_publish_res p6) = Inr (p6, [])"
  "read_legacy_publish_res (write_legacy_publish_res p7) = Inr (p7, [])"
  by (simp_all add: read_defs write_defs rbind_def wire_roundtrip)

lemma fixed_lengths:
  "length (write_firewalled_req p1) = 2" "length (write_firewalled_res p2) = 4"
  "length (write_firewall_udp p3) = 3" "length (write_pong p4) = 2"
  "length (write_find_buddy_req p5) = 34" "34 \<le> length (write_find_buddy_res p6)"
  "length (write_callback_req p7) = 34" "17 \<le> length (write_publish_res p8)"
  "16 \<le> length (write_legacy_publish_res p9)"
  by (simp_all add: write_defs)

text \<open>The structures with counted vectors.\<close>

lemma contacts_written:
  "\<exists>bs. write_all write_contact_entry cs = Inr bs
     \<and> (\<forall>rest. read_counted_vector read_contact_entry (length cs) 25 (bs @ rest) = Inr (cs, rest))"
  using counted_vector_written [OF contact_codec.codec_axioms, of cs] by (auto simp: list_all_iff)

lemma bootstrap_res_written:
  assumes "length (br_contacts p) \<le> 65535"
  shows "\<exists>bs. write_bootstrap_res p = Inr bs \<and> read_bootstrap_res bs = Inr (p, [])"
proof -
  obtain cs where "write_all write_contact_entry (br_contacts p) = Inr cs"
    "read_counted_vector read_contact_entry (length (br_contacts p)) 25 cs = Inr (br_contacts p, [])"
    using contacts_written [of "br_contacts p"] by (metis append_Nil2)
  with assms show ?thesis
    by (simp add: write_defs read_defs rbind_def wire_roundtrip wire_count_ok map_err_def unat_count)
qed

lemma res_written:
  assumes "length (rs_contacts p) \<le> 255"
  shows "\<exists>bs. write_res p = Inr bs \<and> read_res bs = Inr (p, [])"
proof -
  obtain cs where "write_all write_contact_entry (rs_contacts p) = Inr cs"
    "read_counted_vector read_contact_entry (length (rs_contacts p)) 25 cs = Inr (rs_contacts p, [])"
    using contacts_written [of "rs_contacts p"] by (metis append_Nil2)
  with assms show ?thesis
    by (simp add: write_defs read_defs rbind_def wire_roundtrip wire_count_ok map_err_def unat_count)
qed

lemma tags_written_end:
  "tags_ok tags \<Longrightarrow> \<exists>bs. write_tags field tags = Inr bs \<and> read_tags legacy bs = Inr (map norm_tag tags, [])"
  using tags_written [of tags field legacy] by (metis append_Nil2)

lemma tagged_written:
  "tags_ok (hq_tags p1) \<Longrightarrow> \<exists>bs. write_hello_req p1 = Inr bs
     \<and> read_hello_req legacy bs = Inr (HelloReq (hq_node_id p1) (hq_tcp_port p1) (hq_version p1) (map norm_tag (hq_tags p1)), [])"
  "tags_ok (hr_tags p2) \<Longrightarrow> \<exists>bs. write_hello_res p2 = Inr bs
     \<and> read_hello_res legacy bs = Inr (HelloRes (hr_node_id p2) (hr_tcp_port p2) (hr_version p2) (map norm_tag (hr_tags p2)), [])"
  "tags_ok (ha_tags p3) \<Longrightarrow> \<exists>bs. write_hello_res_ack p3 = Inr bs
     \<and> read_hello_res_ack legacy bs = Inr (HelloResAck (ha_node_id p3) (map norm_tag (ha_tags p3)), [])"
  "tags_ok (ps_tags p4) \<Longrightarrow> \<exists>bs. write_publish_source_req p4 = Inr bs
     \<and> read_publish_source_req legacy bs = Inr (PublishSourceReq (ps_target p4) (ps_publisher_id p4) (map norm_tag (ps_tags p4)), [])"
  "tags_ok (pn_tags p5) \<Longrightarrow> \<exists>bs. write_publish_notes_req p5 = Inr bs
     \<and> read_publish_notes_req legacy bs = Inr (PublishNotesReq (pn_target p5) (pn_publisher_id p5) (map norm_tag (pn_tags p5)), [])"
  using tags_written_end [of "hq_tags p1" "''HelloReq.tags''" legacy]
    tags_written_end [of "hr_tags p2" "''HelloRes.tags''" legacy]
    tags_written_end [of "ha_tags p3" "''HelloResAck.tags''" legacy]
    tags_written_end [of "ps_tags p4" "''PublishSourceReq.tags''" legacy]
    tags_written_end [of "pn_tags p5" "''PublishNotesReq.tags''" legacy]
  by (auto simp: write_defs read_defs rbind_def wire_roundtrip)

lemma publish_key_req_written:
  assumes "length (pk_entries p) \<le> 65535" "list_all (\<lambda>e. tags_ok (pe_tags e)) (pk_entries p)"
  shows "\<exists>bs. write_publish_key_req p = Inr bs
    \<and> read_publish_key_req legacy bs = Inr (PublishKeyReq (pk_target p) (map norm_publish_entry (pk_entries p)), [])"
proof -
  obtain es where "write_all write_publish_entry (pk_entries p) = Inr es"
    "read_counted_vector (read_publish_entry legacy) (length (pk_entries p)) 17 es
       = Inr (map norm_publish_entry (pk_entries p), [])"
    using counted_vector_written [OF publish_codec.codec_axioms assms(2), of legacy] by (metis append_Nil2)
  with assms(1) show ?thesis
    by (simp add: write_defs read_defs rbind_def wire_roundtrip wire_count_ok map_err_def unat_count)
qed

lemma results_written_end:
  assumes "results_ok rs"
  shows "\<exists>bs. write_all write_search_result_entry rs = Inr bs
    \<and> read_search_result_entries legacy (word_of_nat (length rs)) bs = Inr (map norm_search_result_entry rs, [])"
  using search_results_written [of rs legacy] assms by (metis append_Nil2 results_ok_def)

lemma search_res_written:
  assumes "results_ok (sr_results p)"
  shows "\<exists>bs. write_search_res p = Inr bs
    \<and> read_search_res legacy bs = Inr (SearchRes (sr_sender_id p) (sr_target p) (map norm_search_result_entry (sr_results p)), [])"
  using results_written_end [OF assms, of legacy] assms
  by (auto simp: write_defs read_defs rbind_def wire_roundtrip wire_count_ok results_ok_def)

lemma legacy_search_res_written:
  assumes "results_ok (lr_results p)"
  shows "\<exists>bs. write_legacy_search_res p = Inr bs
    \<and> read_legacy_search_res legacy bs = Inr (LegacySearchRes (lr_target p) (map norm_search_result_entry (lr_results p)), [])"
  using results_written_end [OF assms, of legacy] assms
  by (auto simp: write_defs read_defs rbind_def wire_roundtrip wire_count_ok results_ok_def)

lemma legacy_publish_source_req_written:
  assumes "tags_ok (ps_tags p)"
  shows "\<exists>bs. write_legacy_publish_source_req p = Inr bs"
proof -
  have "list_all tag_ok (ps_tags p)" "length (ps_tags p) \<le> 255"
    using assms by (simp_all add: tags_ok_def)
  with result_tag_codec.vector_written [of "ps_tags p" id] show ?thesis
    by (auto simp: write_legacy_publish_source_req_def wire_count_ok)
qed

lemma known_distinct: "distinct known_opcodes"
  by (simp add: known_opcodes_def opcode_defs)

lemma decode_unknown: "op \<notin> set known_opcodes \<Longrightarrow> decode_body legacy op body = Inr (PktUnknown op body)"
  by (simp add: known_opcodes_def decode_body_def)

lemma decode_known:
  "decode_body legacy OP_BOOTSTRAP_REQ body = Inr PktBootstrapReq"
  "decode_body legacy OP_BOOTSTRAP_RES body = run_body (lift_read read_bootstrap_res) body PktBootstrapRes"
  "decode_body legacy OP_HELLO_REQ body = run_body (lift_read (read_hello_req legacy)) body PktHelloReq"
  "decode_body legacy OP_HELLO_RES body = run_body (lift_read (read_hello_res legacy)) body PktHelloRes"
  "decode_body legacy OP_HELLO_RES_ACK body = run_body (lift_read (read_hello_res_ack legacy)) body PktHelloResAck"
  "decode_body legacy OP_REQ body = run_body (lift_read read_req) body PktReq"
  "decode_body legacy OP_RES body = run_body (lift_read read_res) body PktRes"
  "decode_body legacy OP_SEARCH_KEY_REQ body = run_body read_search_key_req body PktSearchKeyReq"
  "decode_body legacy OP_SEARCH_SOURCE_REQ body = run_body read_search_source_req body PktSearchSourceReq"
  "decode_body legacy OP_SEARCH_NOTES_REQ body = run_body (lift_read read_search_notes_req) body PktSearchNotesReq"
  "decode_body legacy OP_SEARCH_RES body = run_body (read_search_res legacy) body PktSearchRes"
  "decode_body legacy OP_PUBLISH_KEY_REQ body = run_body (lift_read (read_publish_key_req legacy)) body PktPublishKeyReq"
  "decode_body legacy OP_PUBLISH_SOURCE_REQ body
     = run_body (lift_read (read_publish_source_req legacy)) body PktPublishSourceReq"
  "decode_body legacy OP_PUBLISH_NOTES_REQ body
     = run_body (lift_read (read_publish_notes_req legacy)) body PktPublishNotesReq"
  "decode_body legacy OP_PUBLISH_RES_ACK body = Inr PktPublishResAck"
  "decode_body legacy OP_FIREWALLED2_REQ body = run_body (lift_read read_firewalled2_req) body PktFirewalled2Req"
  "decode_body legacy OP_PING body = Inr PktPing"
  by (simp_all add: decode_body_def opcode_defs)

lemma decode_known_min:
  "37 \<le> length body \<Longrightarrow>
     decode_body legacy OP_SEARCH_RES_LEGACY body = run_body (read_legacy_search_res legacy) body PktLegacySearchRes"
  "37 \<le> length body \<Longrightarrow>
     decode_body legacy OP_SEARCH_NOTES_RES_LEGACY body
       = run_body (read_legacy_search_res legacy) body PktLegacySearchNotesRes"
  "17 \<le> length body \<Longrightarrow> decode_body legacy OP_PUBLISH_RES body = run_body read_publish_res body PktPublishRes"
  "16 \<le> length body \<Longrightarrow>
     decode_body legacy OP_PUBLISH_RES_LEGACY body = run_body read_legacy_publish_res body PktLegacyPublishRes"
  "length body = 2 \<Longrightarrow>
     decode_body legacy OP_FIREWALLED_REQ body = run_body (lift_read read_firewalled_req) body PktFirewalledReq"
  "length body = 4 \<Longrightarrow>
     decode_body legacy OP_FIREWALLED_RES body = run_body (lift_read read_firewalled_res) body PktFirewalledRes"
  "decode_body legacy OP_FIREWALLED_ACK_RES [] = Inr PktFirewalledAckRes"
  "3 \<le> length body \<Longrightarrow>
     decode_body legacy OP_FIREWALLUDP body = run_body (lift_read read_firewall_udp) body PktFirewallUdp"
  "34 \<le> length body \<Longrightarrow>
     decode_body legacy OP_FINDBUDDY_REQ body = run_body read_find_buddy_req body PktFindBuddyReq"
  "34 \<le> length body \<Longrightarrow>
     decode_body legacy OP_FINDBUDDY_RES body = run_body read_find_buddy_res body PktFindBuddyRes"
  "34 \<le> length body \<Longrightarrow> decode_body legacy OP_CALLBACK_REQ body = run_body read_callback_req body PktCallbackReq"
  "2 \<le> length body \<Longrightarrow> decode_body legacy OP_PONG body = run_body (lift_read read_pong) body PktPong"
  by (simp_all add: decode_body_def require_min_body_len_def require_body_len_def opcode_defs)

lemma legacy_not_known:
  "OP_SEARCH_REQ_LEGACY \<notin> set known_opcodes" "OP_SEARCH_NOTES_REQ_LEGACY \<notin> set known_opcodes"
  "OP_PUBLISH_REQ_LEGACY \<notin> set known_opcodes"
  by (simp_all add: known_opcodes_def opcode_defs)

lemma encode_body_Inr:
  "packet_ok p \<Longrightarrow> encode_body p = Inr body \<Longrightarrow> encode p = Inr (OP_KADEMLIAHEADER # opcode p # body)"
  by (simp add: encode_def packet_validates)

lemma decode_plain:
  "decode inflate legacy (OP_KADEMLIAHEADER # op # body) = decode_body legacy op body"
  by (simp add: decode_def decode_header_def opcode_defs)

lemmas body_simps =
  encode_body_def opcode_def norm_packet_def packet_ok_def legacy_long_enough_def legacy_not_known map_err_def
  decode_known decode_known_min decode_unknown fixed_lengths run_body_Inr run_lifted_Inr fixed_written codec_written

lemma body_roundtrip:
  assumes "packet_ok p"
  shows "\<exists>body. encode_body p = Inr body \<and> decode_body legacy (opcode p) body = Inr (norm_packet p)"
  using assms
  by (cases p)
    (auto simp: body_simps dest: bootstrap_res_written res_written publish_key_req_written [where legacy = legacy]
      tagged_written [where legacy = legacy] search_res_written [where legacy = legacy]
      legacy_search_res_written [where legacy = legacy] legacy_publish_source_req_written)

section \<open>The encoder fails exactly on a count overflow\<close>

text \<open>Once the counts are validated no writer can fail, so no partly written packet is produced.\<close>

lemma wire_count_Inr_iff:
  "wire_count_u8 field n = Inr w \<longleftrightarrow> n \<le> 255 \<and> w = word_of_nat n"
  "wire_count_u16 field n = Inr v \<longleftrightarrow> n \<le> 65535 \<and> v = word_of_nat n"
  by (auto simp: wire_count_u8_def wire_count_u16_def)

lemma validated_tag_writes: "tag_validate_wire_counts t = Inr () \<Longrightarrow> \<exists>bs. write_tag t = Inr bs"
  by (cases "t_name t"; cases "t_value t")
    (auto simp: tag_validate_wire_counts_def write_tag_def write_tag_name_def write_tag_value_def map_err_def
      wire_count_ok wire_count_Inr_iff try_bind_Inr_iff)

lemma validate_each_Inr: "validate_each f xs = Inr () \<longleftrightarrow> (\<forall>x\<in>set xs. f x = Inr ())"
  by (induction xs) (auto simp: try_bind_Inr_iff)

lemma write_all_total: "(\<And>x. x \<in> set xs \<Longrightarrow> \<exists>bs. w x = Inr bs) \<Longrightarrow> \<exists>bs. write_all w xs = Inr bs"
  by (induction xs) (fastforce simp: try_bind_Inr_iff)+

lemma validated_tags: "validate_tags field tags = Inr () \<longleftrightarrow>
    length tags \<le> 255 \<and> (\<forall>t\<in>set tags. tag_validate_wire_counts t = Inr ())"
  by (simp add: validate_tags_def try_bind_Inr_iff wire_count_Inr_iff validate_each_Inr)

lemma validated_tags_write:
  assumes "validate_tags field tags = Inr ()"
  shows "\<exists>bs. write_tags field' tags = Inr bs"
    and "\<exists>bs. write_all (\<lambda>t. map_err f (write_tag t)) tags = Inr bs"
proof -
  have each: "\<exists>bs. write_tag t = Inr bs" if "t \<in> set tags" for t
    using assms that by (simp add: validated_tags validated_tag_writes)
  then show "\<exists>bs. write_all (\<lambda>t. map_err f (write_tag t)) tags = Inr bs"
    by (intro write_all_total) (fastforce simp: map_err_def)
  from each write_all_total [of tags write_tag] assms show "\<exists>bs. write_tags field' tags = Inr bs"
    by (auto simp: write_tags_def validated_tags wire_count_ok map_err_def)
qed

lemma validated_results_write:
  assumes "validate_search_results field rs = Inr ()"
  shows "length rs \<le> 65535" "\<exists>bs. write_all write_search_result_entry rs = Inr bs"
proof -
  from assms show "length rs \<le> 65535"
    by (simp add: validate_search_results_def try_bind_Inr_iff wire_count_Inr_iff)
  have "\<exists>bs. write_search_result_entry r = Inr bs" if "r \<in> set rs" for r
  proof -
    from assms that have "validate_tags ''SearchResultEntry.tags'' (se_tags r) = Inr ()"
      by (auto simp: validate_search_results_def try_bind_Inr_iff validate_each_Inr)
    with validated_tags_write(2) [OF this, of from_binrw] show ?thesis
      by (auto simp: write_search_result_entry_def validated_tags wire_count_ok)
  qed
  then show "\<exists>bs. write_all write_search_result_entry rs = Inr bs" by (rule write_all_total)
qed

lemma validated_entries_write:
  assumes "validate_each (\<lambda>e. validate_tags field (pe_tags e)) es = Inr ()"
  shows "\<exists>bs. write_all write_publish_entry es = Inr bs"
proof (rule write_all_total)
  fix e assume "e \<in> set es"
  with assms have "validate_tags field (pe_tags e) = Inr ()" by (simp add: validate_each_Inr)
  from validated_tags_write(1) [OF this, of "''PublishEntry.tags''"] show "\<exists>bs. write_publish_entry e = Inr bs"
    by (auto simp: write_publish_entry_def)
qed

lemma contacts_write: "\<exists>bs. write_all write_contact_entry cs = Inr bs"
  using contacts_written [of cs] by blast

lemma map_err_Inr_iff: "map_err f r = Inr x \<longleftrightarrow> r = Inr x"
  by (simp add: map_err_def split: sum.splits)

lemma validated_tags_length: "validate_tags field tags = Inr () \<Longrightarrow> length tags \<le> 255"
  by (simp add: validated_tags)

lemma validated_body_writes:
  assumes "packet_validate_wire_counts p = Inr ()"
  shows "\<exists>body. encode_body p = Inr body"
  using assms
  by (cases p)
    (auto simp: packet_validate_wire_counts_def encode_body_def write_defs write_legacy_publish_source_req_def
      map_err_Inr_iff count_only_def wire_count_ok try_bind_Inr_iff wire_count_Inr_iff
      intro: contacts_write
      dest: validated_tags_length validated_results_write validated_entries_write validated_tags_write(2) [where f = from_binrw]
        validated_tags_write(1) [where field' = "''HelloReq.tags''"]
        validated_tags_write(1) [where field' = "''HelloRes.tags''"]
        validated_tags_write(1) [where field' = "''HelloResAck.tags''"]
        validated_tags_write(1) [where field' = "''PublishSourceReq.tags''"]
        validated_tags_write(1) [where field' = "''PublishNotesReq.tags''"])

definition count_overflow :: "proto_error \<Rightarrow> bool" where
  "count_overflow e = (case e of WireCountOverflow field maximum actual \<Rightarrow> maximum < actual | _ \<Rightarrow> False)"

lemma count_overflowI:
  "wire_count_u8 field n = Inl e \<Longrightarrow> count_overflow e" "wire_count_u16 field m = Inl e' \<Longrightarrow> count_overflow e'"
  by (auto simp: wire_count_u8_def wire_count_u16_def count_overflow_def split: if_splits)

lemma try_bind_Inl_iff: "try_bind r f = Inl e \<longleftrightarrow> r = Inl e \<or> (\<exists>x. r = Inr x \<and> f x = Inl e)"
  by (cases r) auto

lemma validate_each_Inl: "validate_each f xs = Inl e \<Longrightarrow> \<exists>x\<in>set xs. f x = Inl e"
  by (induction xs) (auto simp: try_bind_Inl_iff)

lemma tag_overflow: "tag_validate_wire_counts t = Inl e \<Longrightarrow> count_overflow e"
  by (auto simp: tag_validate_wire_counts_def try_bind_Inl_iff count_overflowI
      split: tag_name.splits tag_value.splits)

lemma tags_overflow: "validate_tags field tags = Inl e \<Longrightarrow> count_overflow e"
  by (auto simp: validate_tags_def try_bind_Inl_iff count_overflowI dest!: validate_each_Inl tag_overflow)

lemma results_overflow: "validate_search_results field rs = Inl e \<Longrightarrow> count_overflow e"
  by (auto simp: validate_search_results_def try_bind_Inl_iff count_overflowI dest!: validate_each_Inl tags_overflow)

lemma packet_overflow: "packet_validate_wire_counts p = Inl e \<Longrightarrow> count_overflow e"
  by (cases p)
    (auto simp: packet_validate_wire_counts_def count_only_def try_bind_Inl_iff count_overflowI tags_overflow
      results_overflow dest!: validate_each_Inl)

section \<open>What a decoded packet holds\<close>























section \<open>Packing\<close>

text \<open>The documented contract of zlib: the decompressor gives back a prefix of what was compressed.\<close>

definition zlib_ok :: "(bytes \<Rightarrow> bytes option) \<Rightarrow> (bytes \<Rightarrow> nat \<Rightarrow> bytes option) \<Rightarrow> bool" where
  "zlib_ok deflate inflate \<longleftrightarrow> (\<forall>b c n. deflate b = Some c \<longrightarrow> inflate c n = Some (take n b))"

lemma pack_packed:
  assumes "zlib_ok deflate inflate" "deflate (drop 2 buf) = Some c" "length buf \<le> 65538"
  shows "decode_header inflate (OP_KADEMLIAPACKEDPROT # op # c) = Inr (op, drop 2 buf)"
proof -
  from assms have "inflate c 65537 = Some (drop 2 buf)" by (simp add: zlib_ok_def)
  with assms(3) show ?thesis
    by (simp add: decode_header_def MAX_DECOMPRESSED_KAD_PACKET_LEN_def)
qed

lemma packed_decodes:
  assumes "zlib_ok deflate inflate" "length buf \<le> 65538" "2 \<le> length buf" "buf ! 0 = OP_KADEMLIAHEADER"
  shows "decode inflate legacy (pack_kad_packet deflate buf) = decode inflate legacy buf"
proof -
  have "decode_header inflate buf = Inr (buf ! 1, drop 2 buf)"
    using assms(3,4) by (simp add: decode_header_def opcode_defs)
  then show ?thesis
    using pack_packed [OF assms(1) _ assms(2)]
    by (auto simp: pack_kad_packet_def decode_def Let_def split: option.splits)
qed

lemma pack_no_longer: "length (pack_kad_packet deflate buf) \<le> length buf"
  by (auto simp: pack_kad_packet_def Let_def split: option.splits)

lemma decode_encoded:
  "packet_ok p \<Longrightarrow> encode p = Inr buf \<Longrightarrow> decode inflate legacy buf = Inr (norm_packet p)"
  using body_roundtrip [of p legacy] encode_body_Inr [of p] decode_plain by fastforce

section \<open>Properties\<close>

text \<open>C2: A packet whose counts fit their wire fields and whose strings are valid UTF-8 is encoded, and decoding the
  datagram gives the packet back, with its tags in the form the reader produces; the requests that are
  only ever sent to legacy nodes come back as unknown packets with the same body.\<close>

theorem packet_roundtrip:
  assumes "packet_ok p"
  shows "\<exists>buf. encode p = Inr buf \<and> decode inflate legacy buf = Inr (norm_packet p)"
  using body_roundtrip [OF assms, of legacy] encode_body_Inr [OF assms] decode_encoded [OF assms] by blast

definition example_publish :: kad_packet where
  "example_publish =
     PktPublishKeyReq (PublishKeyReq id_ZERO
       [PublishEntry (Ed2kHash (wire_bytes id_ZERO)) [tag_filename [0x61, 0xC3, 0xA9], tag_filesize 300, tag_sources 7]])"

theorem packet_roundtrip_witness:
  "\<exists>buf. encode example_publish = Inr buf
     \<and> decode (\<lambda>_ _. None) (\<lambda>b. b) buf =
         Inr (PktPublishKeyReq (PublishKeyReq id_ZERO
           [PublishEntry (Ed2kHash (wire_bytes id_ZERO))
             [Tag (Short 1) (VString [0x61, 0xC3, 0xA9]), Tag (Short 2) (VU16 300), Tag (Short 0x15) (VU8 7)]]))"
proof -
  have "packet_ok example_publish"
    by (simp add: packet_ok_def example_publish_def tags_ok_def tag_ok_def tag_filename_def tag_filesize_def
        tag_sources_def new_short_def) code_simp
  from packet_roundtrip [OF this, of "\<lambda>_ _. None" "\<lambda>b. b"] show ?thesis
    by (simp add: example_publish_def norm_packet_def norm_publish_entry_def norm_tag_def tag_filename_def
        tag_filesize_def tag_sources_def new_short_def FT_FILENAME_def FT_FILESIZE_def FT_SOURCES_def)
qed

text \<open>C22: Packing a datagram is transparent and never makes it longer: a receiver decodes the packed datagram to what
  it would have decoded from the plain one, given that zlib decompresses what it compressed, for every
  datagram whose body is within the receiver's cap of 65536 bytes.\<close>

theorem pack_transparent:
  assumes "zlib_ok deflate inflate" "length buf \<le> 65538" "2 \<le> length buf" "buf ! 0 = OP_KADEMLIAHEADER"
  shows "decode inflate legacy (pack_kad_packet deflate buf) = decode inflate legacy buf
    \<and> length (pack_kad_packet deflate buf) \<le> length buf"
  using packed_decodes [OF assms] pack_no_longer by simp

text \<open>A compressor that writes a run of zeros as its length and stores everything else.\<close>

definition run_deflate :: "bytes \<Rightarrow> bytes option" where
  "run_deflate b =
     (if b = replicate (length b) 0 \<and> length b < 256 then Some [0, word_of_nat (length b)] else Some (1 # b))"

definition run_inflate :: "bytes \<Rightarrow> nat \<Rightarrow> bytes option" where
  "run_inflate c n =
     (case c of
        [] \<Rightarrow> None
      | k # b \<Rightarrow> if k = 1 then Some (take n b) else Some (take n (replicate (unat (b ! 0)) 0)))"

lemma run_zlib: "zlib_ok run_deflate run_inflate"
  by (auto simp: zlib_ok_def run_deflate_def run_inflate_def unat_count split: if_splits) (metis take_replicate)

theorem pack_transparent_witness:
  "pack_kad_packet run_deflate (0xE4 # 0xFF # replicate 250 0) = [0xE5, 0xFF, 0, 250]
   \<and> decode run_inflate (\<lambda>b. b) [0xE5, 0xFF, 0, 250] = decode run_inflate (\<lambda>b. b) (0xE4 # 0xFF # replicate 250 0)"
proof -
  let ?buf = "0xE4 # 0xFF # replicate 250 (0 :: u8)"
  have "pack_kad_packet run_deflate ?buf = [0xE5, 0xFF, 0, 250]"
    by (simp add: pack_kad_packet_def KAD_PACK_THRESHOLD_def run_deflate_def OP_KADEMLIAPACKEDPROT_def)
  moreover have "length ?buf \<le> 65538 \<and> 2 \<le> length ?buf \<and> ?buf ! 0 = OP_KADEMLIAHEADER"
    by (simp add: OP_KADEMLIAHEADER_def)
  ultimately show ?thesis using pack_transparent [OF run_zlib, of ?buf "\<lambda>b. b"] by metis
qed

text \<open>C26: Encoding fails exactly when a count does not fit its wire field: a packet whose counts validate is
  always written completely, under its own opcode, and any other is refused with the overflow before a
  byte is written.\<close>

theorem encode_fails_only_on_overflow:
  "case packet_validate_wire_counts p of
     Inr _ \<Rightarrow> (\<exists>body. encode p = Inr (OP_KADEMLIAHEADER # opcode p # body))
   | Inl e \<Rightarrow> encode p = Inl e \<and> count_overflow e"
  using validated_body_writes [of p] packet_overflow [of p]
  by (auto simp: encode_def split: sum.split)








end
