(* ===== verification/Outbound_Tracker.thy ===== *)
theory Outbound_Tracker
  imports Packet_Tracker Kad_Packet
begin

text \<open>
  \<^verbatim>\<open>emulebb-kad-net/src/tracker/outbound.rs\<close> and \<^verbatim>\<open>rpc/search_response_registry.rs\<close>: which requests we
  sent, so that a response is only accepted when we asked for it. The queue has its newest entry
  first. Every reading of the clock is an argument.
\<close>

section \<open>Model\<close>

record outbound_request_entry =
  inserted_at :: system_time
  entry_ip :: ip_address
  entry_opcode :: u8

record outbound_request_tracker =
  entries :: "outbound_request_entry list"
  out_window :: duration

definition outbound_new :: "duration \<Rightarrow> outbound_request_tracker" where
  "outbound_new w = \<lparr> entries = [], out_window = w \<rparr>"

definition tracks_outbound_request_opcode :: "u8 \<Rightarrow> bool" where
  "tracks_outbound_request_opcode op \<longleftrightarrow>
     op = OP_BOOTSTRAP_REQ \<or> op = OP_HELLO_REQ \<or> op = OP_HELLO_RES \<or> op = OP_REQ
     \<or> op = OP_SEARCH_NOTES_REQ \<or> op = OP_SEARCH_NOTES_REQ_LEGACY \<or> op = OP_PUBLISH_REQ_LEGACY
     \<or> op = OP_PUBLISH_KEY_REQ \<or> op = OP_PUBLISH_SOURCE_REQ \<or> op = OP_PUBLISH_NOTES_REQ
     \<or> op = OP_FINDBUDDY_REQ \<or> op = OP_CALLBACK_REQ \<or> op = OP_PING"

text \<open>The loop takes expired entries off the back of the queue until it meets one that is not expired.\<close>

definition outbound_prune :: "outbound_request_tracker \<Rightarrow> system_time \<Rightarrow> outbound_request_tracker" where
  "outbound_prune t now =
     t\<lparr> entries := rev (dropWhile (\<lambda>e. instant_since now (inserted_at e) \<ge> out_window t) (rev (entries t))) \<rparr>"

definition outbound_record ::
  "outbound_request_tracker \<Rightarrow> ip_address \<Rightarrow> u8 \<Rightarrow> system_time \<Rightarrow> system_time \<Rightarrow> outbound_request_tracker" where
  "outbound_record t ip op now now' =
     (let t = outbound_prune t now in
      if \<not> tracks_outbound_request_opcode op then t
      else t\<lparr> entries := \<lparr> inserted_at = now', entry_ip = ip, entry_opcode = op \<rparr> # entries t \<rparr>)"

definition remove_latest :: "outbound_request_tracker \<Rightarrow> ip_address \<Rightarrow> u8 \<Rightarrow> system_time \<Rightarrow> outbound_request_tracker" where
  "remove_latest t ip op now =
     (let t = outbound_prune t now in
      case position (\<lambda>e. entry_ip e = ip \<and> entry_opcode e = op) (entries t) of
        Some index \<Rightarrow> t\<lparr> entries := remove_at index (entries t) \<rparr>
      | None \<Rightarrow> t)"

definition outbound_contains ::
  "outbound_request_tracker \<Rightarrow> ip_address \<Rightarrow> u8 \<Rightarrow> bool \<Rightarrow> system_time \<Rightarrow> bool \<times> outbound_request_tracker" where
  "outbound_contains t ip op rm now =
     (let t = outbound_prune t now in
      case position (\<lambda>e. entry_ip e = ip \<and> entry_opcode e = op) (entries t) of
        Some index \<Rightarrow> (True, if rm then t\<lparr> entries := remove_at index (entries t) \<rparr> else t)
      | None \<Rightarrow> (False, t))"

text \<open>Each opcode of the list comes with the clock reading of its probe.\<close>

fun find_any ::
  "outbound_request_tracker \<Rightarrow> ip_address \<Rightarrow> (u8 \<times> system_time) list \<Rightarrow> bool \<Rightarrow> u8 option \<times> outbound_request_tracker" where
  "find_any t ip [] rm = (None, t)"
| "find_any t ip ((op, now) # ops) rm =
     (let (found, t') = outbound_contains t ip op rm now
      in if found then (Some op, t') else find_any t' ip ops rm)"

text \<open>The registry of expected search responses, a count of registrations per key. Registering panics
  (\<open>None\<close>) when the count would overflow.\<close>

record search_response_key =
  resp_target :: node_id
  resp_endpoint :: "ip_address \<times> u16"

type_synonym registry = "search_response_key \<rightharpoonup> nat"

definition registry_register :: "registry \<Rightarrow> search_response_key \<Rightarrow> registry option" where
  "registry_register r key =
     (let references = (case r key of None \<Rightarrow> 0 | Some n \<Rightarrow> n) in
      if references = 18446744073709551615 then None else Some (r(key \<mapsto> references + 1)))"

definition registry_unregister :: "registry \<Rightarrow> search_response_key \<Rightarrow> registry" where
  "registry_unregister r key =
     (case r key of
        None \<Rightarrow> r
      | Some references \<Rightarrow> if references > 1 then r(key \<mapsto> references - 1) else r(key := None))"

definition registry_contains :: "registry \<Rightarrow> node_id \<Rightarrow> ip_address \<times> u16 \<Rightarrow> bool" where
  "registry_contains r target endpoint =
     (r \<lparr> resp_target = target, resp_endpoint = endpoint \<rparr> \<noteq> None)"

section \<open>Specification\<close>

text \<open>The specification keeps every request for ever and looks at the age of an entry when it is asked for.\<close>

fun remove_first :: "('a \<Rightarrow> bool) \<Rightarrow> 'a list \<Rightarrow> 'a list" where
  "remove_first p [] = []"
| "remove_first p (x # xs) = (if p x then xs else x # remove_first p xs)"

definition alive :: "duration \<Rightarrow> system_time \<Rightarrow> outbound_request_entry \<Rightarrow> bool" where
  "alive w now e \<longleftrightarrow> instant_since now (inserted_at e) < w"

definition asked :: "ip_address \<Rightarrow> u8 \<Rightarrow> outbound_request_entry \<Rightarrow> bool" where
  "asked ip op e \<longleftrightarrow> entry_ip e = ip \<and> entry_opcode e = op"

datatype outbound_op =
    Send ip_address u8 system_time system_time
  | SendFailed ip_address u8 system_time
  | Response ip_address u8 bool system_time

fun outbound_step :: "outbound_op \<Rightarrow> outbound_request_tracker \<Rightarrow> bool option \<times> outbound_request_tracker" where
  "outbound_step (Send ip op now now') t = (None, outbound_record t ip op now now')"
| "outbound_step (SendFailed ip op now) t = (None, remove_latest t ip op now)"
| "outbound_step (Response ip op rm now) t = map_prod Some id (outbound_contains t ip op rm now)"

fun spec_step :: "duration \<Rightarrow> outbound_op \<Rightarrow> outbound_request_entry list \<Rightarrow> bool option \<times> outbound_request_entry list" where
  "spec_step w (Send ip op now now') es =
     (None, if tracks_outbound_request_opcode op
            then \<lparr> inserted_at = now', entry_ip = ip, entry_opcode = op \<rparr> # es else es)"
| "spec_step w (SendFailed ip op now) es = (None, remove_first (\<lambda>e. asked ip op e \<and> alive w now e) es)"
| "spec_step w (Response ip op rm now) es =
     (Some (\<exists>e\<in>set es. asked ip op e \<and> alive w now e),
      if rm then remove_first (\<lambda>e. asked ip op e \<and> alive w now e) es else es)"

fun outbound_answers :: "outbound_request_tracker \<Rightarrow> outbound_op list \<Rightarrow> bool option list" where
  "outbound_answers t [] = []"
| "outbound_answers t (op # ops) = (let (a, t') = outbound_step op t in a # outbound_answers t' ops)"

fun spec_answers :: "duration \<Rightarrow> outbound_request_entry list \<Rightarrow> outbound_op list \<Rightarrow> bool option list" where
  "spec_answers w es [] = []"
| "spec_answers w es (op # ops) = (let (a, es') = spec_step w op es in a # spec_answers w es' ops)"

fun outbound_clocked :: "system_time \<Rightarrow> outbound_op list \<Rightarrow> bool" where
  "outbound_clocked c [] \<longleftrightarrow> True"
| "outbound_clocked c (Send ip op now now' # ops) \<longleftrightarrow> c \<le> now \<and> now \<le> now' \<and> outbound_clocked now' ops"
| "outbound_clocked c (SendFailed ip op now # ops) \<longleftrightarrow> c \<le> now \<and> outbound_clocked now ops"
| "outbound_clocked c (Response ip op rm now # ops) \<longleftrightarrow> c \<le> now \<and> outbound_clocked now ops"

section \<open>Refinement\<close>

text \<open>Newest first, and nothing from the future.\<close>

definition queue_ok :: "system_time \<Rightarrow> outbound_request_entry list \<Rightarrow> bool" where
  "queue_ok c es \<longleftrightarrow> sorted_wrt (\<lambda>a b. inserted_at b \<le> inserted_at a) es \<and> (\<forall>e\<in>set es. inserted_at e \<le> c)"

lemma alive_antimono: "c \<le> c' \<Longrightarrow> alive w c' e \<Longrightarrow> alive w c e"
  by (auto simp: alive_def instant_since_def)

lemma alive_newer: "inserted_at a \<le> inserted_at b \<Longrightarrow> alive w now a \<Longrightarrow> alive w now b"
  by (auto simp: alive_def instant_since_def)

lemma dropWhile_sorted:
  "sorted_wrt (\<lambda>a b. p a \<longrightarrow> p b) (xs :: 'a list) \<Longrightarrow> dropWhile (\<lambda>x. \<not> p x) xs = filter p xs"
  by (induction xs) (auto simp: filter_id_conv)

lemma prune_filter:
  assumes "queue_ok c (entries t)"
  shows "entries (outbound_prune t now) = filter (alive (out_window t) now) (entries t)"
proof -
  have "sorted_wrt (\<lambda>a b. alive (out_window t) now a \<longrightarrow> alive (out_window t) now b) (rev (entries t))"
    using assms unfolding queue_ok_def sorted_wrt_rev by (auto elim!: sorted_wrt_mono_rel [rotated] dest: alive_newer)
  from dropWhile_sorted [OF this] show ?thesis
    by (simp add: outbound_prune_def alive_def [abs_def] not_less rev_filter)
qed

lemma remove_at_position: "position p xs = Some i \<Longrightarrow> remove_at i xs = remove_first p xs"
  by (induction xs arbitrary: i) (auto simp: remove_at_def split: if_splits)

lemma remove_first_none: "(\<forall>x\<in>set xs. \<not> p x) \<Longrightarrow> remove_first p xs = xs"
  by (induction xs) auto

lemma filter_remove_first: "filter q (remove_first (\<lambda>x. p x \<and> q x) xs) = remove_first p (filter q xs)"
  by (induction xs) auto

lemma queue_ok_filter: "queue_ok c es \<Longrightarrow> queue_ok c (filter p es)"
  by (auto simp: queue_ok_def sorted_wrt_filter)

lemma remove_first_subset: "set (remove_first p xs) \<subseteq> set xs"
  by (induction xs) auto

lemma queue_ok_remove: "queue_ok c es \<Longrightarrow> queue_ok c (remove_first p es)"
proof (induction es)
  case (Cons e es)
  then show ?case using remove_first_subset [of p es] by (auto simp: queue_ok_def)
qed simp

lemma queue_ok_later: "queue_ok c es \<Longrightarrow> c \<le> c' \<Longrightarrow> queue_ok c' es"
  by (fastforce simp: queue_ok_def)

text \<open>The queue and the full history agree on every entry that is still alive.\<close>

definition agrees :: "system_time \<Rightarrow> outbound_request_tracker \<Rightarrow> outbound_request_entry list \<Rightarrow> bool" where
  "agrees c t es \<longleftrightarrow> queue_ok c (entries t)
     \<and> (\<forall>c'\<ge>c. filter (alive (out_window t) c') es = filter (alive (out_window t) c') (entries t))"

lemma agrees_prune:
  assumes "agrees c t es" "c \<le> now"
  shows "agrees now (outbound_prune t now) es"
    and "entries (outbound_prune t now) = filter (alive (out_window t) now) es"
    and "out_window (outbound_prune t now) = out_window t"
proof -
  have q: "queue_ok c (entries t)" and f: "\<And>c'. c \<le> c' \<Longrightarrow>
      filter (alive (out_window t) c') es = filter (alive (out_window t) c') (entries t)"
    using assms(1) by (auto simp: agrees_def)
  show w: "out_window (outbound_prune t now) = out_window t" by (simp add: outbound_prune_def)
  show e: "entries (outbound_prune t now) = filter (alive (out_window t) now) es"
    using prune_filter [OF q] f [OF assms(2)] by simp
  have "filter (alive (out_window t) c') (filter (alive (out_window t) now) es) = filter (alive (out_window t) c') es"
    if "now \<le> c'" for c'
    using that by (auto simp: intro!: filter_cong dest: alive_antimono)
  moreover have "queue_ok now (entries (outbound_prune t now))"
    using prune_filter [OF q, of now] queue_ok_later [OF queue_ok_filter [OF q] assms(2)] by simp
  ultimately show "agrees now (outbound_prune t now) es"
    by (simp add: agrees_def w e)
qed

lemma agrees_push:
  assumes "agrees c t es" "c \<le> inserted_at e"
  shows "agrees (inserted_at e) (t\<lparr> entries := e # entries t \<rparr>) (e # es)"
  using assms by (fastforce simp: agrees_def queue_ok_def)

lemma agrees_later: "agrees c t es \<Longrightarrow> c \<le> c' \<Longrightarrow> agrees c' t es"
  by (auto simp: agrees_def intro: queue_ok_later)

lemma agrees_remove:
  assumes "agrees now t es" "entries t = filter (alive (out_window t) now) es"
  shows "agrees now (t\<lparr> entries := remove_first (asked ip op) (entries t) \<rparr>)
    (remove_first (\<lambda>e. asked ip op e \<and> alive (out_window t) now e) es)"
proof -
  let ?a = "alive (out_window t)"
  have all: "filter (?a now) (remove_first (\<lambda>e. asked ip op e \<and> ?a now e) es) = remove_first (asked ip op) (entries t)"
    using filter_remove_first [of "?a now" "asked ip op" es] assms(2) by simp
  have "filter (?a c') xs = filter (?a c') (filter (?a now) xs)" if "now \<le> c'" for c' xs
    using that by (auto intro!: filter_cong dest: alive_antimono)
  then have "filter (?a c') (remove_first (\<lambda>e. asked ip op e \<and> ?a now e) es)
      = filter (?a c') (remove_first (asked ip op) (entries t))" if "now \<le> c'" for c'
    using that all by metis
  with assms(1) show ?thesis by (simp add: agrees_def queue_ok_remove)
qed

text \<open>Taking out the newest matching entry, on both sides.\<close>

lemma take_out:
  assumes "agrees c t es" "c \<le> now"
  shows "position (\<lambda>e. entry_ip e = ip \<and> entry_opcode e = op) (entries (outbound_prune t now)) = None
      \<longleftrightarrow> \<not> (\<exists>e\<in>set es. asked ip op e \<and> alive (out_window t) now e)" (is ?found)
    and "agrees now (case position (\<lambda>e. entry_ip e = ip \<and> entry_opcode e = op) (entries (outbound_prune t now)) of
        Some i \<Rightarrow> (outbound_prune t now)\<lparr> entries := remove_at i (entries (outbound_prune t now)) \<rparr>
      | None \<Rightarrow> outbound_prune t now) (remove_first (\<lambda>e. asked ip op e \<and> alive (out_window t) now e) es)" (is ?rest)
proof -
  note p = agrees_prune [OF assms]
  have m: "(\<lambda>e. entry_ip e = ip \<and> entry_opcode e = op) = asked ip op"
    by (simp add: asked_def [abs_def])
  show f: ?found unfolding m position_None_iff by (auto simp: p(2))
  show ?rest
  proof (cases "position (asked ip op) (entries (outbound_prune t now))")
    case None
    then have "remove_first (\<lambda>e. asked ip op e \<and> alive (out_window t) now e) es = es"
      using f unfolding m by (intro remove_first_none) blast
    with p(1) None show ?thesis unfolding m by simp
  next
    case (Some i)
    with agrees_remove [OF p(1), of ip op] p(2,3) remove_at_position [OF Some] show ?thesis
      unfolding m by simp
  qed
qed

lemma agrees_window: "out_window (snd (outbound_step op t)) = out_window t"
  by (cases op) (auto simp: outbound_record_def remove_latest_def outbound_contains_def outbound_prune_def Let_def
      split: option.splits)

lemma response_step:
  assumes "agrees c t es" "c \<le> now"
  shows "fst (outbound_contains t ip op rm now) = (\<exists>e\<in>set es. asked ip op e \<and> alive (out_window t) now e)"
    and "agrees now (snd (outbound_contains t ip op rm now))
      (if rm then remove_first (\<lambda>e. asked ip op e \<and> alive (out_window t) now e) es else es)"
  using take_out [OF assms, of ip op] agrees_prune(1) [OF assms]
  by (auto simp: outbound_contains_def Let_def split: option.splits)

lemma send_step:
  assumes "agrees c t es" "c \<le> now" "now \<le> now'"
  shows "agrees now' (outbound_record t ip op now now') (snd (spec_step w (Send ip op now now') es))"
  using agrees_prune(1) [OF assms(1,2)] agrees_later [OF agrees_prune(1) [OF assms(1,2)] assms(3)] assms(3)
    agrees_push [of now "outbound_prune t now" es "\<lparr> inserted_at = now', entry_ip = ip, entry_opcode = op \<rparr>"]
  by (simp add: outbound_record_def Let_def)

lemma remove_latest_step:
  assumes "agrees c t es" "c \<le> now"
  shows "agrees now (remove_latest t ip op now) (remove_first (\<lambda>e. asked ip op e \<and> alive (out_window t) now e) es)"
  using take_out(2) [OF assms, of ip op] by (simp add: remove_latest_def Let_def split: option.splits)

lemma answers_agree:
  "agrees c t es \<Longrightarrow> outbound_clocked c ops \<Longrightarrow> outbound_answers t ops = spec_answers (out_window t) es ops"
proof (induction ops arbitrary: c t es)
  case (Cons op ops)
  have w: "out_window (snd (outbound_step op t)) = out_window t" by (rule agrees_window)
  show ?case
  proof (cases op)
    case (Send ip o' now now')
    with Cons.prems Cons.IH [OF send_step [OF Cons.prems(1), of now now' ip o' "out_window t"]] w
    show ?thesis by simp
  next
    case (SendFailed ip o' now)
    with Cons.prems Cons.IH [OF remove_latest_step [OF Cons.prems(1), of now ip o']] w show ?thesis by simp
  next
    case (Response ip o' rm now)
    with Cons.prems Cons.IH [OF response_step(2) [OF Cons.prems(1), of now ip o' rm]] w
      response_step(1) [OF Cons.prems(1), of now ip o' rm]
    show ?thesis by (simp add: Let_def split_beta)
  qed
qed simp

section \<open>Properties\<close>

text \<open>C13: The tracker of outbound requests answers exactly as one that never forgets: over every run with a
  clock that does not go back, a response is accepted if and only if a tracked request of that opcode
  was sent to that address less than one window ago and has neither failed to be sent nor been
  consumed by an earlier response.\<close>

theorem outbound_tracker_refines:
  assumes "outbound_clocked c ops"
  shows "outbound_answers (outbound_new w) ops = spec_answers w [] ops"
proof -
  have "agrees c (outbound_new w) []" by (simp add: agrees_def outbound_new_def queue_ok_def)
  from answers_agree [OF this assms] show ?thesis by (simp add: outbound_new_def)
qed

theorem outbound_tracker_refines_witness:
  "outbound_answers (outbound_new 100)
     [Send (V6 1) OP_HELLO_REQ 0 1, Response (V6 1) OP_HELLO_REQ True 50, Response (V6 1) OP_HELLO_REQ True 60]
   = [None, Some True, Some False]"
  using outbound_tracker_refines [of 0 "[Send (V6 1) OP_HELLO_REQ 0 1, Response (V6 1) OP_HELLO_REQ True 50,
      Response (V6 1) OP_HELLO_REQ True 60]" 100]
  by (simp add: tracks_outbound_request_opcode_def asked_def alive_def instant_since_def)

section \<open>The registry of expected search responses\<close>

text \<open>Traversals hold guards: creating one registers its key, dropping it unregisters the key once. The
  pair is the registry with the guards that are alive.\<close>

datatype guard_op = NewGuard search_response_key | DropGuard search_response_key

fun guard_step :: "guard_op \<Rightarrow> registry \<times> search_response_key multiset \<Rightarrow> registry \<times> search_response_key multiset" where
  "guard_step (NewGuard key) (r, guards) =
     (case registry_register r key of None \<Rightarrow> (r, guards) | Some r' \<Rightarrow> (r', add_mset key guards))"
| "guard_step (DropGuard key) (r, guards) = (registry_unregister r key, guards - {#key#})"

fun guard_allowed :: "registry \<times> search_response_key multiset \<Rightarrow> guard_op \<Rightarrow> bool" where
  "guard_allowed (r, guards) (NewGuard key) \<longleftrightarrow> True"
| "guard_allowed (r, guards) (DropGuard key) \<longleftrightarrow> key \<in># guards"

fun registry_exact :: "registry \<times> search_response_key multiset \<Rightarrow> bool" where
  "registry_exact (r, guards) \<longleftrightarrow>
     (\<forall>key. r key = (if count guards key = 0 then None else Some (count guards key)))"

lemma registry_exact_step: "registry_exact s \<Longrightarrow> guard_allowed s op \<Longrightarrow> registry_exact (guard_step op s)"
  by (cases s; cases op)
    (auto simp: registry_register_def registry_unregister_def Let_def count_eq_zero_iff split: option.splits if_splits)

interpretation registry_runs: op_system guard_step guard_allowed registry_exact
  by unfold_locales (rule registry_exact_step)

text \<open>C19: A streamed search response is expected exactly while a registration guard for its target and endpoint
  is alive, however many traversals register the same pair and in whatever order they drop their
  guards.\<close>

theorem registry_contains_iff_guarded:
  assumes "allowed_run guard_allowed guard_step (Map.empty, {#}) ops"
  shows "registry_contains (fst (fold guard_step ops (Map.empty, {#}))) target endpoint
    \<longleftrightarrow> \<lparr> resp_target = target, resp_endpoint = endpoint \<rparr> \<in># snd (fold guard_step ops (Map.empty, {#}))"
proof -
  have "registry_exact (Map.empty, {#})" by simp
  from registry_runs.run_keeps [OF this assms]
  show ?thesis
    by (cases "fold guard_step ops (Map.empty, {#})") (auto simp: registry_contains_def count_eq_zero_iff)
qed

theorem registry_contains_iff_guarded_witness:
  "let key = \<lparr> resp_target = id_ZERO, resp_endpoint = (V6 1, 4672) \<rparr>;
       s = fold guard_step [NewGuard key, NewGuard key, DropGuard key] (Map.empty, {#})
   in registry_contains (fst s) id_ZERO (V6 1, 4672) \<and> snd s = {#key#}"
  using registry_contains_iff_guarded
    [of "[NewGuard \<lparr> resp_target = id_ZERO, resp_endpoint = (V6 1, 4672) \<rparr>,
          NewGuard \<lparr> resp_target = id_ZERO, resp_endpoint = (V6 1, 4672) \<rparr>,
          DropGuard \<lparr> resp_target = id_ZERO, resp_endpoint = (V6 1, 4672) \<rparr>]" id_ZERO "(V6 1, 4672)"]
  by (simp add: registry_register_def)

end
