(* ===== verification/Kad_Obfuscation.thy ===== *)
theory Kad_Obfuscation
  imports Packet_Tracker Kad_Packet "HOL-Library.AList"
begin

text \<open>
  \<^verbatim>\<open>emulebb-kad-net/src/obfuscation.rs\<close> with its parts \<^verbatim>\<open>crypto.rs\<close>, \<^verbatim>\<open>peer_state.rs\<close>, \<^verbatim>\<open>outbound.rs\<close> and
  \<^verbatim>\<open>inbound.rs\<close>: the Kad UDP obfuscation layer. MD5 is the argument \<open>md5\<close>. A hash table is the list of its
  entries in iteration order. Random draws and clock readings are arguments.
\<close>

section \<open>Ciphers and keys (crypto.rs)\<close>

definition swap_at :: "u8 list \<Rightarrow> nat \<Rightarrow> nat \<Rightarrow> u8 list" where
  "swap_at s i j = s[i := s ! j, j := s ! i]"

definition rc4_schedule :: "bytes \<Rightarrow> u8 list" where
  "rc4_schedule key =
     fst (fold (\<lambda>i (s, j).
            let j = (j + unat (s ! i) + unat (key ! (i mod length key))) mod 256
            in (swap_at s i j, j)) [0..<256] (map word_of_nat [0..<256], 0))"

fun rc4_stream :: "u8 list \<Rightarrow> nat \<Rightarrow> nat \<Rightarrow> bytes \<Rightarrow> bytes" where
  "rc4_stream s i j [] = []"
| "rc4_stream s i j (b # bs) =
     (let i = (i + 1) mod 256;
          j = (j + unat (s ! i)) mod 256;
          s = swap_at s i j
      in (b XOR s ! ((unat (s ! i) + unat (s ! j)) mod 256)) # rc4_stream s i j bs)"

definition rc4 :: "bytes \<Rightarrow> bytes \<Rightarrow> bytes" where
  "rc4 key data = (if key = [] \<or> data = [] then data else rc4_stream (rc4_schedule key) 0 0 data)"

definition derive_kad_request_key :: "(bytes \<Rightarrow> bytes) \<Rightarrow> node_id \<Rightarrow> u16 \<Rightarrow> bytes" where
  "derive_kad_request_key md5 node_id random_key_part =
     md5 (arr_bytes (wire_bytes node_id) @ to_le 2 random_key_part)"

definition derive_kad_receiver_key :: "(bytes \<Rightarrow> bytes) \<Rightarrow> u32 \<Rightarrow> u16 \<Rightarrow> bytes" where
  "derive_kad_receiver_key md5 receiver_verify_key random_key_part =
     md5 (to_le 4 receiver_verify_key @ to_le 2 random_key_part)"

definition ipv4_octets :: "ipv4 \<Rightarrow> bytes" where
  "ipv4_octets ip = [octet0 ip, octet1 ip, octet2 ip, octet3 ip]"

definition derive_udp_verify_key :: "(bytes \<Rightarrow> bytes) \<Rightarrow> u32 \<Rightarrow> ipv4 \<Rightarrow> u32" where
  "derive_udp_verify_key md5 our_udp_key target_ip =
     (let digest = md5 (ipv4_octets target_ip @ to_le 4 our_udp_key);
          folded = from_le (take 4 digest) XOR from_le (take 4 (drop 4 digest))
                   XOR from_le (take 4 (drop 8 digest)) XOR from_le (take 4 (drop 12 digest))
      in (folded mod 0xFFFFFFFE) + 1)"

section \<open>State (obfuscation.rs, peer_state.rs)\<close>

definition MAGICVALUE_UDP_SYNC_CLIENT :: u32 where "MAGICVALUE_UDP_SYNC_CLIENT = 0x395F2EC1"
definition KAD_MARKER_RECEIVER_KEY :: u8 where "KAD_MARKER_RECEIVER_KEY = 0x02"
definition UDP_PADDING_LEN :: u8 where "UDP_PADDING_LEN = 0"
definition PEER_MAP_CAP :: nat where "PEER_MAP_CAP = 50000"

datatype kad_key_mode = NodeIdMode | ReceiverVerifyKeyMode

record decrypt_result =
  dr_data :: bytes
  dr_was_obfuscated :: bool
  dr_sender_verify_key :: "u32 option"
  dr_receiver_verify_key_valid :: bool

datatype outbound_mode = OutPlaintext | OutNodeId | OutReceiverVerifyKey

definition mode_as_str :: "outbound_mode \<Rightarrow> string" where
  "mode_as_str m =
     (case m of OutPlaintext \<Rightarrow> ''plaintext'' | OutNodeId \<Rightarrow> ''node_id'' | OutReceiverVerifyKey \<Rightarrow> ''receiver_verify_key'')"

record outbound_info =
  oi_mode :: outbound_mode
  oi_peer_node_id :: "node_id option"
  oi_peer_kad_version :: "u8 option"
  oi_receiver_verify_key :: "u32 option"
  oi_sender_verify_key :: "u32 option"

type_synonym socket_addr = "ip_address \<times> u16"

record peer_crypto_state =
  pc_node_id :: "node_id option"
  pc_kad_version :: "u8 option"
  pc_last_seen :: "system_time option"

record verify_key_entry =
  vk_key :: u32
  vk_last_seen :: system_time

record obfuscation_layer =
  ol_our_node_id :: node_id
  ol_our_udp_key :: u32
  ol_enabled :: bool
  ol_peers :: "(socket_addr \<times> peer_crypto_state) list"
  ol_receiver_verify_keys :: "(ip_address \<times> verify_key_entry) list"
  ol_peer_key_learning_enabled :: bool

definition layer_new :: "node_id \<Rightarrow> u32 \<Rightarrow> bool \<Rightarrow> obfuscation_layer" where
  "layer_new our_node_id our_udp_key en =
     \<lparr> ol_our_node_id = our_node_id, ol_our_udp_key = our_udp_key, ol_enabled = en, ol_peers = [],
       ol_receiver_verify_keys = [], ol_peer_key_learning_enabled = True \<rparr>"

definition verify_key_for_ip :: "(bytes \<Rightarrow> bytes) \<Rightarrow> obfuscation_layer \<Rightarrow> ipv4 \<Rightarrow> u32" where
  "verify_key_for_ip md5 l ip = derive_udp_verify_key md5 (ol_our_udp_key l) ip"

text \<open>The entry with the smallest time; the first of several in iteration order.\<close>

fun min_by_key :: "('v \<Rightarrow> system_time) \<Rightarrow> ('k \<times> 'v) list \<Rightarrow> ('k \<times> 'v) option" where
  "min_by_key f [] = None"
| "min_by_key f (x # xs) =
     (case min_by_key f xs of None \<Rightarrow> Some x | Some y \<Rightarrow> if f (snd x) \<le> f (snd y) then Some x else Some y)"

lemma min_by_key_mem: "min_by_key f xs = Some y \<Longrightarrow> y \<in> set xs"
  by (induction xs arbitrary: y) (auto split: option.splits if_splits)

lemma length_delete_less: "(k, v) \<in> set xs \<Longrightarrow> length (AList.delete k xs) < length xs"
  by (auto simp: AList.delete_eq intro!: length_filter_less)

function evict_over_cap :: "('v \<Rightarrow> system_time) \<Rightarrow> nat \<Rightarrow> ('k \<times> 'v) list \<Rightarrow> ('k \<times> 'v) list" where
  "evict_over_cap last_seen cap m =
     (if length m > cap then
        case min_by_key last_seen m of
          Some (key, v) \<Rightarrow> evict_over_cap last_seen cap (AList.delete key m)
        | None \<Rightarrow> m
      else m)"
  by pat_completeness auto
termination
  by (relation "measure (\<lambda>(f, cap, m). length m)") (auto dest: min_by_key_mem length_delete_less)

declare evict_over_cap.simps [simp del]

record resolved_peer =
  rp_receiver_verify_key :: "u32 option"
  rp_node_id :: "node_id option"
  rp_kad_version :: "u8 option"

definition default_peer :: peer_crypto_state where
  "default_peer = \<lparr> pc_node_id = None, pc_kad_version = None, pc_last_seen = None \<rparr>"

definition peer_or_default :: "obfuscation_layer \<Rightarrow> socket_addr \<Rightarrow> peer_crypto_state" where
  "peer_or_default l addr = (case map_of (ol_peers l) addr of None \<Rightarrow> default_peer | Some p \<Rightarrow> p)"

definition peer_last_seen :: "system_time \<Rightarrow> peer_crypto_state \<Rightarrow> system_time" where
  "peer_last_seen now p = (case pc_last_seen p of None \<Rightarrow> now | Some t \<Rightarrow> t)"

definition register_peer_identity :: "obfuscation_layer \<Rightarrow> socket_addr \<Rightarrow> node_id \<Rightarrow> system_time \<Rightarrow> obfuscation_layer" where
  "register_peer_identity l addr node_id now =
     l\<lparr> ol_peers := evict_over_cap (peer_last_seen now) PEER_MAP_CAP
          (AList.update addr ((peer_or_default l addr)\<lparr> pc_node_id := Some node_id, pc_last_seen := Some now \<rparr>)
             (ol_peers l)) \<rparr>"

definition register_peer_version :: "obfuscation_layer \<Rightarrow> socket_addr \<Rightarrow> u8 \<Rightarrow> system_time \<Rightarrow> obfuscation_layer" where
  "register_peer_version l addr kad_version now =
     l\<lparr> ol_peers := evict_over_cap (peer_last_seen now) PEER_MAP_CAP
          (AList.update addr ((peer_or_default l addr)\<lparr> pc_kad_version := Some kad_version, pc_last_seen := Some now \<rparr>)
             (ol_peers l)) \<rparr>"

definition register_peer_key :: "obfuscation_layer \<Rightarrow> socket_addr \<Rightarrow> u32 \<Rightarrow> system_time \<Rightarrow> obfuscation_layer" where
  "register_peer_key l addr key now =
     (if \<not> ol_peer_key_learning_enabled l then l
      else l\<lparr> ol_receiver_verify_keys := evict_over_cap vk_last_seen PEER_MAP_CAP
                (AList.update (fst addr) \<lparr> vk_key = key, vk_last_seen = now \<rparr> (ol_receiver_verify_keys l)) \<rparr>)"

definition reset_peer_keys :: "obfuscation_layer \<Rightarrow> bool \<Rightarrow> obfuscation_layer" where
  "reset_peer_keys l accept_new_keys =
     l\<lparr> ol_receiver_verify_keys := [], ol_peer_key_learning_enabled := accept_new_keys \<rparr>"

definition receiver_verify_key_for_addr :: "obfuscation_layer \<Rightarrow> socket_addr \<Rightarrow> u32 option" where
  "receiver_verify_key_for_addr l addr = map_option vk_key (map_of (ol_receiver_verify_keys l) (fst addr))"

definition peer_state_for_addr :: "obfuscation_layer \<Rightarrow> socket_addr \<Rightarrow> resolved_peer" where
  "peer_state_for_addr l addr =
     (let peer = peer_or_default l addr in
      \<lparr> rp_receiver_verify_key = map_option vk_key (map_of (ol_receiver_verify_keys l) (fst addr)),
        rp_node_id = pc_node_id peer, rp_kad_version = pc_kad_version peer \<rparr>)"

section \<open>Sending (outbound.rs)\<close>

definition can_use_node_id_mode :: "resolved_peer \<Rightarrow> bool" where
  "can_use_node_id_mode peer \<longleftrightarrow>
     rp_node_id peer \<noteq> None \<and> (case rp_kad_version peer of None \<Rightarrow> True | Some version \<Rightarrow> version \<ge> 6)"

definition should_prefer_receiver_verify_key :: "u8 \<Rightarrow> bool" where
  "should_prefer_receiver_verify_key op \<longleftrightarrow> op = OP_FIREWALLED2_REQ \<or> op = OP_PUBLISH_RES_ACK"

definition is_plain_protocol_marker :: "u8 \<Rightarrow> bool" where
  "is_plain_protocol_marker b \<longleftrightarrow> b \<in> {0xC5, 0xD4, 0xE4, 0xE5, 0xA3, 0xB2}"

text \<open>The loop over the random draws; \<open>None\<close> when the draws run out before it ends.\<close>

fun select_marker :: "kad_key_mode \<Rightarrow> u8 list \<Rightarrow> u8 option" where
  "select_marker mode [] = None"
| "select_marker mode (draw # draws) =
     (let marker = draw AND NOT 0x03;
          marker = (case mode of ReceiverVerifyKeyMode \<Rightarrow> marker OR KAD_MARKER_RECEIVER_KEY | NodeIdMode \<Rightarrow> marker)
      in if \<not> is_plain_protocol_marker marker then Some marker else select_marker mode draws)"

definition inspect_outbound :: "(bytes \<Rightarrow> bytes) \<Rightarrow> obfuscation_layer \<Rightarrow> socket_addr \<Rightarrow> u8 \<Rightarrow> outbound_info" where
  "inspect_outbound md5 l addr op =
     (let peer = peer_state_for_addr l addr;
          mode =
            (if \<not> ol_enabled l then OutPlaintext
             else if should_prefer_receiver_verify_key op \<and> rp_receiver_verify_key peer \<noteq> None then OutReceiverVerifyKey
             else if can_use_node_id_mode peer then OutNodeId
             else if rp_receiver_verify_key peer \<noteq> None then OutReceiverVerifyKey
             else OutPlaintext);
          sender_verify_key =
            (case (mode, fst addr) of
               (OutPlaintext, _) \<Rightarrow> None
             | (_, V4 ip) \<Rightarrow> Some (verify_key_for_ip md5 l ip)
             | (_, V6 _) \<Rightarrow> None)
      in \<lparr> oi_mode = mode, oi_peer_node_id = rp_node_id peer, oi_peer_kad_version = rp_kad_version peer,
           oi_receiver_verify_key = rp_receiver_verify_key peer, oi_sender_verify_key = sender_verify_key \<rparr>)"

text \<open>What a call of \<^verbatim>\<open>encrypt\<close> comes to: a datagram, a panic of an \<^verbatim>\<open>unwrap\<close>, or still drawing markers. The
  peer state is read twice under its lock, so the layer may have changed between the two readings:
  \<open>l\<close> is the layer at the first reading and \<open>l'\<close> at the second.\<close>

datatype encrypt_outcome = Panicked | Drawing | Datagram bytes

definition rc4_key_for :: "(bytes \<Rightarrow> bytes) \<Rightarrow> kad_key_mode \<Rightarrow> resolved_peer \<Rightarrow> u16 \<Rightarrow> bytes option" where
  "rc4_key_for md5 mode peer random_key_part =
     (case mode of
        NodeIdMode \<Rightarrow> map_option (\<lambda>n. derive_kad_request_key md5 n random_key_part) (rp_node_id peer)
      | ReceiverVerifyKeyMode \<Rightarrow>
          map_option (\<lambda>k. derive_kad_receiver_key md5 k random_key_part) (rp_receiver_verify_key peer))"

definition preferred_mode :: "outbound_mode \<Rightarrow> kad_key_mode option" where
  "preferred_mode m =
     (case m of OutPlaintext \<Rightarrow> None | OutNodeId \<Rightarrow> Some NodeIdMode | OutReceiverVerifyKey \<Rightarrow> Some ReceiverVerifyKeyMode)"

definition encrypt_across ::
  "(bytes \<Rightarrow> bytes) \<Rightarrow> obfuscation_layer \<Rightarrow> obfuscation_layer \<Rightarrow> socket_addr \<Rightarrow> u8 \<Rightarrow> bytes \<Rightarrow> u16 \<Rightarrow> u8 list
     \<Rightarrow> encrypt_outcome" where
  "encrypt_across md5 l l' addr op plaintext random_key_part draws =
     (let outbound = inspect_outbound md5 l addr op; peer = peer_state_for_addr l' addr in
      case preferred_mode (oi_mode outbound) of
        None \<Rightarrow> Datagram plaintext
      | Some mode \<Rightarrow>
          (case rc4_key_for md5 mode peer random_key_part of
             None \<Rightarrow> Panicked
           | Some rc4_key \<Rightarrow>
               (case fst addr of
                  V6 _ \<Rightarrow> Datagram plaintext
                | V4 ip \<Rightarrow>
                    let tail = rc4 rc4_key
                          (to_le 4 MAGICVALUE_UDP_SYNC_CLIENT @ [UDP_PADDING_LEN]
                           @ to_le 4 (case rp_receiver_verify_key peer of None \<Rightarrow> 0 | Some k \<Rightarrow> k)
                           @ to_le 4 (verify_key_for_ip md5 l ip) @ plaintext)
                    in (case select_marker mode draws of
                          None \<Rightarrow> Drawing
                        | Some marker \<Rightarrow> Datagram (marker # to_le 2 random_key_part @ tail)))))"

definition encrypt ::
  "(bytes \<Rightarrow> bytes) \<Rightarrow> obfuscation_layer \<Rightarrow> socket_addr \<Rightarrow> u8 \<Rightarrow> bytes \<Rightarrow> u16 \<Rightarrow> u8 list \<Rightarrow> encrypt_outcome" where
  "encrypt md5 l = encrypt_across md5 l l"

section \<open>Receiving (inbound.rs)\<close>

definition plaintext_result :: "bytes \<Rightarrow> decrypt_result" where
  "plaintext_result buf =
     \<lparr> dr_data = buf, dr_was_obfuscated = False, dr_sender_verify_key = None, dr_receiver_verify_key_valid = False \<rparr>"

definition marker_try_order :: "u8 \<Rightarrow> kad_key_mode list" where
  "marker_try_order marker =
     (if marker AND 0x03 = KAD_MARKER_RECEIVER_KEY then [ReceiverVerifyKeyMode, NodeIdMode]
      else [NodeIdMode, ReceiverVerifyKeyMode])"

text \<open>One turn of the loop over the key modes; \<open>None\<close> continues with the next mode.\<close>

definition try_mode ::
  "(bytes \<Rightarrow> bytes) \<Rightarrow> obfuscation_layer \<Rightarrow> ipv4 \<Rightarrow> u16 \<Rightarrow> bytes \<Rightarrow> kad_key_mode \<Rightarrow> decrypt_result option" where
  "try_mode md5 l remote_ip random_key_part body mode =
     (let rc4_key = (case mode of
            NodeIdMode \<Rightarrow> derive_kad_request_key md5 (ol_our_node_id l) random_key_part
          | ReceiverVerifyKeyMode \<Rightarrow> derive_kad_receiver_key md5 (verify_key_for_ip md5 l remote_ip) random_key_part);
          decrypted = rc4 rc4_key body in
      if length decrypted < 13 then None
      else if from_le (take 4 decrypted) \<noteq> MAGICVALUE_UDP_SYNC_CLIENT then None
      else let padding_len = unat (decrypted ! 4 AND 0x0F); payload_offset = 5 + padding_len + 8 in
        if length decrypted \<le> payload_offset then None
        else let receiver_verify_key = from_le (take 4 (drop (5 + padding_len) decrypted));
                 sender_verify_key = from_le (take 4 (drop (5 + padding_len + 4) decrypted));
                 payload = drop payload_offset decrypted in
          if payload ! 0 \<noteq> OP_KADEMLIAHEADER \<and> payload ! 0 \<noteq> OP_KADEMLIAPACKEDPROT then None
          else Some \<lparr> dr_data = payload, dr_was_obfuscated = True, dr_sender_verify_key = Some sender_verify_key,
                      dr_receiver_verify_key_valid = (receiver_verify_key = verify_key_for_ip md5 l remote_ip) \<rparr>)"

definition decrypt :: "(bytes \<Rightarrow> bytes) \<Rightarrow> obfuscation_layer \<Rightarrow> socket_addr \<Rightarrow> bytes \<Rightarrow> decrypt_result" where
  "decrypt md5 l from buf =
     (if length buf < 3 then plaintext_result buf
      else if buf ! 0 = OP_KADEMLIAHEADER \<or> buf ! 0 = OP_KADEMLIAPACKEDPROT then plaintext_result buf
      else case fst from of
        V6 _ \<Rightarrow> plaintext_result buf
      | V4 remote_ip \<Rightarrow>
          (case List.map_filter (try_mode md5 l remote_ip (from_le [buf ! 1, buf ! 2]) (drop 3 buf))
                  (marker_try_order (buf ! 0)) of
             r # _ \<Rightarrow> r
           | [] \<Rightarrow> plaintext_result buf))"

section \<open>The cipher undoes itself\<close>

lemma rc4_stream_involution: "rc4_stream s i j (rc4_stream s i j data) = data"
  by (induction data arbitrary: s i j) (simp_all add: Let_def ac_simps)

lemma length_rc4_stream: "length (rc4_stream s i j data) = length data"
  by (induction data arbitrary: s i j) (simp_all add: Let_def)

lemma rc4_involution: "rc4 key (rc4 key data) = data"
proof -
  have "rc4_stream s i j data \<noteq> []" if "data \<noteq> []" for s i j
    using that length_rc4_stream [of s i j data] by fastforce
  then show ?thesis by (simp add: rc4_def rc4_stream_involution)
qed

lemma length_rc4 [simp]: "length (rc4 key data) = length data"
  by (simp add: rc4_def length_rc4_stream)

section \<open>Markers\<close>

definition mode_bits :: "kad_key_mode \<Rightarrow> u8" where
  "mode_bits mode = (case mode of NodeIdMode \<Rightarrow> 0 | ReceiverVerifyKeyMode \<Rightarrow> KAD_MARKER_RECEIVER_KEY)"

definition masked :: "kad_key_mode \<Rightarrow> u8 \<Rightarrow> u8" where
  "masked mode draw = (draw AND NOT 0x03) OR mode_bits mode"

lemma select_marker_Cons:
  "select_marker mode (draw # draws) =
     (if is_plain_protocol_marker (masked mode draw) then select_marker mode draws else Some (masked mode draw))"
  by (cases mode) (simp_all add: masked_def mode_bits_def)

lemma masked_bits: "masked mode draw AND 0x03 = mode_bits mode"
proof (rule bit_word_eqI)
  fix n
  show "bit (masked mode draw AND 0x03) n \<longleftrightarrow> bit (mode_bits mode) n"
    by (cases mode) (auto simp: masked_def mode_bits_def KAD_MARKER_RECEIVER_KEY_def bit_simps bit_numeral_word_iff
        bit_numeral_rec split: nat.splits)
qed

lemma select_marker_Some:
  "select_marker mode draws = Some marker \<Longrightarrow>
     \<not> is_plain_protocol_marker marker \<and> marker AND 0x03 = mode_bits mode"
  by (induction draws) (auto simp: select_marker_Cons masked_bits simp del: select_marker.simps(2) split: if_splits)

lemma select_marker_ends:
  "\<exists>draw\<in>set draws. \<not> is_plain_protocol_marker (masked mode draw) \<Longrightarrow> select_marker mode draws \<noteq> None"
  by (induction draws) (auto simp: select_marker_Cons simp del: select_marker.simps(2))

lemma marker_order: "marker AND 0x03 = mode_bits mode \<Longrightarrow> \<exists>other. marker_try_order marker = [mode, other]"
  by (cases mode) (auto simp: marker_try_order_def mode_bits_def KAD_MARKER_RECEIVER_KEY_def)

section \<open>Round trip\<close>

definition kad_header :: "bytes \<Rightarrow> bool" where
  "kad_header bs \<longleftrightarrow> bs \<noteq> [] \<and> (bs ! 0 = OP_KADEMLIAHEADER \<or> bs ! 0 = OP_KADEMLIAPACKEDPROT)"

definition own_key :: "(bytes \<Rightarrow> bytes) \<Rightarrow> obfuscation_layer \<Rightarrow> ipv4 \<Rightarrow> u16 \<Rightarrow> kad_key_mode \<Rightarrow> bytes" where
  "own_key md5 l remote_ip random_key_part mode =
     (case mode of
        NodeIdMode \<Rightarrow> derive_kad_request_key md5 (ol_our_node_id l) random_key_part
      | ReceiverVerifyKeyMode \<Rightarrow> derive_kad_receiver_key md5 (verify_key_for_ip md5 l remote_ip) random_key_part)"

lemma envelope_opened:
  assumes "kad_header plaintext"
  shows "try_mode md5 l ip rnd
      (rc4 (own_key md5 l ip rnd mode)
         (to_le 4 MAGICVALUE_UDP_SYNC_CLIENT @ [UDP_PADDING_LEN] @ to_le 4 rk @ to_le 4 sk @ plaintext)) mode
    = Some \<lparr> dr_data = plaintext, dr_was_obfuscated = True, dr_sender_verify_key = Some sk,
             dr_receiver_verify_key_valid = (rk = verify_key_for_ip md5 l ip) \<rparr>"
proof -
  let ?env = "to_le 4 MAGICVALUE_UDP_SYNC_CLIENT @ [UDP_PADDING_LEN] @ to_le 4 rk @ to_le 4 sk @ plaintext"
  have "rc4 (own_key md5 l ip rnd mode) (rc4 (own_key md5 l ip rnd mode) ?env) = ?env"
    by (rule rc4_involution)
  then show ?thesis
    using assms
    by (cases plaintext)
      (simp_all add: try_mode_def own_key_def [symmetric] Let_def UDP_PADDING_LEN_def nth_append kad_header_def
        del: from_le.simps)
qed

lemma verify_key_range: "derive_udp_verify_key md5 k ip \<noteq> 0"
proof -
  define f :: u32 where "f = from_le (take 4 (md5 (ipv4_octets ip @ to_le 4 k)))
    XOR from_le (take 4 (drop 4 (md5 (ipv4_octets ip @ to_le 4 k))))
    XOR from_le (take 4 (drop 8 (md5 (ipv4_octets ip @ to_le 4 k))))
    XOR from_le (take 4 (drop 12 (md5 (ipv4_octets ip @ to_le 4 k))))"
  have "unat (f mod 0xFFFFFFFE) < 0xFFFFFFFE" by (simp add: unat_mod)
  then have "unat (f mod 0xFFFFFFFE + 1) = unat (f mod 0xFFFFFFFE) + 1"
    by (subst unat_add_lem [THEN iffD1]) simp_all
  then have "f mod 0xFFFFFFFE + 1 \<noteq> 0" by (metis Suc_eq_plus1 nat.distinct(1) unsigned_0)
  then show ?thesis by (simp add: derive_udp_verify_key_def Let_def f_def)
qed

text \<open>Which of the sender's keys are the receiver's own.\<close>

definition knows_peer :: "(bytes \<Rightarrow> bytes) \<Rightarrow> obfuscation_layer \<Rightarrow> socket_addr \<Rightarrow> obfuscation_layer \<Rightarrow> ipv4 \<Rightarrow> bool" where
  "knows_peer md5 s dest r sender_ip \<longleftrightarrow>
     rp_node_id (peer_state_for_addr s dest) \<in> {None, Some (ol_our_node_id r)}
     \<and> rp_receiver_verify_key (peer_state_for_addr s dest) \<in> {None, Some (verify_key_for_ip md5 r sender_ip)}"

lemma mode_has_key:
  assumes "preferred_mode (oi_mode (inspect_outbound md5 s dest op)) = Some mode"
  shows "rc4_key_for md5 mode (peer_state_for_addr s dest) rnd \<noteq> None"
  using assms
  by (auto simp: inspect_outbound_def Let_def preferred_mode_def rc4_key_for_def can_use_node_id_mode_def split: if_splits)

lemma known_key:
  assumes "knows_peer md5 s dest r sip" "rc4_key_for md5 mode (peer_state_for_addr s dest) rnd = Some k"
  shows "k = own_key md5 r sip rnd mode"
  using assms by (cases mode) (auto simp: knows_peer_def rc4_key_for_def own_key_def)

lemma encrypt_never_panics: "encrypt md5 s dest op plaintext rnd draws \<noteq> Panicked"
  using mode_has_key [of md5 s dest op _ rnd]
  by (cases "preferred_mode (oi_mode (inspect_outbound md5 s dest op))")
    (auto simp: encrypt_def encrypt_across_def Let_def split: option.splits ip_address.splits)

lemma decrypt_marked:
  assumes "\<not> is_plain_protocol_marker marker" "marker AND 0x03 = mode_bits mode"
    and "try_mode md5 r sip rnd tail mode = Some res"
  shows "decrypt md5 r (V4 sip, port) (marker # to_le 2 rnd @ tail) = res"
proof -
  have "length (to_le 2 rnd) = Suc (Suc 0)" by simp
  then obtain a b where ab: "to_le 2 rnd = [a, b]" unfolding length_Suc_conv length_0_conv by blast
  then have "from_le [a, b] = rnd" using from_le_to_le [of 2 rnd] by simp
  moreover obtain other where "marker_try_order marker = [mode, other]" using marker_order [OF assms(2)] by blast
  moreover have "marker \<noteq> OP_KADEMLIAHEADER" "marker \<noteq> OP_KADEMLIAPACKEDPROT"
    using assms(1) by (auto simp: is_plain_protocol_marker_def opcode_defs)
  ultimately show ?thesis
    using assms(3) ab by (simp add: decrypt_def map_filter_simps del: from_le.simps)
qed

lemma encrypt_datagram:
  assumes "encrypt md5 s (V4 dip, dport) op plaintext rnd draws = Datagram buf"
    and "preferred_mode (oi_mode (inspect_outbound md5 s (V4 dip, dport) op)) = Some mode"
  shows "\<exists>marker k. select_marker mode draws = Some marker
    \<and> rc4_key_for md5 mode (peer_state_for_addr s (V4 dip, dport)) rnd = Some k
    \<and> buf = marker # to_le 2 rnd @ rc4 k (to_le 4 MAGICVALUE_UDP_SYNC_CLIENT @ [UDP_PADDING_LEN]
        @ to_le 4 (case rp_receiver_verify_key (peer_state_for_addr s (V4 dip, dport)) of None \<Rightarrow> 0 | Some k \<Rightarrow> k)
        @ to_le 4 (verify_key_for_ip md5 s dip) @ plaintext)"
  using assms
  by (auto simp: encrypt_def encrypt_across_def Let_def split: option.splits)

lemma decrypt_plain: "kad_header plaintext \<Longrightarrow> decrypt md5 r from plaintext = plaintext_result plaintext"
  by (auto simp: decrypt_def kad_header_def)

lemma sender_key_announced:
  "preferred_mode (oi_mode (inspect_outbound md5 s (V4 dip, dport) op)) = Some mode \<Longrightarrow>
     oi_sender_verify_key (inspect_outbound md5 s (V4 dip, dport) op) = Some (verify_key_for_ip md5 s dip)"
  "preferred_mode (oi_mode (inspect_outbound md5 s dest op)) = None \<Longrightarrow>
     oi_sender_verify_key (inspect_outbound md5 s dest op) = None"
  by (auto simp: inspect_outbound_def Let_def preferred_mode_def split: if_splits outbound_mode.splits)

section \<open>The peer maps\<close>

lemma min_by_key_None: "min_by_key f m = None \<longleftrightarrow> m = []"
  by (cases m) (auto split: option.splits)

lemma evict_length: "length (evict_over_cap f cap m) \<le> cap"
proof (induction f cap m rule: evict_over_cap.induct)
  case (1 f cap m)
  then show ?case by (subst evict_over_cap.simps) (auto simp: min_by_key_None split: option.splits)
qed

lemma evict_distinct: "distinct (map fst m) \<Longrightarrow> distinct (map fst (evict_over_cap f cap m))"
proof (induction f cap m rule: evict_over_cap.induct)
  case (1 f cap m)
  then show ?case by (subst evict_over_cap.simps) (auto split: option.splits simp: distinct_delete)
qed

lemma min_by_key_least: "min_by_key f xs = Some y \<Longrightarrow> x \<in> set xs \<Longrightarrow> f (snd y) \<le> f (snd x)"
proof (induction xs arbitrary: y)
  case (Cons a xs)
  show ?case
  proof (cases "min_by_key f xs")
    case None
    with Cons.prems show ?thesis by (auto simp: min_by_key_None)
  next
    case (Some z)
    with Cons show ?thesis by (fastforce split: if_splits)
  qed
qed simp

lemma in_delete: "x \<in> set (AList.delete k m) \<Longrightarrow> x \<in> set m"
  by (auto simp: AList.delete_eq)

lemma evict_keeps_newest:
  assumes "map_of m k = Some v" "\<And>k' v'. (k', v') \<in> set m \<Longrightarrow> k' \<noteq> k \<Longrightarrow> f v' < f v" "distinct (map fst m)" "0 < cap"
  shows "map_of (evict_over_cap f cap m) k = Some v"
  using assms
proof (induction f cap m rule: evict_over_cap.induct)
  case (1 f cap m)
  show ?case
  proof (cases "length m > cap \<and> (\<exists>key w. min_by_key f m = Some (key, w))")
    case True
    then obtain key w where o: "length m > cap" "min_by_key f m = Some (key, w)" by blast
    have "key \<noteq> k"
    proof
      assume "key = k"
      then have "\<forall>x\<in>set m. fst x = k"
        using min_by_key_least [OF o(2)] min_by_key_mem [OF o(2)] 1(2,3,4) by (fastforce dest: map_of_is_SomeI)
      then have "set (map fst m) \<subseteq> {k}" by auto
      then have "card (set (map fst m)) \<le> card {k}" by (rule card_mono [rotated]) simp
      with distinct_card [OF 1(4)] 1(5) o(1) show False by simp
    qed
    then have "map_of (evict_over_cap f cap (AList.delete key m)) k = Some v"
      using 1(2-5) by (intro 1(1) [OF o(1) o(2) refl] distinct_delete)
        (auto simp: delete_conv' simp del: map_of_eq_Some_iff dest: in_delete)
    with o show ?thesis by (simp add: evict_over_cap.simps [of f cap m])
  next
    case False
    with 1(2) show ?thesis by (subst evict_over_cap.simps) (auto split: option.splits)
  qed
qed

datatype layer_op =
    Identity socket_addr node_id system_time
  | Version socket_addr u8 system_time
  | LearnKey socket_addr u32 system_time
  | ResetKeys bool

fun layer_step :: "layer_op \<Rightarrow> obfuscation_layer \<Rightarrow> obfuscation_layer" where
  "layer_step (Identity addr node_id now) l = register_peer_identity l addr node_id now"
| "layer_step (Version addr v now) l = register_peer_version l addr v now"
| "layer_step (LearnKey addr key now) l = register_peer_key l addr key now"
| "layer_step (ResetKeys accept) l = reset_peer_keys l accept"

definition maps_ok :: "obfuscation_layer \<Rightarrow> bool" where
  "maps_ok l \<longleftrightarrow> length (ol_peers l) \<le> PEER_MAP_CAP \<and> length (ol_receiver_verify_keys l) \<le> PEER_MAP_CAP
     \<and> distinct (map fst (ol_peers l)) \<and> distinct (map fst (ol_receiver_verify_keys l))"

lemma maps_ok_step: "maps_ok l \<Longrightarrow> maps_ok (layer_step op l)"
  by (cases op) (simp_all add: maps_ok_def register_peer_identity_def register_peer_version_def register_peer_key_def
      reset_peer_keys_def evict_length evict_distinct distinct_update)

interpretation layer_runs: op_system layer_step "\<lambda>_ _. True" maps_ok
  by unfold_locales (rule maps_ok_step)

lemma all_allowed: "allowed_run (\<lambda>_ _. True) step s ops"
  by (induction ops arbitrary: s) simp_all

lemma opened_plain:
  assumes "kad_header plaintext" "encrypt md5 s dest op plaintext rnd draws = Datagram buf"
    and "preferred_mode (oi_mode (inspect_outbound md5 s dest op)) = None"
  shows "decrypt md5 r from buf = plaintext_result plaintext"
proof -
  have "buf = plaintext"
    using assms(2,3) by (simp add: encrypt_def encrypt_across_def Let_def)
  with decrypt_plain [OF assms(1)] show ?thesis by simp
qed

lemma opened_obfuscated:
  assumes "kad_header plaintext" "knows_peer md5 s (V4 dip, dport) r sip"
    and "encrypt md5 s (V4 dip, dport) op plaintext rnd draws = Datagram buf"
    and "preferred_mode (oi_mode (inspect_outbound md5 s (V4 dip, dport) op)) = Some mode"
  shows "decrypt md5 r (V4 sip, sport) buf =
    \<lparr> dr_data = plaintext, dr_was_obfuscated = True, dr_sender_verify_key = Some (verify_key_for_ip md5 s dip),
      dr_receiver_verify_key_valid =
        ((case rp_receiver_verify_key (peer_state_for_addr s (V4 dip, dport)) of None \<Rightarrow> 0 | Some k \<Rightarrow> k)
          = verify_key_for_ip md5 r sip) \<rparr>"
proof -
  from encrypt_datagram [OF assms(3,4)] obtain marker k where d: "select_marker mode draws = Some marker"
    "rc4_key_for md5 mode (peer_state_for_addr s (V4 dip, dport)) rnd = Some k"
    "buf = marker # to_le 2 rnd @ rc4 k (to_le 4 MAGICVALUE_UDP_SYNC_CLIENT @ [UDP_PADDING_LEN]
        @ to_le 4 (case rp_receiver_verify_key (peer_state_for_addr s (V4 dip, dport)) of None \<Rightarrow> 0 | Some k \<Rightarrow> k)
        @ to_le 4 (verify_key_for_ip md5 s dip) @ plaintext)"
    by blast
  note m = select_marker_Some [OF d(1)]
  show ?thesis
    unfolding d(3) known_key [OF assms(2) d(2)]
    by (rule decrypt_marked [OF conjunct1 [OF m] conjunct2 [OF m] envelope_opened [OF assms(1)]])
qed

lemma opened_datagram:
  assumes "kad_header plaintext" "knows_peer md5 s (V4 dip, dport) r sip"
    and "encrypt md5 s (V4 dip, dport) op plaintext rnd draws = Datagram buf"
  shows "dr_data (decrypt md5 r (V4 sip, sport) buf) = plaintext"
  using opened_plain [OF assms(1,3)] opened_obfuscated [OF assms]
  by (cases "preferred_mode (oi_mode (inspect_outbound md5 s (V4 dip, dport) op))") (simp_all add: plaintext_result_def)

lemma draw_not_reserved:
  assumes "draw AND NOT 0x03 \<notin> {0xB0, 0xD4, 0xE4}"
  shows "\<not> is_plain_protocol_marker (masked mode draw)"
proof
  assume "is_plain_protocol_marker (masked mode draw)"
  then have "masked mode draw AND NOT 0x03 \<in> {0xC4, 0xD4, 0xE4, 0xA0, 0xB0}" "masked mode draw AND 0x03 \<in> {0, 1, 2, 3}"
    "masked mode draw \<in> {0xC5, 0xD4, 0xE4, 0xE5, 0xA3, 0xB2}"
    by (auto simp: is_plain_protocol_marker_def)
  moreover have "masked mode draw AND NOT 0x03 = draw AND NOT 0x03"
  proof (rule bit_word_eqI)
    fix n
    show "bit (masked mode draw AND NOT 0x03) n \<longleftrightarrow> bit (draw AND NOT 0x03) n"
      by (cases mode) (auto simp: masked_def mode_bits_def KAD_MARKER_RECEIVER_KEY_def bit_simps
          bit_numeral_word_iff bit_numeral_rec split: nat.splits)
  qed
  ultimately show False
    using assms masked_bits [of mode draw] by (cases mode) (auto simp: mode_bits_def KAD_MARKER_RECEIVER_KEY_def)
qed

lemma encrypt_ends:
  assumes "draw \<in> set draws" "draw AND NOT 0x03 \<notin> {0xB0, 0xD4, 0xE4}"
  shows "\<exists>buf. encrypt md5 s dest op plaintext rnd draws = Datagram buf"
proof -
  have "select_marker mode draws \<noteq> None" for mode
    using select_marker_ends [of draws mode] draw_not_reserved [OF assms(2)] assms(1) by blast
  then have "encrypt md5 s dest op plaintext rnd draws \<noteq> Drawing"
    by (auto simp: encrypt_def encrypt_across_def Let_def split: option.split ip_address.split) (metis option.distinct(1))+
  with encrypt_never_panics [of md5 s dest op plaintext rnd draws] show ?thesis
    by (cases "encrypt md5 s dest op plaintext rnd draws") simp_all
qed

lemma encrypt_marker:
  assumes "encrypt md5 s dest op plaintext rnd draws = Datagram buf"
  shows "buf = plaintext \<or> \<not> is_plain_protocol_marker (hd buf)"
  using assms
  by (auto simp: encrypt_def encrypt_across_def Let_def dest: select_marker_Some split: option.splits ip_address.splits)

section \<open>Properties\<close>

text \<open>C11: A datagram that one node obfuscates for another is opened there: when what the sender has learned about
  the receiver is right, the receiver recovers exactly the plain packet and the verify key the sender
  announces to it, sees that the packet was obfuscated exactly when the sender obfuscated it, and
  finds its own verify key valid exactly when the sender used the one it knows.\<close>

theorem obfuscation_roundtrip:
  assumes "kad_header plaintext" "knows_peer md5 s (V4 dip, dport) r sip"
    and "encrypt md5 s (V4 dip, dport) op plaintext rnd draws = Datagram buf"
  shows "let info = inspect_outbound md5 s (V4 dip, dport) op; res = decrypt md5 r (V4 sip, sport) buf in
    dr_data res = plaintext
    \<and> (dr_was_obfuscated res \<longleftrightarrow> oi_mode info \<noteq> OutPlaintext)
    \<and> dr_sender_verify_key res = oi_sender_verify_key info
    \<and> (dr_receiver_verify_key_valid res \<longleftrightarrow> oi_mode info \<noteq> OutPlaintext \<and> oi_receiver_verify_key info \<noteq> None)"
proof (cases "preferred_mode (oi_mode (inspect_outbound md5 s (V4 dip, dport) op))")
  case None
  then have "oi_mode (inspect_outbound md5 s (V4 dip, dport) op) = OutPlaintext"
    by (simp add: preferred_mode_def split: outbound_mode.splits)
  with opened_plain [OF assms(1,3) None] sender_key_announced(2) [OF None] show ?thesis
    by (simp add: plaintext_result_def)
next
  case (Some mode)
  have "oi_receiver_verify_key (inspect_outbound md5 s (V4 dip, dport) op)
      = rp_receiver_verify_key (peer_state_for_addr s (V4 dip, dport))"
    by (simp add: inspect_outbound_def Let_def)
  moreover have "verify_key_for_ip md5 r sip \<noteq> 0" by (simp add: verify_key_for_ip_def verify_key_range)
  ultimately show ?thesis
    using opened_obfuscated [OF assms Some] Some sender_key_announced(1) [OF Some] assms(2)
    by (auto simp: knows_peer_def preferred_mode_def split: option.splits)
qed

definition example_layer :: obfuscation_layer where
  "example_layer = (layer_new id_ZERO 7 True)
     \<lparr> ol_peers := [((V4 (Ipv4 10 0 0 2), 4672), \<lparr> pc_node_id = Some id_ZERO, pc_kad_version = Some 9, pc_last_seen = Some 0 \<rparr>)] \<rparr>"

text \<open>A 16-byte digest that pads or cuts its input.\<close>

definition pad_md5 :: "bytes \<Rightarrow> bytes" where
  "pad_md5 b = take 16 (b @ replicate 16 0)"

theorem obfuscation_roundtrip_witness:
  "let dest = (V4 (Ipv4 10 0 0 2), 4672) in
   \<exists>buf. encrypt pad_md5 example_layer dest OP_PING [0xE4, 0x60] 0x1234 [0xE4, 0x41] = Datagram buf
     \<and> dr_data (decrypt pad_md5 (layer_new id_ZERO 9 True) (V4 (Ipv4 10 0 0 1), 4672) buf) = [0xE4, 0x60]
     \<and> dr_was_obfuscated (decrypt pad_md5 (layer_new id_ZERO 9 True) (V4 (Ipv4 10 0 0 1), 4672) buf)"
proof -
  let ?dest = "(V4 (Ipv4 10 0 0 2), 4672 :: u16)"
  have peer: "peer_state_for_addr example_layer ?dest =
    \<lparr> rp_receiver_verify_key = None, rp_node_id = Some id_ZERO, rp_kad_version = Some 9 \<rparr>"
    by (simp add: peer_state_for_addr_def peer_or_default_def example_layer_def layer_new_def)
  have info: "oi_mode (inspect_outbound pad_md5 example_layer ?dest OP_PING) = OutNodeId"
    by (simp add: inspect_outbound_def peer Let_def can_use_node_id_mode_def word_le_nat_alt)
      (simp add: example_layer_def layer_new_def)
  have "\<exists>buf. encrypt pad_md5 example_layer ?dest OP_PING [0xE4, 0x60] 0x1234 [0xE4, 0x41] = Datagram buf"
    by (simp add: encrypt_def encrypt_across_def info preferred_mode_def peer rc4_key_for_def Let_def
        is_plain_protocol_marker_def split: option.split)
  then obtain buf where "encrypt pad_md5 example_layer ?dest OP_PING [0xE4, 0x60] 0x1234 [0xE4, 0x41] = Datagram buf" ..
  moreover have "kad_header [0xE4, 0x60]" by (simp add: kad_header_def opcode_defs)
  moreover have "knows_peer pad_md5 example_layer ?dest (layer_new id_ZERO 9 True) (Ipv4 10 0 0 1)"
    by (simp add: knows_peer_def peer layer_new_def)
  ultimately show ?thesis
    using obfuscation_roundtrip [of "[0xE4, 0x60]" pad_md5 example_layer "Ipv4 10 0 0 2" 4672 "layer_new id_ZERO 9 True"
        "Ipv4 10 0 0 1" OP_PING "0x1234" "[0xE4, 0x41]" buf 4672] info
    by (auto simp: Let_def)
qed

text \<open>C23: Obfuscating never panics when the peer state does not change meanwhile, and it completes as soon as one of
  the random draws avoids the six reserved protocol bytes: a datagram is then sent, and its marker
  byte is never one a receiver would take for a plain packet.\<close>

theorem encrypt_completes:
  assumes "draw \<in> set draws" "draw AND NOT 0x03 \<notin> {0xB0, 0xD4, 0xE4}"
  shows "\<exists>buf. encrypt md5 s dest op plaintext rnd draws = Datagram buf
    \<and> (buf = plaintext \<or> \<not> is_plain_protocol_marker (hd buf))"
  using encrypt_ends [OF assms, of md5 s dest op plaintext rnd] encrypt_marker by blast

theorem encrypt_completes_witness:
  "\<exists>buf. encrypt (\<lambda>b. b) example_layer (V4 (Ipv4 10 0 0 2), 4672) OP_PING [0xE4, 0x60] 1 [0xE4, 0x41] = Datagram buf
     \<and> (buf = [0xE4, 0x60] \<or> \<not> is_plain_protocol_marker (hd buf))"
  using encrypt_completes [of "0x41" "[0xE4, 0x41]" "\<lambda>b. b" example_layer "(V4 (Ipv4 10 0 0 2), 4672)" OP_PING
      "[0xE4, 0x60]" 1]
  by simp

text \<open>C20: The peer maps stay bounded and keep what was just learned: through every sequence of registrations and
  resets neither map exceeds its cap of 50000 entries, and a verify key learned from an address at a
  reading later than every other entry is the one used for that address next.\<close>

theorem peer_maps_bounded:
  assumes "l = fold layer_step ops (layer_new our_id our_key en)"
  shows "length (ol_peers l) \<le> 50000 \<and> length (ol_receiver_verify_keys l) \<le> 50000
    \<and> (ol_peer_key_learning_enabled l \<longrightarrow> (\<forall>(ip, e)\<in>set (ol_receiver_verify_keys l). vk_last_seen e < now)
         \<longrightarrow> receiver_verify_key_for_addr (register_peer_key l addr key now) addr = Some key)"
proof -
  have "maps_ok (layer_new our_id our_key en)" by (simp add: maps_ok_def layer_new_def)
  then have ok: "maps_ok l" using layer_runs.run_keeps [OF _ all_allowed] assms(1) by blast
  have "map_of (evict_over_cap vk_last_seen PEER_MAP_CAP
      (AList.update (fst addr) \<lparr> vk_key = key, vk_last_seen = now \<rparr> (ol_receiver_verify_keys l))) (fst addr)
    = Some \<lparr> vk_key = key, vk_last_seen = now \<rparr>" if "\<forall>(ip, e)\<in>set (ol_receiver_verify_keys l). vk_last_seen e < now"
  proof (rule evict_keeps_newest)
    fix k' v' assume "(k', v') \<in> set (AList.update (fst addr) \<lparr> vk_key = key, vk_last_seen = now \<rparr> (ol_receiver_verify_keys l))"
      and "k' \<noteq> fst addr"
    then have "(k', v') \<in> set (ol_receiver_verify_keys l)" using ok
      by (metis (no_types, lifting) distinct_update fun_upd_other map_of_eq_Some_iff maps_ok_def update_conv)
    with that show "vk_last_seen v' < vk_last_seen \<lparr> vk_key = key, vk_last_seen = now \<rparr>" by auto
  qed (use ok in \<open>simp_all add: update_conv' distinct_update maps_ok_def PEER_MAP_CAP_def\<close>)
  with ok show ?thesis
    by (simp add: maps_ok_def PEER_MAP_CAP_def register_peer_key_def receiver_verify_key_for_addr_def)
qed

theorem peer_maps_bounded_witness:
  "receiver_verify_key_for_addr
     (register_peer_key (fold layer_step [LearnKey (V6 1, 5) 3 10, ResetKeys True, LearnKey (V6 1, 5) 4 20]
        (layer_new id_ZERO 0 True)) (V6 1, 9) 5 30) (V6 1, 9) = Some 5"
  using peer_maps_bounded [OF refl, of "[LearnKey (V6 1, 5) 3 10, ResetKeys True, LearnKey (V6 1, 5) 4 20]" id_ZERO 0 True
      30 "(V6 1, 9)" 5]
  by (simp add: register_peer_key_def reset_peer_keys_def layer_new_def evict_over_cap.simps PEER_MAP_CAP_def)

section \<open>A race between sending and an address change\<close>

text \<open>When the receiver keys are reset between the two readings of the peer state, a send that had chosen the
  receiver-key mode panics.\<close>

definition keyed_layer :: obfuscation_layer where
  "keyed_layer = (layer_new id_ZERO 7 True)\<lparr> ol_receiver_verify_keys := [(V6 1, \<lparr> vk_key = 3, vk_last_seen = 0 \<rparr>)] \<rparr>"

lemma encrypt_race_panics:
  "encrypt_across md5 keyed_layer (reset_peer_keys keyed_layer False) (V6 1, 4672) OP_PING plaintext rnd draws = Panicked"
  by (simp add: encrypt_across_def inspect_outbound_def peer_state_for_addr_def peer_or_default_def default_peer_def
      keyed_layer_def layer_new_def reset_peer_keys_def can_use_node_id_mode_def preferred_mode_def rc4_key_for_def
      should_prefer_receiver_verify_key_def opcode_defs Let_def)

end
