(* ===== verification/Rpc_Packet_Info.thy ===== *)
theory Rpc_Packet_Info
  imports Outbound_Tracker Kad_Obfuscation
begin

text \<open>
  \<^verbatim>\<open>emulebb-kad-net/src/rpc/packet_info.rs\<close>: how the receive loop classifies packets. Which flood-tracking
  family a packet belongs to, which responses must match a request we sent, and which request they
  match.
\<close>

section \<open>Model\<close>

record inbound_info =
  ii_tracker_bucket :: "packet_tracker_bucket option"
  ii_peer_id :: "node_id option"
  ii_kad_version :: "u8 option"

definition tracker_bucket_for_opcode :: "u8 \<Rightarrow> packet_tracker_bucket option" where
  "tracker_bucket_for_opcode op =
     (if op = OP_BOOTSTRAP_REQ then Some BkBootstrapReq
      else if op = OP_HELLO_REQ then Some BkHelloReq
      else if op = OP_REQ then Some BkFindNodeReq
      else if op = OP_SEARCH_KEY_REQ \<or> op = OP_SEARCH_SOURCE_REQ \<or> op = OP_SEARCH_NOTES_REQ then Some BkSearchReq
      else if op = OP_PUBLISH_KEY_REQ then Some BkPublishKeyReq
      else if op = OP_PUBLISH_SOURCE_REQ then Some BkPublishSourceReq
      else if op = OP_PUBLISH_NOTES_REQ then Some BkPublishNotesReq
      else if op = OP_FIREWALLED_REQ \<or> op = OP_FIREWALLED2_REQ then Some BkFirewalledReq
      else if op = OP_FINDBUDDY_REQ then Some BkFindBuddyReq
      else if op = OP_CALLBACK_REQ then Some BkCallbackReq
      else if op = OP_PING then Some BkPingReq
      else if op = OP_SEARCH_RES then Some BkSearchRes
      else if op = OP_SEARCH_RES_LEGACY \<or> op = OP_SEARCH_NOTES_RES_LEGACY then Some BkSearchRes
      else None)"

definition inspect_inbound_packet :: "kad_packet \<Rightarrow> inbound_info" where
  "inspect_inbound_packet packet =
     (case packet of
        PktBootstrapRes res \<Rightarrow>
          \<lparr> ii_tracker_bucket = None, ii_peer_id = Some (br_sender_id res), ii_kad_version = Some (br_sender_version res) \<rparr>
      | PktHelloReq req \<Rightarrow>
          \<lparr> ii_tracker_bucket = Some BkHelloReq, ii_peer_id = Some (hq_node_id req), ii_kad_version = Some (hq_version req) \<rparr>
      | PktHelloRes res \<Rightarrow>
          \<lparr> ii_tracker_bucket = None, ii_peer_id = Some (hr_node_id res), ii_kad_version = Some (hr_version res) \<rparr>
      | PktHelloResAck ack \<Rightarrow>
          \<lparr> ii_tracker_bucket = None, ii_peer_id = Some (ha_node_id ack), ii_kad_version = None \<rparr>
      | PktSearchRes res \<Rightarrow>
          \<lparr> ii_tracker_bucket = Some BkSearchRes, ii_peer_id = Some (sr_sender_id res), ii_kad_version = None \<rparr>
      | PktLegacySearchRes _ \<Rightarrow>
          \<lparr> ii_tracker_bucket = Some BkSearchRes, ii_peer_id = None, ii_kad_version = None \<rparr>
      | PktLegacySearchNotesRes _ \<Rightarrow>
          \<lparr> ii_tracker_bucket = Some BkSearchRes, ii_peer_id = None, ii_kad_version = None \<rparr>
      | _ \<Rightarrow>
          \<lparr> ii_tracker_bucket = tracker_bucket_for_opcode (opcode packet), ii_peer_id = None, ii_kad_version = None \<rparr>)"

definition search_response_target :: "kad_packet \<Rightarrow> node_id option" where
  "search_response_target packet =
     (case packet of
        PktSearchRes response \<Rightarrow> Some (sr_target response)
      | PktLegacySearchRes response \<Rightarrow> Some (lr_target response)
      | PktLegacySearchNotesRes response \<Rightarrow> Some (lr_target response)
      | _ \<Rightarrow> None)"

definition is_publish_opcode :: "u8 \<Rightarrow> bool" where
  "is_publish_opcode op \<longleftrightarrow>
     op = OP_PUBLISH_REQ_LEGACY \<or> op = OP_PUBLISH_RES_LEGACY \<or> op = OP_PUBLISH_KEY_REQ
     \<or> op = OP_PUBLISH_SOURCE_REQ \<or> op = OP_PUBLISH_NOTES_REQ \<or> op = OP_PUBLISH_RES
     \<or> op = OP_PUBLISH_RES_ACK"

definition should_learn_sender_verify_key :: "u8 \<Rightarrow> bool" where
  "should_learn_sender_verify_key op \<longleftrightarrow>
     op = OP_BOOTSTRAP_REQ \<or> op = OP_BOOTSTRAP_RES \<or> op = OP_HELLO_REQ \<or> op = OP_HELLO_RES
     \<or> op = OP_HELLO_RES_ACK \<or> op = OP_REQ \<or> op = OP_SEARCH_KEY_REQ
     \<or> op = OP_SEARCH_SOURCE_REQ \<or> op = OP_SEARCH_NOTES_REQ \<or> op = OP_PUBLISH_KEY_REQ
     \<or> op = OP_PUBLISH_SOURCE_REQ \<or> op = OP_PUBLISH_NOTES_REQ \<or> op = OP_PUBLISH_RES
     \<or> op = OP_PUBLISH_RES_ACK \<or> op = OP_FIREWALLED_REQ \<or> op = OP_FIREWALLED2_REQ
     \<or> op = OP_FINDBUDDY_REQ \<or> op = OP_FINDBUDDY_RES \<or> op = OP_CALLBACK_REQ \<or> op = OP_PING"

definition should_log_unsolicited_opcode :: "u8 \<Rightarrow> bool" where
  "should_log_unsolicited_opcode op \<longleftrightarrow>
     op = OP_BOOTSTRAP_REQ \<or> op = OP_BOOTSTRAP_RES \<or> op = OP_HELLO_REQ \<or> op = OP_HELLO_RES
     \<or> op = OP_HELLO_RES_ACK \<or> op = OP_REQ \<or> op = OP_RES \<or> op = OP_SEARCH_KEY_REQ
     \<or> op = OP_SEARCH_SOURCE_REQ \<or> op = OP_SEARCH_NOTES_REQ \<or> op = OP_SEARCH_RES
     \<or> op = OP_SEARCH_RES_LEGACY \<or> op = OP_SEARCH_NOTES_RES_LEGACY \<or> op = OP_PUBLISH_KEY_REQ
     \<or> op = OP_PUBLISH_SOURCE_REQ \<or> op = OP_PUBLISH_NOTES_REQ \<or> op = OP_PUBLISH_RES
     \<or> op = OP_PUBLISH_RES_LEGACY \<or> op = OP_PUBLISH_RES_ACK \<or> op = OP_FIREWALLED_REQ
     \<or> op = OP_FIREWALLED2_REQ \<or> op = OP_FIREWALLED_RES \<or> op = OP_FIREWALLED_ACK_RES
     \<or> op = OP_FIREWALLUDP \<or> op = OP_FINDBUDDY_REQ \<or> op = OP_FINDBUDDY_RES
     \<or> op = OP_CALLBACK_REQ \<or> op = OP_PING \<or> op = OP_PONG"

definition is_tracked_response_opcode :: "u8 \<Rightarrow> bool" where
  "is_tracked_response_opcode op \<longleftrightarrow>
     op = OP_BOOTSTRAP_RES \<or> op = OP_HELLO_RES \<or> op = OP_HELLO_RES_ACK \<or> op = OP_RES
     \<or> op = OP_PUBLISH_RES \<or> op = OP_PUBLISH_RES_LEGACY \<or> op = OP_PUBLISH_RES_ACK
     \<or> op = OP_SEARCH_NOTES_RES_LEGACY \<or> op = OP_FINDBUDDY_RES \<or> op = OP_PONG"

definition opcode_name :: "u8 \<Rightarrow> string" where
  "opcode_name op =
     (if op = OP_BOOTSTRAP_REQ then ''KADEMLIA2_BOOTSTRAP_REQ''
      else if op = OP_BOOTSTRAP_RES then ''KADEMLIA2_BOOTSTRAP_RES''
      else if op = OP_HELLO_REQ_DEPRECATED then ''KADEMLIA_HELLO_REQ_DEPRECATED''
      else if op = OP_HELLO_REQ then ''KADEMLIA2_HELLO_REQ''
      else if op = OP_HELLO_RES_DEPRECATED then ''KADEMLIA_HELLO_RES_DEPRECATED''
      else if op = OP_HELLO_RES then ''KADEMLIA2_HELLO_RES''
      else if op = OP_REQ_DEPRECATED then ''KADEMLIA_REQ_DEPRECATED''
      else if op = OP_REQ then ''KADEMLIA2_REQ''
      else if op = OP_HELLO_RES_ACK then ''KADEMLIA2_HELLO_RES_ACK''
      else if op = OP_RES_DEPRECATED then ''KADEMLIA_RES_DEPRECATED''
      else if op = OP_RES then ''KADEMLIA2_RES''
      else if op = OP_SEARCH_KEY_REQ then ''KADEMLIA2_SEARCH_KEY_REQ''
      else if op = OP_SEARCH_SOURCE_REQ then ''KADEMLIA2_SEARCH_SOURCE_REQ''
      else if op = OP_SEARCH_NOTES_REQ then ''KADEMLIA2_SEARCH_NOTES_REQ''
      else if op = OP_SEARCH_RES then ''KADEMLIA2_SEARCH_RES''
      else if op = OP_SEARCH_REQ_LEGACY then ''KADEMLIA_SEARCH_REQ''
      else if op = OP_SEARCH_NOTES_REQ_LEGACY then ''KADEMLIA_SEARCH_NOTES_REQ''
      else if op = OP_SEARCH_RES_LEGACY then ''KADEMLIA_SEARCH_RES''
      else if op = OP_SEARCH_NOTES_RES_LEGACY then ''KADEMLIA_SEARCH_NOTES_RES''
      else if op = OP_PUBLISH_KEY_REQ then ''KADEMLIA2_PUBLISH_KEY_REQ''
      else if op = OP_PUBLISH_SOURCE_REQ then ''KADEMLIA2_PUBLISH_SOURCE_REQ''
      else if op = OP_PUBLISH_NOTES_REQ then ''KADEMLIA2_PUBLISH_NOTES_REQ''
      else if op = OP_PUBLISH_RES then ''KADEMLIA2_PUBLISH_RES''
      else if op = OP_PUBLISH_REQ_LEGACY then ''KADEMLIA_PUBLISH_REQ''
      else if op = OP_PUBLISH_RES_LEGACY then ''KADEMLIA_PUBLISH_RES''
      else if op = OP_PUBLISH_RES_ACK then ''KADEMLIA2_PUBLISH_RES_ACK''
      else if op = OP_FIREWALLED_REQ then ''KADEMLIA_FIREWALLED_REQ''
      else if op = OP_FIREWALLED2_REQ then ''KADEMLIA2_FIREWALLED2_REQ''
      else if op = OP_FIREWALLED_RES then ''KADEMLIA2_FIREWALLED_RES''
      else if op = OP_FIREWALLED_ACK_RES then ''KADEMLIA2_FIREWALLED_ACK_RES''
      else if op = OP_FIREWALLUDP then ''KADEMLIA2_FIREWALLUDP''
      else if op = OP_FINDBUDDY_REQ then ''KADEMLIA_FINDBUDDY_REQ''
      else if op = OP_FINDBUDDY_RES then ''KADEMLIA_FINDBUDDY_RES''
      else if op = OP_CALLBACK_REQ then ''KADEMLIA_CALLBACK_REQ''
      else if op = OP_PING then ''KADEMLIA2_PING''
      else if op = OP_PONG then ''KADEMLIA2_PONG''
      else ''UNKNOWN'')"

definition is_response_opcode :: "u8 \<Rightarrow> bool" where
  "is_response_opcode op \<longleftrightarrow>
     op = OP_BOOTSTRAP_RES \<or> op = OP_HELLO_RES \<or> op = OP_HELLO_RES_ACK \<or> op = OP_RES
     \<or> op = OP_SEARCH_RES \<or> op = OP_SEARCH_RES_LEGACY \<or> op = OP_SEARCH_NOTES_RES_LEGACY
     \<or> op = OP_PUBLISH_RES \<or> op = OP_PUBLISH_RES_LEGACY \<or> op = OP_PUBLISH_RES_ACK
     \<or> op = OP_FIREWALLED_RES \<or> op = OP_FIREWALLED_ACK_RES \<or> op = OP_FINDBUDDY_RES
     \<or> op = OP_PONG"

definition outbound_transport_reason :: "u8 \<Rightarrow> outbound_info \<Rightarrow> string" where
  "outbound_transport_reason op outbound =
     (case oi_mode outbound of
        OutNodeId \<Rightarrow> ''node_id_fallback_without_receiver_verify_key''
      | OutReceiverVerifyKey \<Rightarrow>
          if is_response_opcode op then ''reply_falls_back_to_receiver_verify_key_without_node_id''
          else ''request_falls_back_to_receiver_verify_key_without_node_id''
      | OutPlaintext \<Rightarrow>
          if oi_peer_node_id outbound = None \<and> oi_receiver_verify_key outbound = None
          then ''missing_peer_identity_and_receiver_key''
          else if oi_peer_node_id outbound = None then ''missing_peer_identity_for_node_id_mode''
          else if (case oi_peer_kad_version outbound of None \<Rightarrow> False | Some kad_version \<Rightarrow> kad_version < 6)
          then ''peer_version_below_v6_without_receiver_key''
          else ''missing_receiver_verify_key'')"

definition inbound_transport_mode :: "bool \<Rightarrow> bool \<Rightarrow> string" where
  "inbound_transport_mode was_obfuscated receiver_verify_key_valid =
     (if \<not> was_obfuscated then ''plaintext''
      else if receiver_verify_key_valid then ''receiver_verify_key''
      else ''node_id'')"

text \<open>The requests a response may answer, in the order they are looked for, and whether the match is
  consumed. \<open>now\<close> is the clock reading of every probe and \<open>now'\<close> that of the consuming one.\<close>

definition at_now :: "u8 list \<Rightarrow> system_time \<Rightarrow> (u8 \<times> system_time) list" where
  "at_now ops now = map (\<lambda>op. (op, now)) ops"

definition find_then_consume ::
  "outbound_request_tracker \<Rightarrow> ip_address \<Rightarrow> u8 list \<Rightarrow> bool \<Rightarrow> system_time \<Rightarrow> system_time
     \<Rightarrow> u8 option \<times> outbound_request_tracker" where
  "find_then_consume t ip ops rm now now' =
     (case find_any t ip (at_now ops now) False of
        (None, t') \<Rightarrow> (None, t')
      | (Some matched, t') \<Rightarrow>
          (Some matched, if rm then snd (outbound_contains t' ip matched True now') else t'))"

definition tracked_request_opcode_for_response ::
  "outbound_request_tracker \<Rightarrow> ip_address \<Rightarrow> u8 \<Rightarrow> bool \<Rightarrow> system_time \<Rightarrow> system_time
     \<Rightarrow> u8 option \<times> outbound_request_tracker" where
  "tracked_request_opcode_for_response t ip response_opcode rm now now' =
     (if response_opcode = OP_BOOTSTRAP_RES then find_any t ip (at_now [OP_BOOTSTRAP_REQ] now) rm
      else if response_opcode = OP_HELLO_RES then find_any t ip (at_now [OP_HELLO_REQ] now) rm
      else if response_opcode = OP_HELLO_RES_ACK then find_any t ip (at_now [OP_HELLO_RES] now) rm
      else if response_opcode = OP_RES then find_any t ip (at_now [OP_REQ] now) rm
      else if response_opcode = OP_PUBLISH_RES then
        find_then_consume t ip [OP_PUBLISH_KEY_REQ, OP_PUBLISH_SOURCE_REQ, OP_PUBLISH_NOTES_REQ] rm now now'
      else if response_opcode = OP_PUBLISH_RES_LEGACY then find_then_consume t ip [OP_PUBLISH_REQ_LEGACY] rm now now'
      else if response_opcode = OP_SEARCH_NOTES_RES_LEGACY then
        find_any t ip (at_now [OP_SEARCH_NOTES_REQ_LEGACY] now) False
      else if response_opcode = OP_FINDBUDDY_RES then find_any t ip (at_now [OP_FINDBUDDY_REQ] now) rm
      else if response_opcode = OP_PONG then find_any t ip (at_now [OP_PING] now) rm
      else (None, t))"

end
