(* ===== verification/Rpc_Manager.thy ===== *)
theory Rpc_Manager
  imports Rpc_Packet_Info
begin

text \<open>
  \<^verbatim>\<open>emulebb-kad-net/src/rpc.rs\<close>, \<^verbatim>\<open>rpc/outbound.rs\<close>, \<^verbatim>\<open>rpc/peer_state.rs\<close> and \<^verbatim>\<open>rpc/receive_loop.rs\<close>: the RPC
  manager, which composes the packet codec, the obfuscation layer, the trackers and the registry. A
  turn of the receive loop is a function of the state, the datagram and one reading of the clock.
  Rate limiters, diagnostics, packet dumps and logging are left out; the socket is the argument that
  says whether a send succeeded, and a delivered packet is the outcome of the turn.
\<close>

section \<open>State\<close>

record pending_entry =
  pd_remote_addr :: socket_addr
  pd_request_opcode :: u8
  pd_expected_opcode :: u8
  pd_created_at :: system_time

record rpc_state =
  rs_obfuscation :: obfuscation_layer
  rs_kad_enabled :: bool
  rs_last_contact_at :: "system_time option"
  rs_tracker :: packet_tracker
  rs_outbound_tracker :: outbound_request_tracker
  rs_pending :: "(u64 \<times> pending_entry) list"
  rs_registry :: registry
  rs_next_id :: u64

definition KAD_CONTACT_LIVENESS :: duration where
  "KAD_CONTACT_LIVENESS = from_secs (20 * 60)"

definition rpc_new :: "obfuscation_layer \<Rightarrow> u32 \<Rightarrow> u32 \<Rightarrow> duration \<Rightarrow> duration \<Rightarrow> rpc_state" where
  "rpc_new layer max_inbound_per_ip max_inbound_search_res_per_ip flood_window request_tracking_window =
     \<lparr> rs_obfuscation = layer, rs_kad_enabled = True, rs_last_contact_at = None,
       rs_tracker = tracker_new max_inbound_per_ip max_inbound_search_res_per_ip flood_window request_tracking_window,
       rs_outbound_tracker = outbound_new (from_secs 180), rs_pending = [], rs_registry = Map.empty, rs_next_id = 0 \<rparr>"

definition set_kad_enabled :: "rpc_state \<Rightarrow> bool \<Rightarrow> rpc_state" where
  "set_kad_enabled s en =
     (let s = s\<lparr> rs_kad_enabled := en \<rparr> in if en then s else s\<lparr> rs_pending := [], rs_last_contact_at := None \<rparr>)"

definition has_had_contact :: "rpc_state \<Rightarrow> system_time \<Rightarrow> bool" where
  "has_had_contact s now \<longleftrightarrow>
     rs_kad_enabled s
     \<and> (case rs_last_contact_at s of None \<Rightarrow> False | Some t \<Rightarrow> instant_since now t < KAD_CONTACT_LIVENESS)"

definition prune_packet_tracker :: "rpc_state \<Rightarrow> system_time \<Rightarrow> rpc_state" where
  "prune_packet_tracker s now = s\<lparr> rs_tracker := tracker_prune (rs_tracker s) now \<rparr>"

definition rpc_register_search_response :: "rpc_state \<Rightarrow> node_id \<Rightarrow> socket_addr \<Rightarrow> rpc_state option" where
  "rpc_register_search_response s target endpoint =
     map_option (\<lambda>r. s\<lparr> rs_registry := r \<rparr>)
       (registry_register (rs_registry s) \<lparr> resp_target = target, resp_endpoint = endpoint \<rparr>)"

section \<open>Sending (rpc/outbound.rs)\<close>

datatype send_result = SendKadStopped | SendEncodeFailed proto_error | SendPanicked | SendDrawing | SendTransportFailed bytes | Sent bytes

text \<open>The network outcome \<open>sent_ok\<close> is known after the request has been recorded.\<close>

definition send_packet ::
  "(bytes \<Rightarrow> bytes) \<Rightarrow> (bytes \<Rightarrow> bytes option) \<Rightarrow> rpc_state \<Rightarrow> socket_addr \<Rightarrow> kad_packet \<Rightarrow> u16 \<Rightarrow> u8 list \<Rightarrow> bool
     \<Rightarrow> system_time \<Rightarrow> send_result \<times> rpc_state" where
  "send_packet md5 deflate s addr packet random_key_part draws sent_ok now =
     (if \<not> rs_kad_enabled s then (SendKadStopped, s)
      else case Kad_Packet.encode packet of
        Inl e \<Rightarrow> (SendEncodeFailed e, s)
      | Inr buf \<Rightarrow>
          let encoded = pack_kad_packet deflate buf in
          (case encrypt md5 (rs_obfuscation s) addr (opcode packet) encoded random_key_part draws of
             Panicked \<Rightarrow> (SendPanicked, s)
           | Drawing \<Rightarrow> (SendDrawing, s)
           | Datagram wire \<Rightarrow>
               let tr = outbound_record (rs_outbound_tracker s) (fst addr) (opcode packet) now now in
               if sent_ok then (Sent wire, s\<lparr> rs_outbound_tracker := tr \<rparr>)
               else (SendTransportFailed wire, s\<lparr> rs_outbound_tracker := remove_latest tr (fst addr) (opcode packet) now \<rparr>)))"

text \<open>A request first enters the pending map under a fresh id; its guard takes the entry out again when the
  send fails, the response arrives, the wait times out or the request is dropped.\<close>

definition begin_request :: "rpc_state \<Rightarrow> socket_addr \<Rightarrow> kad_packet \<Rightarrow> u8 \<Rightarrow> system_time \<Rightarrow> (u64 \<times> rpc_state) option" where
  "begin_request s addr packet expected_opcode now =
     (if \<not> rs_kad_enabled s then None
      else let rid = rs_next_id s;
               entry = \<lparr> pd_remote_addr = addr, pd_request_opcode = opcode packet,
                         pd_expected_opcode = expected_opcode, pd_created_at = now \<rparr>
           in Some (rid, s\<lparr> rs_next_id := rid + 1, rs_pending := AList.update rid entry (rs_pending s) \<rparr>))"

definition guard_take :: "rpc_state \<Rightarrow> u64 \<Rightarrow> rpc_state" where
  "guard_take s rid = s\<lparr> rs_pending := AList.delete rid (rs_pending s) \<rparr>"

section \<open>Receiving (rpc/receive_loop.rs)\<close>

record received_kad_packet =
  rk_packet :: kad_packet
  rk_from :: socket_addr
  rk_was_obfuscated :: bool
  rk_sender_verify_key :: "u32 option"
  rk_receiver_verify_key_valid :: bool

datatype rx_outcome =
    RxSenderPort53
  | RxForeign
  | RxDecodeFailed proto_error
  | RxKadStopped
  | RxUnregisteredSearchResponse
  | RxUnrequestedResponse
  | RxBanned
  | RxFlood packet_tracker_action
  | RxResponse u64 kad_packet
  | RxUnsolicited received_kad_packet

definition find_pending_correlation :: "(u64 \<times> pending_entry) list \<Rightarrow> socket_addr \<Rightarrow> u8 \<Rightarrow> (u64 \<times> u8) option" where
  "find_pending_correlation pending from response_opcode =
     (let exact = min_by_key pd_created_at
            (filter (\<lambda>(_, e). pd_remote_addr e = from \<and> pd_expected_opcode e = response_opcode) pending);
          matched = (case exact of
              Some m \<Rightarrow> Some m
            | None \<Rightarrow> min_by_key pd_created_at
                (filter (\<lambda>(_, e). fst (pd_remote_addr e) = fst from \<and> pd_expected_opcode e = response_opcode) pending))
      in map_option (\<lambda>(rid, e). (rid, pd_request_opcode e)) matched)"

definition should_drop_sender_port_53 :: "socket_addr \<Rightarrow> u32 option \<Rightarrow> bool" where
  "should_drop_sender_port_53 from sender_verify_key \<longleftrightarrow>
     snd from = 53 \<and> (case sender_verify_key of None \<Rightarrow> True | Some key \<Rightarrow> key = 0)"

definition is_lan_ip :: "ip_address \<Rightarrow> bool" where
  "is_lan_ip ip =
     (case ip of
        V4 a \<Rightarrow>
          octet0 a = 127
          \<or> (octet0 a = 10 \<or> octet0 a = 172 \<and> 16 \<le> octet1 a \<and> octet1 a \<le> 31 \<or> octet0 a = 192 \<and> octet1 a = 168)
          \<or> octet0 a = 169 \<and> octet1 a = 254
          \<or> a = Ipv4 0 0 0 0
      | V6 _ \<Rightarrow> False)"

text \<open>The admission checks before a packet may teach anything or consume correlation state: the outcome when
  the packet is rejected, and the state with the trackers as the checks leave them.\<close>

definition flood_check :: "rpc_state \<Rightarrow> ip_address \<Rightarrow> packet_tracker_bucket option \<Rightarrow> system_time \<Rightarrow> rx_outcome option \<times> rpc_state" where
  "flood_check s ip bucket now =
     (let flood_exempt = is_lan_ip ip in
      if \<not> flood_exempt \<and> is_banned (rs_tracker s) ip now then (Some RxBanned, s)
      else case (if flood_exempt then None else bucket) of
        None \<Rightarrow> (None, s)
      | Some b \<Rightarrow>
          let (decision, tracker) = record_and_check_at (rs_tracker s) \<lparr> key_ip_addr = ip, key_bucket = b \<rparr> now;
              s = s\<lparr> rs_tracker := tracker \<rparr>
          in if \<not> allowed decision then (Some (RxFlood (action decision)), s) else (None, s))"

definition unregistered_search_response :: "registry \<Rightarrow> kad_packet \<Rightarrow> socket_addr \<Rightarrow> bool" where
  "unregistered_search_response r packet from =
     (case search_response_target packet of None \<Rightarrow> False | Some target \<Rightarrow> \<not> registry_contains r target from)"

definition admission :: "rpc_state \<Rightarrow> socket_addr \<Rightarrow> kad_packet \<Rightarrow> system_time \<Rightarrow> rx_outcome option \<times> rpc_state" where
  "admission s from packet now =
     (let op = opcode packet in
      if unregistered_search_response (rs_registry s) packet from
      then (Some RxUnregisteredSearchResponse, s)
      else
        let pending_correlation = find_pending_correlation (rs_pending s) from op;
            (tracked_correlation, tr) =
              tracked_request_opcode_for_response (rs_outbound_tracker s) (fst from) op False now now;
            s = s\<lparr> rs_outbound_tracker := tr \<rparr> in
        if is_tracked_response_opcode op \<and> pending_correlation = None \<and> tracked_correlation = None
        then (Some RxUnrequestedResponse, s)
        else flood_check s (fst from) (ii_tracker_bucket (inspect_inbound_packet packet)) now)"

definition learn_peer :: "obfuscation_layer \<Rightarrow> socket_addr \<Rightarrow> kad_packet \<Rightarrow> u32 option \<Rightarrow> system_time \<Rightarrow> obfuscation_layer" where
  "learn_peer l from packet sender_verify_key now =
     (let inbound = inspect_inbound_packet packet;
          l = (case ii_peer_id inbound of None \<Rightarrow> l | Some peer_id \<Rightarrow> register_peer_identity l from peer_id now);
          l = (case ii_kad_version inbound of None \<Rightarrow> l | Some v \<Rightarrow> register_peer_version l from v now)
      in if should_learn_sender_verify_key (opcode packet)
         then (case sender_verify_key of None \<Rightarrow> l | Some key \<Rightarrow> register_peer_key l from key now)
         else l)"

definition deliver :: "rpc_state \<Rightarrow> socket_addr \<Rightarrow> kad_packet \<Rightarrow> decrypt_result \<Rightarrow> system_time \<Rightarrow> rx_outcome \<times> rpc_state" where
  "deliver s from packet r now =
     (let op = opcode packet;
          pending_correlation = find_pending_correlation (rs_pending s) from op;
          s = s\<lparr> rs_obfuscation := learn_peer (rs_obfuscation s) from packet (dr_sender_verify_key r) now \<rparr>;
          (_, tr) = tracked_request_opcode_for_response (rs_outbound_tracker s) (fst from) op True now now;
          s = s\<lparr> rs_outbound_tracker := tr \<rparr>
      in case pending_correlation of
           Some (rid, _) \<Rightarrow> (RxResponse rid packet, s\<lparr> rs_pending := AList.delete rid (rs_pending s) \<rparr>)
         | None \<Rightarrow>
             (RxUnsolicited \<lparr> rk_packet = packet, rk_from = from, rk_was_obfuscated = dr_was_obfuscated r,
                              rk_sender_verify_key = dr_sender_verify_key r,
                              rk_receiver_verify_key_valid = dr_receiver_verify_key_valid r \<rparr>, s))"

definition receive_datagram ::
  "(bytes \<Rightarrow> bytes) \<Rightarrow> (bytes \<Rightarrow> nat \<Rightarrow> bytes option) \<Rightarrow> (bytes \<Rightarrow> bytes) \<Rightarrow> (bytes \<Rightarrow> socket_addr \<Rightarrow> bool) option \<Rightarrow> rpc_state
     \<Rightarrow> socket_addr \<Rightarrow> bytes \<Rightarrow> system_time \<Rightarrow> rx_outcome \<times> rpc_state" where
  "receive_datagram md5 inflate legacy foreign s from data now =
     (let r = decrypt md5 (rs_obfuscation s) from data in
      if should_drop_sender_port_53 from (dr_sender_verify_key r) then (RxSenderPort53, s)
      else case Kad_Packet.decode inflate legacy (dr_data r) of
        Inl e \<Rightarrow> (if (case foreign of None \<Rightarrow> False | Some handler \<Rightarrow> handler data from) then RxForeign else RxDecodeFailed e, s)
      | Inr packet \<Rightarrow>
          if \<not> rs_kad_enabled s then (RxKadStopped, s)
          else case admission (s\<lparr> rs_last_contact_at := Some now \<rparr>) from packet now of
            (Some rejected, s') \<Rightarrow> (rejected, s')
          | (None, s') \<Rightarrow> deliver s' from packet r now)"

section \<open>Peeking at the trackers\<close>

lemma prune_idem: "outbound_prune (outbound_prune t now) now = outbound_prune t now"
  by (simp add: outbound_prune_def dropWhile_idem)

lemma contains_peek: "snd (outbound_contains t ip op False now) = outbound_prune t now"
  by (simp add: outbound_contains_def Let_def split: option.splits)

lemma find_any_peek: "snd (find_any t ip (at_now ops now) False) \<in> {t, outbound_prune t now}"
proof (induction ops arbitrary: t)
  case (Cons op ops)
  from Cons [of "outbound_prune t now"] show ?case
    using contains_peek [of t ip op now] by (auto simp: at_now_def prune_idem split_beta Let_def)
qed (simp add: at_now_def)

lemma find_then_consume_peek: "snd (find_then_consume t ip ops False now now') \<in> {t, outbound_prune t now}"
proof -
  obtain m t' where "find_any t ip (at_now ops now) False = (m, t')" by fastforce
  with find_any_peek [of t ip ops now] show ?thesis by (cases m) (simp_all add: find_then_consume_def)
qed

lemma tracked_peek:
  "snd (tracked_request_opcode_for_response t ip op False now now') \<in> {t, outbound_prune t now}"
  unfolding tracked_request_opcode_for_response_def if_distrib [of snd] if_distrib [of "\<lambda>x. x \<in> _"]
  using find_any_peek [of t ip] find_then_consume_peek [of t ip] by simp

definition rejection :: "rx_outcome \<Rightarrow> bool" where
  "rejection out = (case out of RxResponse _ _ \<Rightarrow> False | RxUnsolicited _ \<Rightarrow> False | _ \<Rightarrow> True)"

definition flood_drop :: "rx_outcome \<Rightarrow> bool" where
  "flood_drop out = (case out of RxFlood _ \<Rightarrow> True | _ \<Rightarrow> False)"

lemma flood_check_unchanged:
  assumes "flood_check s ip bucket now = (out, s')"
  shows "\<exists>tr. s' = s\<lparr> rs_tracker := tr \<rparr> \<and> (case out of None \<Rightarrow> True | Some r \<Rightarrow> rejection r \<and> (\<not> flood_drop r \<longrightarrow> tr = rs_tracker s))"
  using assms
  by (auto simp: flood_check_def Let_def rejection_def flood_drop_def split: if_splits option.splits prod.splits)
    (rule exI [of _ "rs_tracker s"], simp)+

lemma admission_unchanged:
  assumes "admission s from packet now = (out, s')"
  shows "\<exists>ot tr. s' = s\<lparr> rs_outbound_tracker := ot, rs_tracker := tr \<rparr>
    \<and> ot \<in> {rs_outbound_tracker s, outbound_prune (rs_outbound_tracker s) now}
    \<and> (case out of None \<Rightarrow> True | Some r \<Rightarrow> rejection r \<and> (\<not> flood_drop r \<longrightarrow> tr = rs_tracker s))"
proof (cases "unregistered_search_response (rs_registry s) packet from")
  case True
  with assms have "out = Some RxUnregisteredSearchResponse" "s' = s" by (simp_all add: admission_def Let_def)
  then show ?thesis
    by (intro exI [of _ "rs_outbound_tracker s"] exI [of _ "rs_tracker s"]) (simp add: rejection_def)
next
  case False
  obtain c ot where t: "tracked_request_opcode_for_response (rs_outbound_tracker s) (fst from) (opcode packet) False now now
    = (c, ot)" by fastforce
  have ot: "ot \<in> {rs_outbound_tracker s, outbound_prune (rs_outbound_tracker s) now}"
    using tracked_peek [of "rs_outbound_tracker s" "fst from" "opcode packet" now now] t by simp
  let ?s = "s\<lparr> rs_outbound_tracker := ot \<rparr>"
  let ?c = "is_tracked_response_opcode (opcode packet) \<and> find_pending_correlation (rs_pending s) from (opcode packet) = None
    \<and> c = None"
  show ?thesis
  proof (cases ?c)
    case True
    with assms t False have "out = Some RxUnrequestedResponse" "s' = ?s" by (simp_all add: admission_def Let_def)
    with ot show ?thesis by (intro exI [of _ ot] exI [of _ "rs_tracker s"]) (simp add: rejection_def)
  next
    case flood: False
    with assms t False
    have "flood_check ?s (fst from) (ii_tracker_bucket (inspect_inbound_packet packet)) now = (out, s')"
      by (simp add: admission_def Let_def)
    from flood_check_unchanged [OF this] ot show ?thesis by (cases out) auto
  qed
qed

lemma deliver_accepts: "deliver s from packet r now = (out, s') \<Longrightarrow> \<not> rejection out"
  by (auto simp: deliver_def Let_def rejection_def split: option.splits prod.splits)




lemma admission_correlated:
  assumes "fst (tracked_request_opcode_for_response (rs_outbound_tracker s) (fst from) (opcode packet) False now now) \<noteq> None"
  shows "fst (admission s from packet now) \<noteq> Some RxUnrequestedResponse"
proof -
  have "fst (flood_check s' ip b now) \<noteq> Some RxUnrequestedResponse" for s' ip b
    by (auto simp: flood_check_def Let_def split: option.splits prod.splits)
  with assms show ?thesis by (auto simp: admission_def Let_def split: prod.splits)
qed

lemma received_packet:
  assumes "Kad_Packet.decode inflate legacy (dr_data (decrypt md5 (rs_obfuscation s) from data)) = Inr packet"
  shows "case fst (receive_datagram md5 inflate legacy foreign s from data now) of
      RxResponse _ q \<Rightarrow> q = packet | RxUnsolicited k \<Rightarrow> rk_packet k = packet | _ \<Rightarrow> True"
proof -
  let ?s = "s\<lparr> rs_last_contact_at := Some now \<rparr>" and ?r = "decrypt md5 (rs_obfuscation s) from data"
  obtain o' s1 where a: "admission ?s from packet now = (o', s1)" by fastforce
  have "case fst (deliver s1 from packet ?r now) of
      RxResponse _ q \<Rightarrow> q = packet | RxUnsolicited k \<Rightarrow> rk_packet k = packet | _ \<Rightarrow> True"
    by (auto simp: deliver_def Let_def split: option.splits prod.splits)
  with assms a admission_unchanged [OF a] show ?thesis
    by (cases o') (auto simp: receive_datagram_def Let_def rejection_def split: rx_outcome.splits)
qed

section \<open>Properties\<close>

definition example_rpc :: rpc_state where
  "example_rpc = rpc_new (layer_new id_ZERO 7 True) 100 100 (from_secs 60) (from_secs 60)"

lemma example_decodes:
  "Kad_Packet.decode (\<lambda>_ _. None) (\<lambda>b. b) [0xE4, 0x61, 0x40, 0x12] = Inr (PktPong (Pong 0x1240))"
  "Kad_Packet.decode (\<lambda>_ _. None) (\<lambda>b. b) [0xE4, 0x60] = Inr PktPing"
  by code_simp+

text \<open>A PONG that nobody asked for.\<close>

lemma example_unrequested:
  "receive_datagram (\<lambda>b. b) (\<lambda>_ _. None) (\<lambda>b. b) None example_rpc (V4 (Ipv4 8 8 8 8), 4672) [0xE4, 0x61, 0x40, 0x12] 5
   = (RxUnrequestedResponse, example_rpc\<lparr> rs_last_contact_at := Some 5 \<rparr>)"
proof -
  have "decrypt (\<lambda>b. b) (rs_obfuscation example_rpc) (V4 (Ipv4 8 8 8 8), 4672) [0xE4, 0x61, 0x40, 0x12]
    = plaintext_result [0xE4, 0x61, 0x40, 0x12]"
    by (simp add: decrypt_def opcode_defs)
  moreover have "outbound_prune (outbound_new w) now = outbound_new w" for w now
    by (simp add: outbound_prune_def outbound_new_def)
  ultimately show ?thesis
    by (simp add: receive_datagram_def Let_def plaintext_result_def should_drop_sender_port_53_def example_decodes
        admission_def unregistered_search_response_def search_response_target_def opcode_def is_tracked_response_opcode_def
        tracked_request_opcode_for_response_def at_now_def outbound_contains_def opcode_defs find_pending_correlation_def)
      (simp add: example_rpc_def rpc_new_def outbound_new_def outbound_prune_def)
qed

text \<open>C14: A packet that is rejected, for whatever reason, teaches nothing and consumes nothing: no peer identity,
  version or key is learned, no pending request and no registration is consumed, no tracked request is
  used up (at most expired ones are dropped), and unless it was the flood tracker itself that dropped
  it, it does not touch its sender's flood budget.\<close>

theorem rejected_packets_teach_nothing:
  assumes "receive_datagram md5 inflate legacy foreign s from data now = (out, s')" "rejection out"
  shows "rs_obfuscation s' = rs_obfuscation s \<and> rs_pending s' = rs_pending s \<and> rs_registry s' = rs_registry s
    \<and> rs_outbound_tracker s' \<in> {rs_outbound_tracker s, outbound_prune (rs_outbound_tracker s) now}
    \<and> (\<not> flood_drop out \<longrightarrow> rs_tracker s' = rs_tracker s)"
proof (cases "s' = s")
  case False
  let ?r = "decrypt md5 (rs_obfuscation s) from data" and ?s = "s\<lparr> rs_last_contact_at := Some now \<rparr>"
  from False assms(1) obtain packet where "Kad_Packet.decode inflate legacy (dr_data ?r) = Inr packet"
    and adm: "(case admission ?s from packet now of
      (Some rejected, s') \<Rightarrow> (rejected, s') | (None, s') \<Rightarrow> deliver s' from packet ?r now) = (out, s')"
    by (auto simp: receive_datagram_def Let_def split: if_splits sum.splits)
  obtain o' s1 where a: "admission ?s from packet now = (o', s1)" by fastforce
  with adm assms(2) deliver_accepts [of s1 "from" packet ?r now out s'] have "o' = Some out" "s1 = s'"
    by (cases o'; simp)+
  with admission_unchanged [OF a] show ?thesis by auto
qed simp

theorem rejected_packets_teach_nothing_witness:
  "let (out, s') = receive_datagram (\<lambda>b. b) (\<lambda>_ _. None) (\<lambda>b. b) None example_rpc (V4 (Ipv4 8 8 8 8), 4672)
     [0xE4, 0x61, 0x40, 0x12] 5
   in out = RxUnrequestedResponse \<and> rs_obfuscation s' = rs_obfuscation example_rpc \<and> rs_tracker s' = rs_tracker example_rpc"
  using rejected_packets_teach_nothing [OF example_unrequested]
  by (simp add: example_unrequested rejection_def flood_drop_def)




end
