(* ===== verification/Kad_Text.thy ===== *)
theory Kad_Text
  imports Kad_Tag
begin

text \<open>
  \<^verbatim>\<open>emulebb-kad-proto/src/kad_text.rs\<close>: the frozen lower-case mapping of Kad texts. A \<^verbatim>\<open>String\<close> is the list
  of its UTF-8 bytes; \<^verbatim>\<open>chars\<close> and \<^verbatim>\<open>collect\<close> go through the code points, which are natural numbers here.
  \<^verbatim>\<open>binary_search_by\<close> is the loop of the standard library.
\<close>

section \<open>Characters of a string\<close>

fun utf8_code :: "bytes \<Rightarrow> nat" where
  "utf8_code [b] = unat b"
| "utf8_code [b, c] = (unat b - 0xC0) * 0x40 + (unat c - 0x80)"
| "utf8_code [b, c, d] = (unat b - 0xE0) * 0x1000 + (unat c - 0x80) * 0x40 + (unat d - 0x80)"
| "utf8_code [b, c, d, e] =
     (unat b - 0xF0) * 0x40000 + (unat c - 0x80) * 0x1000 + (unat d - 0x80) * 0x40 + (unat e - 0x80)"
| "utf8_code _ = 0xFFFD"

function utf8_chars :: "bytes \<Rightarrow> nat list" where
  "utf8_chars bs =
     (if bs = [] then []
      else let n = snd (utf8_step bs) in utf8_code (take n bs) # utf8_chars (drop n bs))"
  by pat_completeness auto
termination
  by (relation "measure length") (auto simp: utf8_step_pos)

declare utf8_chars.simps [simp del]

definition utf8_encode :: "nat \<Rightarrow> bytes" where
  "utf8_encode c =
     map word_of_nat
       (if c < 0x80 then [c]
        else if c < 0x800 then [0xC0 + c div 0x40, 0x80 + c mod 0x40]
        else if c < 0x10000 then [0xE0 + c div 0x1000, 0x80 + c div 0x40 mod 0x40, 0x80 + c mod 0x40]
        else [0xF0 + c div 0x40000, 0x80 + c div 0x1000 mod 0x40, 0x80 + c div 0x40 mod 0x40, 0x80 + c mod 0x40])"

definition collect_chars :: "nat list \<Rightarrow> bytes" where
  "collect_chars cs = concat (map utf8_encode cs)"

text \<open>The values of \<^verbatim>\<open>char\<close>: code points without the surrogates.\<close>

definition is_scalar :: "nat \<Rightarrow> bool" where
  "is_scalar c \<longleftrightarrow> c < 0xD800 \<or> 0xE000 \<le> c \<and> c < 0x110000"

definition char_from_u32 :: "nat \<Rightarrow> nat option" where
  "char_from_u32 c = (if is_scalar c then Some c else None)"

section \<open>Binary search\<close>

text \<open>\<open>cmp\<close> compares an element with the value looked for: negative for smaller, zero for equal.\<close>

function search_base :: "('a \<Rightarrow> int) \<Rightarrow> 'a list \<Rightarrow> nat \<Rightarrow> nat \<Rightarrow> nat" where
  "search_base cmp xs base sz =
     (if 1 < sz then
        let half = sz div 2; mid = base + half
        in search_base cmp xs (if 0 < cmp (xs ! mid) then base else mid) (sz - half)
      else base)"
  by pat_completeness auto
termination
  by (relation "measure (\<lambda>(cmp, xs, base, sz). sz)") auto

declare search_base.simps [simp del]

definition binary_search_by :: "('a \<Rightarrow> int) \<Rightarrow> 'a list \<Rightarrow> nat + nat" where
  "binary_search_by cmp xs =
     (if xs = [] then Inl 0
      else let base = search_base cmp xs 0 (length xs); c = cmp (xs ! base)
        in if c = 0 then Inr base else Inl (base + (if c < 0 then 1 else 0)))"

section \<open>Lower case\<close>

definition lower_map_codes :: "(int \<times> int) list" where
  "lower_map_codes =
    [(0x0041, 0x0061), (0x0042, 0x0062), (0x0043, 0x0063), (0x0044, 0x0064), (0x0045, 0x0065), (0x0046, 0x0066), (0x0047, 0x0067), (0x0048, 0x0068),
     (0x0049, 0x0069), (0x004A, 0x006A), (0x004B, 0x006B), (0x004C, 0x006C), (0x004D, 0x006D), (0x004E, 0x006E), (0x004F, 0x006F), (0x0050, 0x0070),
     (0x0051, 0x0071), (0x0052, 0x0072), (0x0053, 0x0073), (0x0054, 0x0074), (0x0055, 0x0075), (0x0056, 0x0076), (0x0057, 0x0077), (0x0058, 0x0078),
     (0x0059, 0x0079), (0x005A, 0x007A), (0x00C0, 0x00E0), (0x00C1, 0x00E1), (0x00C2, 0x00E2), (0x00C3, 0x00E3), (0x00C4, 0x00E4), (0x00C5, 0x00E5),
     (0x00C6, 0x00E6), (0x00C7, 0x00E7), (0x00C8, 0x00E8), (0x00C9, 0x00E9), (0x00CA, 0x00EA), (0x00CB, 0x00EB), (0x00CC, 0x00EC), (0x00CD, 0x00ED),
     (0x00CE, 0x00EE), (0x00CF, 0x00EF), (0x00D0, 0x00F0), (0x00D1, 0x00F1), (0x00D2, 0x00F2), (0x00D3, 0x00F3), (0x00D4, 0x00F4), (0x00D5, 0x00F5),
     (0x00D6, 0x00F6), (0x00D8, 0x00F8), (0x00D9, 0x00F9), (0x00DA, 0x00FA), (0x00DB, 0x00FB), (0x00DC, 0x00FC), (0x00DD, 0x00FD), (0x00DE, 0x00FE),
     (0x0100, 0x0101), (0x0102, 0x0103), (0x0104, 0x0105), (0x0106, 0x0107), (0x0108, 0x0109), (0x010A, 0x010B), (0x010C, 0x010D), (0x010E, 0x010F),
     (0x0110, 0x0111), (0x0112, 0x0113), (0x0114, 0x0115), (0x0116, 0x0117), (0x0118, 0x0119), (0x011A, 0x011B), (0x011C, 0x011D), (0x011E, 0x011F),
     (0x0120, 0x0121), (0x0122, 0x0123), (0x0124, 0x0125), (0x0126, 0x0127), (0x0128, 0x0129), (0x012A, 0x012B), (0x012C, 0x012D), (0x012E, 0x012F),
     (0x0132, 0x0133), (0x0134, 0x0135), (0x0136, 0x0137), (0x0139, 0x013A), (0x013B, 0x013C), (0x013D, 0x013E), (0x013F, 0x0140), (0x0141, 0x0142),
     (0x0143, 0x0144), (0x0145, 0x0146), (0x0147, 0x0148), (0x014A, 0x014B), (0x014C, 0x014D), (0x014E, 0x014F), (0x0150, 0x0151), (0x0152, 0x0153),
     (0x0154, 0x0155), (0x0156, 0x0157), (0x0158, 0x0159), (0x015A, 0x015B), (0x015C, 0x015D), (0x015E, 0x015F), (0x0160, 0x0161), (0x0162, 0x0163),
     (0x0164, 0x0165), (0x0166, 0x0167), (0x0168, 0x0169), (0x016A, 0x016B), (0x016C, 0x016D), (0x016E, 0x016F), (0x0170, 0x0171), (0x0172, 0x0173),
     (0x0174, 0x0175), (0x0176, 0x0177), (0x0178, 0x00FF), (0x0179, 0x017A), (0x017B, 0x017C), (0x017D, 0x017E), (0x0181, 0x0253), (0x0182, 0x0183),
     (0x0184, 0x0185), (0x0186, 0x0254), (0x0187, 0x0188), (0x0189, 0x0256), (0x018A, 0x0257), (0x018B, 0x018C), (0x018E, 0x01DD), (0x018F, 0x0259),
     (0x0190, 0x025B), (0x0191, 0x0192), (0x0193, 0x0260), (0x0194, 0x0263), (0x0196, 0x0269), (0x0197, 0x0268), (0x0198, 0x0199), (0x019C, 0x026F),
     (0x019D, 0x0272), (0x019F, 0x0275), (0x01A0, 0x01A1), (0x01A2, 0x01A3), (0x01A4, 0x01A5), (0x01A6, 0x0280), (0x01A7, 0x01A8), (0x01A9, 0x0283),
     (0x01AC, 0x01AD), (0x01AE, 0x0288), (0x01AF, 0x01B0), (0x01B1, 0x028A), (0x01B2, 0x028B), (0x01B3, 0x01B4), (0x01B5, 0x01B6), (0x01B7, 0x0292),
     (0x01B8, 0x01B9), (0x01BC, 0x01BD), (0x01C4, 0x01C6), (0x01C7, 0x01C9), (0x01CA, 0x01CC), (0x01CD, 0x01CE), (0x01CF, 0x01D0), (0x01D1, 0x01D2),
     (0x01D3, 0x01D4), (0x01D5, 0x01D6), (0x01D7, 0x01D8), (0x01D9, 0x01DA), (0x01DB, 0x01DC), (0x01DE, 0x01DF), (0x01E0, 0x01E1), (0x01E2, 0x01E3),
     (0x01E4, 0x01E5), (0x01E6, 0x01E7), (0x01E8, 0x01E9), (0x01EA, 0x01EB), (0x01EC, 0x01ED), (0x01EE, 0x01EF), (0x01F1, 0x01F3), (0x01F4, 0x01F5),
     (0x01F6, 0x0195), (0x01F7, 0x01BF), (0x01F8, 0x01F9), (0x01FA, 0x01FB), (0x01FC, 0x01FD), (0x01FE, 0x01FF), (0x0200, 0x0201), (0x0202, 0x0203),
     (0x0204, 0x0205), (0x0206, 0x0207), (0x0208, 0x0209), (0x020A, 0x020B), (0x020C, 0x020D), (0x020E, 0x020F), (0x0210, 0x0211), (0x0212, 0x0213),
     (0x0214, 0x0215), (0x0216, 0x0217), (0x0218, 0x0219), (0x021A, 0x021B), (0x021C, 0x021D), (0x021E, 0x021F), (0x0220, 0x019E), (0x0222, 0x0223),
     (0x0224, 0x0225), (0x0226, 0x0227), (0x0228, 0x0229), (0x022A, 0x022B), (0x022C, 0x022D), (0x022E, 0x022F), (0x0230, 0x0231), (0x0232, 0x0233),
     (0x023B, 0x023C), (0x023D, 0x019A), (0x0241, 0x0242), (0x0243, 0x0180), (0x0244, 0x0289), (0x0245, 0x028C), (0x0246, 0x0247), (0x0248, 0x0249),
     (0x024A, 0x024B), (0x024C, 0x024D), (0x024E, 0x024F), (0x0386, 0x03AC), (0x0388, 0x03AD), (0x0389, 0x03AE), (0x038A, 0x03AF), (0x038C, 0x03CC),
     (0x038E, 0x03CD), (0x038F, 0x03CE), (0x0391, 0x03B1), (0x0392, 0x03B2), (0x0393, 0x03B3), (0x0394, 0x03B4), (0x0395, 0x03B5), (0x0396, 0x03B6),
     (0x0397, 0x03B7), (0x0398, 0x03B8), (0x0399, 0x03B9), (0x039A, 0x03BA), (0x039B, 0x03BB), (0x039C, 0x03BC), (0x039D, 0x03BD), (0x039E, 0x03BE),
     (0x039F, 0x03BF), (0x03A0, 0x03C0), (0x03A1, 0x03C1), (0x03A3, 0x03C3), (0x03A4, 0x03C4), (0x03A5, 0x03C5), (0x03A6, 0x03C6), (0x03A7, 0x03C7),
     (0x03A8, 0x03C8), (0x03A9, 0x03C9), (0x03AA, 0x03CA), (0x03AB, 0x03CB), (0x03D8, 0x03D9), (0x03DA, 0x03DB), (0x03DC, 0x03DD), (0x03DE, 0x03DF),
     (0x03E0, 0x03E1), (0x03E2, 0x03E3), (0x03E4, 0x03E5), (0x03E6, 0x03E7), (0x03E8, 0x03E9), (0x03EA, 0x03EB), (0x03EC, 0x03ED), (0x03EE, 0x03EF),
     (0x03F7, 0x03F8), (0x03F9, 0x03F2), (0x03FA, 0x03FB), (0x03FD, 0x037B), (0x03FE, 0x037C), (0x03FF, 0x037D), (0x0400, 0x0450), (0x0401, 0x0451),
     (0x0402, 0x0452), (0x0403, 0x0453), (0x0404, 0x0454), (0x0405, 0x0455), (0x0406, 0x0456), (0x0407, 0x0457), (0x0408, 0x0458), (0x0409, 0x0459),
     (0x040A, 0x045A), (0x040B, 0x045B), (0x040C, 0x045C), (0x040D, 0x045D), (0x040E, 0x045E), (0x040F, 0x045F), (0x0410, 0x0430), (0x0411, 0x0431),
     (0x0412, 0x0432), (0x0413, 0x0433), (0x0414, 0x0434), (0x0415, 0x0435), (0x0416, 0x0436), (0x0417, 0x0437), (0x0418, 0x0438), (0x0419, 0x0439),
     (0x041A, 0x043A), (0x041B, 0x043B), (0x041C, 0x043C), (0x041D, 0x043D), (0x041E, 0x043E), (0x041F, 0x043F), (0x0420, 0x0440), (0x0421, 0x0441),
     (0x0422, 0x0442), (0x0423, 0x0443), (0x0424, 0x0444), (0x0425, 0x0445), (0x0426, 0x0446), (0x0427, 0x0447), (0x0428, 0x0448), (0x0429, 0x0449),
     (0x042A, 0x044A), (0x042B, 0x044B), (0x042C, 0x044C), (0x042D, 0x044D), (0x042E, 0x044E), (0x042F, 0x044F), (0x0460, 0x0461), (0x0462, 0x0463),
     (0x0464, 0x0465), (0x0466, 0x0467), (0x0468, 0x0469), (0x046A, 0x046B), (0x046C, 0x046D), (0x046E, 0x046F), (0x0470, 0x0471), (0x0472, 0x0473),
     (0x0474, 0x0475), (0x0476, 0x0477), (0x0478, 0x0479), (0x047A, 0x047B), (0x047C, 0x047D), (0x047E, 0x047F), (0x0480, 0x0481), (0x048A, 0x048B),
     (0x048C, 0x048D), (0x048E, 0x048F), (0x0490, 0x0491), (0x0492, 0x0493), (0x0494, 0x0495), (0x0496, 0x0497), (0x0498, 0x0499), (0x049A, 0x049B),
     (0x049C, 0x049D), (0x049E, 0x049F), (0x04A0, 0x04A1), (0x04A2, 0x04A3), (0x04A4, 0x04A5), (0x04A6, 0x04A7), (0x04A8, 0x04A9), (0x04AA, 0x04AB),
     (0x04AC, 0x04AD), (0x04AE, 0x04AF), (0x04B0, 0x04B1), (0x04B2, 0x04B3), (0x04B4, 0x04B5), (0x04B6, 0x04B7), (0x04B8, 0x04B9), (0x04BA, 0x04BB),
     (0x04BC, 0x04BD), (0x04BE, 0x04BF), (0x04C0, 0x04CF), (0x04C1, 0x04C2), (0x04C3, 0x04C4), (0x04C5, 0x04C6), (0x04C7, 0x04C8), (0x04C9, 0x04CA),
     (0x04CB, 0x04CC), (0x04CD, 0x04CE), (0x04D0, 0x04D1), (0x04D2, 0x04D3), (0x04D4, 0x04D5), (0x04D6, 0x04D7), (0x04D8, 0x04D9), (0x04DA, 0x04DB),
     (0x04DC, 0x04DD), (0x04DE, 0x04DF), (0x04E0, 0x04E1), (0x04E2, 0x04E3), (0x04E4, 0x04E5), (0x04E6, 0x04E7), (0x04E8, 0x04E9), (0x04EA, 0x04EB),
     (0x04EC, 0x04ED), (0x04EE, 0x04EF), (0x04F0, 0x04F1), (0x04F2, 0x04F3), (0x04F4, 0x04F5), (0x04F6, 0x04F7), (0x04F8, 0x04F9), (0x04FA, 0x04FB),
     (0x04FC, 0x04FD), (0x04FE, 0x04FF), (0x0500, 0x0501), (0x0502, 0x0503), (0x0504, 0x0505), (0x0506, 0x0507), (0x0508, 0x0509), (0x050A, 0x050B),
     (0x050C, 0x050D), (0x050E, 0x050F), (0x0510, 0x0511), (0x0512, 0x0513), (0x0531, 0x0561), (0x0532, 0x0562), (0x0533, 0x0563), (0x0534, 0x0564),
     (0x0535, 0x0565), (0x0536, 0x0566), (0x0537, 0x0567), (0x0538, 0x0568), (0x0539, 0x0569), (0x053A, 0x056A), (0x053B, 0x056B), (0x053C, 0x056C),
     (0x053D, 0x056D), (0x053E, 0x056E), (0x053F, 0x056F), (0x0540, 0x0570), (0x0541, 0x0571), (0x0542, 0x0572), (0x0543, 0x0573), (0x0544, 0x0574),
     (0x0545, 0x0575), (0x0546, 0x0576), (0x0547, 0x0577), (0x0548, 0x0578), (0x0549, 0x0579), (0x054A, 0x057A), (0x054B, 0x057B), (0x054C, 0x057C),
     (0x054D, 0x057D), (0x054E, 0x057E), (0x054F, 0x057F), (0x0550, 0x0580), (0x0551, 0x0581), (0x0552, 0x0582), (0x0553, 0x0583), (0x0554, 0x0584),
     (0x0555, 0x0585), (0x0556, 0x0586), (0x10A0, 0x2D00), (0x10A1, 0x2D01), (0x10A2, 0x2D02), (0x10A3, 0x2D03), (0x10A4, 0x2D04), (0x10A5, 0x2D05),
     (0x10A6, 0x2D06), (0x10A7, 0x2D07), (0x10A8, 0x2D08), (0x10A9, 0x2D09), (0x10AA, 0x2D0A), (0x10AB, 0x2D0B), (0x10AC, 0x2D0C), (0x10AD, 0x2D0D),
     (0x10AE, 0x2D0E), (0x10AF, 0x2D0F), (0x10B0, 0x2D10), (0x10B1, 0x2D11), (0x10B2, 0x2D12), (0x10B3, 0x2D13), (0x10B4, 0x2D14), (0x10B5, 0x2D15),
     (0x10B6, 0x2D16), (0x10B7, 0x2D17), (0x10B8, 0x2D18), (0x10B9, 0x2D19), (0x10BA, 0x2D1A), (0x10BB, 0x2D1B), (0x10BC, 0x2D1C), (0x10BD, 0x2D1D),
     (0x10BE, 0x2D1E), (0x10BF, 0x2D1F), (0x10C0, 0x2D20), (0x10C1, 0x2D21), (0x10C2, 0x2D22), (0x10C3, 0x2D23), (0x10C4, 0x2D24), (0x10C5, 0x2D25),
     (0x1E00, 0x1E01), (0x1E02, 0x1E03), (0x1E04, 0x1E05), (0x1E06, 0x1E07), (0x1E08, 0x1E09), (0x1E0A, 0x1E0B), (0x1E0C, 0x1E0D), (0x1E0E, 0x1E0F),
     (0x1E10, 0x1E11), (0x1E12, 0x1E13), (0x1E14, 0x1E15), (0x1E16, 0x1E17), (0x1E18, 0x1E19), (0x1E1A, 0x1E1B), (0x1E1C, 0x1E1D), (0x1E1E, 0x1E1F),
     (0x1E20, 0x1E21), (0x1E22, 0x1E23), (0x1E24, 0x1E25), (0x1E26, 0x1E27), (0x1E28, 0x1E29), (0x1E2A, 0x1E2B), (0x1E2C, 0x1E2D), (0x1E2E, 0x1E2F),
     (0x1E30, 0x1E31), (0x1E32, 0x1E33), (0x1E34, 0x1E35), (0x1E36, 0x1E37), (0x1E38, 0x1E39), (0x1E3A, 0x1E3B), (0x1E3C, 0x1E3D), (0x1E3E, 0x1E3F),
     (0x1E40, 0x1E41), (0x1E42, 0x1E43), (0x1E44, 0x1E45), (0x1E46, 0x1E47), (0x1E48, 0x1E49), (0x1E4A, 0x1E4B), (0x1E4C, 0x1E4D), (0x1E4E, 0x1E4F),
     (0x1E50, 0x1E51), (0x1E52, 0x1E53), (0x1E54, 0x1E55), (0x1E56, 0x1E57), (0x1E58, 0x1E59), (0x1E5A, 0x1E5B), (0x1E5C, 0x1E5D), (0x1E5E, 0x1E5F),
     (0x1E60, 0x1E61), (0x1E62, 0x1E63), (0x1E64, 0x1E65), (0x1E66, 0x1E67), (0x1E68, 0x1E69), (0x1E6A, 0x1E6B), (0x1E6C, 0x1E6D), (0x1E6E, 0x1E6F),
     (0x1E70, 0x1E71), (0x1E72, 0x1E73), (0x1E74, 0x1E75), (0x1E76, 0x1E77), (0x1E78, 0x1E79), (0x1E7A, 0x1E7B), (0x1E7C, 0x1E7D), (0x1E7E, 0x1E7F),
     (0x1E80, 0x1E81), (0x1E82, 0x1E83), (0x1E84, 0x1E85), (0x1E86, 0x1E87), (0x1E88, 0x1E89), (0x1E8A, 0x1E8B), (0x1E8C, 0x1E8D), (0x1E8E, 0x1E8F),
     (0x1E90, 0x1E91), (0x1E92, 0x1E93), (0x1E94, 0x1E95), (0x1EA0, 0x1EA1), (0x1EA2, 0x1EA3), (0x1EA4, 0x1EA5), (0x1EA6, 0x1EA7), (0x1EA8, 0x1EA9),
     (0x1EAA, 0x1EAB), (0x1EAC, 0x1EAD), (0x1EAE, 0x1EAF), (0x1EB0, 0x1EB1), (0x1EB2, 0x1EB3), (0x1EB4, 0x1EB5), (0x1EB6, 0x1EB7), (0x1EB8, 0x1EB9),
     (0x1EBA, 0x1EBB), (0x1EBC, 0x1EBD), (0x1EBE, 0x1EBF), (0x1EC0, 0x1EC1), (0x1EC2, 0x1EC3), (0x1EC4, 0x1EC5), (0x1EC6, 0x1EC7), (0x1EC8, 0x1EC9),
     (0x1ECA, 0x1ECB), (0x1ECC, 0x1ECD), (0x1ECE, 0x1ECF), (0x1ED0, 0x1ED1), (0x1ED2, 0x1ED3), (0x1ED4, 0x1ED5), (0x1ED6, 0x1ED7), (0x1ED8, 0x1ED9),
     (0x1EDA, 0x1EDB), (0x1EDC, 0x1EDD), (0x1EDE, 0x1EDF), (0x1EE0, 0x1EE1), (0x1EE2, 0x1EE3), (0x1EE4, 0x1EE5), (0x1EE6, 0x1EE7), (0x1EE8, 0x1EE9),
     (0x1EEA, 0x1EEB), (0x1EEC, 0x1EED), (0x1EEE, 0x1EEF), (0x1EF0, 0x1EF1), (0x1EF2, 0x1EF3), (0x1EF4, 0x1EF5), (0x1EF6, 0x1EF7), (0x1EF8, 0x1EF9),
     (0x1F08, 0x1F00), (0x1F09, 0x1F01), (0x1F0A, 0x1F02), (0x1F0B, 0x1F03), (0x1F0C, 0x1F04), (0x1F0D, 0x1F05), (0x1F0E, 0x1F06), (0x1F0F, 0x1F07),
     (0x1F18, 0x1F10), (0x1F19, 0x1F11), (0x1F1A, 0x1F12), (0x1F1B, 0x1F13), (0x1F1C, 0x1F14), (0x1F1D, 0x1F15), (0x1F28, 0x1F20), (0x1F29, 0x1F21),
     (0x1F2A, 0x1F22), (0x1F2B, 0x1F23), (0x1F2C, 0x1F24), (0x1F2D, 0x1F25), (0x1F2E, 0x1F26), (0x1F2F, 0x1F27), (0x1F38, 0x1F30), (0x1F39, 0x1F31),
     (0x1F3A, 0x1F32), (0x1F3B, 0x1F33), (0x1F3C, 0x1F34), (0x1F3D, 0x1F35), (0x1F3E, 0x1F36), (0x1F3F, 0x1F37), (0x1F48, 0x1F40), (0x1F49, 0x1F41),
     (0x1F4A, 0x1F42), (0x1F4B, 0x1F43), (0x1F4C, 0x1F44), (0x1F4D, 0x1F45), (0x1F59, 0x1F51), (0x1F5B, 0x1F53), (0x1F5D, 0x1F55), (0x1F5F, 0x1F57),
     (0x1F68, 0x1F60), (0x1F69, 0x1F61), (0x1F6A, 0x1F62), (0x1F6B, 0x1F63), (0x1F6C, 0x1F64), (0x1F6D, 0x1F65), (0x1F6E, 0x1F66), (0x1F6F, 0x1F67),
     (0x1F88, 0x1F80), (0x1F89, 0x1F81), (0x1F8A, 0x1F82), (0x1F8B, 0x1F83), (0x1F8C, 0x1F84), (0x1F8D, 0x1F85), (0x1F8E, 0x1F86), (0x1F8F, 0x1F87),
     (0x1F98, 0x1F90), (0x1F99, 0x1F91), (0x1F9A, 0x1F92), (0x1F9B, 0x1F93), (0x1F9C, 0x1F94), (0x1F9D, 0x1F95), (0x1F9E, 0x1F96), (0x1F9F, 0x1F97),
     (0x1FA8, 0x1FA0), (0x1FA9, 0x1FA1), (0x1FAA, 0x1FA2), (0x1FAB, 0x1FA3), (0x1FAC, 0x1FA4), (0x1FAD, 0x1FA5), (0x1FAE, 0x1FA6), (0x1FAF, 0x1FA7),
     (0x1FB8, 0x1FB0), (0x1FB9, 0x1FB1), (0x1FBA, 0x1F70), (0x1FBB, 0x1F71), (0x1FBC, 0x1FB3), (0x1FC3, 0x1FCC), (0x1FC8, 0x1F72), (0x1FC9, 0x1F73),
     (0x1FCA, 0x1F74), (0x1FCB, 0x1F75), (0x1FD8, 0x1FD0), (0x1FD9, 0x1FD1), (0x1FDA, 0x1F76), (0x1FDB, 0x1F77), (0x1FE8, 0x1FE0), (0x1FE9, 0x1FE1),
     (0x1FEA, 0x1F7A), (0x1FEB, 0x1F7B), (0x1FEC, 0x1FE5), (0x1FF3, 0x1FFC), (0x1FF8, 0x1F78), (0x1FF9, 0x1F79), (0x1FFA, 0x1F7C), (0x1FFB, 0x1F7D),
     (0x2132, 0x214E), (0x2160, 0x2170), (0x2161, 0x2171), (0x2162, 0x2172), (0x2163, 0x2173), (0x2164, 0x2174), (0x2165, 0x2175), (0x2166, 0x2176),
     (0x2167, 0x2177), (0x2168, 0x2178), (0x2169, 0x2179), (0x216A, 0x217A), (0x216B, 0x217B), (0x216C, 0x217C), (0x216D, 0x217D), (0x216E, 0x217E),
     (0x216F, 0x217F), (0x2183, 0x2184), (0x24B6, 0x24D0), (0x24B7, 0x24D1), (0x24B8, 0x24D2), (0x24B9, 0x24D3), (0x24BA, 0x24D4), (0x24BB, 0x24D5),
     (0x24BC, 0x24D6), (0x24BD, 0x24D7), (0x24BE, 0x24D8), (0x24BF, 0x24D9), (0x24C0, 0x24DA), (0x24C1, 0x24DB), (0x24C2, 0x24DC), (0x24C3, 0x24DD),
     (0x24C4, 0x24DE), (0x24C5, 0x24DF), (0x24C6, 0x24E0), (0x24C7, 0x24E1), (0x24C8, 0x24E2), (0x24C9, 0x24E3), (0x24CA, 0x24E4), (0x24CB, 0x24E5),
     (0x24CC, 0x24E6), (0x24CD, 0x24E7), (0x24CE, 0x24E8), (0x24CF, 0x24E9), (0x2C00, 0x2C30), (0x2C01, 0x2C31), (0x2C02, 0x2C32), (0x2C03, 0x2C33),
     (0x2C04, 0x2C34), (0x2C05, 0x2C35), (0x2C06, 0x2C36), (0x2C07, 0x2C37), (0x2C08, 0x2C38), (0x2C09, 0x2C39), (0x2C0A, 0x2C3A), (0x2C0B, 0x2C3B),
     (0x2C0C, 0x2C3C), (0x2C0D, 0x2C3D), (0x2C0E, 0x2C3E), (0x2C0F, 0x2C3F), (0x2C10, 0x2C40), (0x2C11, 0x2C41), (0x2C12, 0x2C42), (0x2C13, 0x2C43),
     (0x2C14, 0x2C44), (0x2C15, 0x2C45), (0x2C16, 0x2C46), (0x2C17, 0x2C47), (0x2C18, 0x2C48), (0x2C19, 0x2C49), (0x2C1A, 0x2C4A), (0x2C1B, 0x2C4B),
     (0x2C1C, 0x2C4C), (0x2C1D, 0x2C4D), (0x2C1E, 0x2C4E), (0x2C1F, 0x2C4F), (0x2C20, 0x2C50), (0x2C21, 0x2C51), (0x2C22, 0x2C52), (0x2C23, 0x2C53),
     (0x2C24, 0x2C54), (0x2C25, 0x2C55), (0x2C26, 0x2C56), (0x2C27, 0x2C57), (0x2C28, 0x2C58), (0x2C29, 0x2C59), (0x2C2A, 0x2C5A), (0x2C2B, 0x2C5B),
     (0x2C2C, 0x2C5C), (0x2C2D, 0x2C5D), (0x2C2E, 0x2C5E), (0x2C60, 0x2C61), (0x2C62, 0x026B), (0x2C63, 0x1D7D), (0x2C64, 0x027D), (0x2C65, 0x023A),
     (0x2C66, 0x023E), (0x2C67, 0x2C68), (0x2C69, 0x2C6A), (0x2C6B, 0x2C6C), (0x2C75, 0x2C76), (0x2C80, 0x2C81), (0x2C82, 0x2C83), (0x2C84, 0x2C85),
     (0x2C86, 0x2C87), (0x2C88, 0x2C89), (0x2C8A, 0x2C8B), (0x2C8C, 0x2C8D), (0x2C8E, 0x2C8F), (0x2C90, 0x2C91), (0x2C92, 0x2C93), (0x2C94, 0x2C95),
     (0x2C96, 0x2C97), (0x2C98, 0x2C99), (0x2C9A, 0x2C9B), (0x2C9C, 0x2C9D), (0x2C9E, 0x2C9F), (0x2CA0, 0x2CA1), (0x2CA2, 0x2CA3), (0x2CA4, 0x2CA5),
     (0x2CA6, 0x2CA7), (0x2CA8, 0x2CA9), (0x2CAA, 0x2CAB), (0x2CAC, 0x2CAD), (0x2CAE, 0x2CAF), (0x2CB0, 0x2CB1), (0x2CB2, 0x2CB3), (0x2CB4, 0x2CB5),
     (0x2CB6, 0x2CB7), (0x2CB8, 0x2CB9), (0x2CBA, 0x2CBB), (0x2CBC, 0x2CBD), (0x2CBE, 0x2CBF), (0x2CC0, 0x2CC1), (0x2CC2, 0x2CC3), (0x2CC4, 0x2CC5),
     (0x2CC6, 0x2CC7), (0x2CC8, 0x2CC9), (0x2CCA, 0x2CCB), (0x2CCC, 0x2CCD), (0x2CCE, 0x2CCF), (0x2CD0, 0x2CD1), (0x2CD2, 0x2CD3), (0x2CD4, 0x2CD5),
     (0x2CD6, 0x2CD7), (0x2CD8, 0x2CD9), (0x2CDA, 0x2CDB), (0x2CDC, 0x2CDD), (0x2CDE, 0x2CDF), (0x2CE0, 0x2CE1), (0x2CE2, 0x2CE3), (0xFF21, 0xFF41),
     (0xFF22, 0xFF42), (0xFF23, 0xFF43), (0xFF24, 0xFF44), (0xFF25, 0xFF45), (0xFF26, 0xFF46), (0xFF27, 0xFF47), (0xFF28, 0xFF48), (0xFF29, 0xFF49),
     (0xFF2A, 0xFF4A), (0xFF2B, 0xFF4B), (0xFF2C, 0xFF4C), (0xFF2D, 0xFF4D), (0xFF2E, 0xFF4E), (0xFF2F, 0xFF4F), (0xFF30, 0xFF50), (0xFF31, 0xFF51),
     (0xFF32, 0xFF52), (0xFF33, 0xFF53), (0xFF34, 0xFF54), (0xFF35, 0xFF55), (0xFF36, 0xFF56), (0xFF37, 0xFF57), (0xFF38, 0xFF58), (0xFF39, 0xFF59),
     (0xFF3A, 0xFF5A)]"

definition KAD_KEYWORD_LOWER_MAP :: "(u16 \<times> u16) list" where
  "KAD_KEYWORD_LOWER_MAP = map (map_prod word_of_int word_of_int) lower_map_codes"

definition is_ascii :: "bytes \<Rightarrow> bool" where
  "is_ascii bs \<longleftrightarrow> list_all (\<lambda>b. b < 0x80) bs"

definition is_ascii_uppercase :: "u8 \<Rightarrow> bool" where
  "is_ascii_uppercase b \<longleftrightarrow> 0x41 \<le> b \<and> b \<le> 0x5A"

definition to_ascii_lowercase :: "u8 \<Rightarrow> u8" where
  "to_ascii_lowercase b = (if is_ascii_uppercase b then b OR 0x20 else b)"

definition lower_char :: "nat \<Rightarrow> nat" where
  "lower_char code =
     (case binary_search_by (\<lambda>(upper, _). int (unat upper) - int code) KAD_KEYWORD_LOWER_MAP of
        Inr index \<Rightarrow>
          (case char_from_u32 (unat (snd (KAD_KEYWORD_LOWER_MAP ! index))) of Some c \<Rightarrow> c | None \<Rightarrow> code)
      | Inl _ \<Rightarrow> code)"

definition kad_lowercase :: "bytes \<Rightarrow> bytes" where
  "kad_lowercase v =
     (if is_ascii v then
        (if list_ex is_ascii_uppercase v then map to_ascii_lowercase v else v)
      else collect_chars (map lower_char (utf8_chars v)))"

section \<open>Encoding and decoding of characters\<close>

lemma is_cont_enum: "list_all (\<lambda>n. is_cont (word_of_int n) \<longleftrightarrow> 128 \<le> n \<and> n < 192) [0..255]"
  by code_simp

lemma is_cont_iff: "is_cont b \<longleftrightarrow> 128 \<le> unat b \<and> unat b < 192"
proof -
  have "uint b \<in> set [0..255]" using uint_lt2p [of b] by simp
  with is_cont_enum have "is_cont (word_of_int (uint b)) \<longleftrightarrow> 128 \<le> uint b \<and> uint b < 192"
    unfolding list_all_iff by blast
  then have "is_cont b \<longleftrightarrow> 128 \<le> uint b \<and> uint b < 192" by simp
  moreover have "int (unat b) = uint b" by simp
  ultimately show ?thesis by arith
qed

lemma unat_u8_lt: "unat (b :: u8) < 256"
  using unsigned_less [of b] by simp

lemmas byte_arith = word_less_nat_alt word_le_nat_alt is_cont_iff second_ok_def utf8_char_width_def
  word_unat_eq_iff

text \<open>The bytes of one character.\<close>

lemma utf8_step_bytes:
  assumes "utf8_step bs = (True, n)" "bs \<noteq> []"
  obtains (one) b where "n = 1" "take n bs = [b]" "unat b < 128"
  | (two) b c where "n = 2" "take n bs = [b, c]" "0xC2 \<le> unat b" "unat b < 0xE0" "is_cont c"
  | (three) b c d where "n = 3" "take n bs = [b, c, d]" "0xE0 \<le> unat b" "unat b < 0xF0" "second_ok b c" "is_cont d"
  | (four) b c d e where "n = 4" "take n bs = [b, c, d, e]" "0xF0 \<le> unat b" "unat b < 0xF5" "second_ok b c" "is_cont d" "is_cont e"
proof -
  have n: "n \<le> length bs" using utf8_step_fits assms by blast
  have at: "take n bs = map (byte_at bs) [0..<n]"
    using n by (intro nth_equalityI) (simp_all add: byte_at_def)
  let ?b = "byte_at bs"
  consider "n = 1" "unat (?b 0) < 128"
    | "n = 2" "0xC2 \<le> unat (?b 0)" "unat (?b 0) < 0xE0" "is_cont (?b 1)"
    | "n = 3" "0xE0 \<le> unat (?b 0)" "unat (?b 0) < 0xF0" "second_ok (?b 0) (?b 1)" "is_cont (?b 2)"
    | "n = 4" "0xF0 \<le> unat (?b 0)" "unat (?b 0) < 0xF5" "second_ok (?b 0) (?b 1)" "is_cont (?b 2)" "is_cont (?b 3)"
    using assms(1) unfolding utf8_step_def utf8_char_width_def Let_def
    by (simp split: if_splits add: word_less_nat_alt word_le_nat_alt)
  then show thesis
  proof cases
    case 1
    with at one show ?thesis by simp
  next
    case 2
    moreover have "take n bs = [?b 0, ?b 1]" using at 2 by (simp add: upt_rec)
    ultimately show ?thesis using two by blast
  next
    case 3
    moreover have "take n bs = [?b 0, ?b 1, ?b 2]" using at 3 by (simp add: upt_rec numeral_2_eq_2)
    ultimately show ?thesis using three by blast
  next
    case 4
    moreover have "take n bs = [?b 0, ?b 1, ?b 2, ?b 3]" using at 4 by (simp add: upt_rec numeral_2_eq_2 numeral_3_eq_3)
    ultimately show ?thesis using four by blast
  qed
qed

lemma digit_div: "d < k \<Longrightarrow> (q * k + d) div k = q" and digit_mod: "d < k \<Longrightarrow> (q * k + d) mod k = (d :: nat)"
  by simp_all

lemma encode_three:
  assumes "b < 16" "c < 64" "d < (64 :: nat)" "b = 0 \<Longrightarrow> 32 \<le> c"
  shows "utf8_encode (b * 0x1000 + c * 0x40 + d) = map word_of_nat [0xE0 + b, 0x80 + c, 0x80 + d]"
proof -
  let ?n = "b * 0x1000 + c * 0x40 + d"
  have "?n = (b * 64 + c) * 64 + d" "?n = b * 4096 + (c * 64 + d)" by simp_all
  then have "?n div 64 = b * 64 + c" "?n mod 64 = d" "?n div 4096 = b"
    using assms(1-3) digit_div [of d 64 "b * 64 + c"] digit_mod [of d 64 "b * 64 + c"] digit_div [of "c * 64 + d" 4096 b] by (simp_all add: algebra_simps)
  moreover have "?n < 0x10000" using assms(1-3) by simp
  moreover have "0x800 \<le> ?n" using assms(4) by (cases "b = 0") auto
  ultimately show ?thesis using assms(2) by (simp add: utf8_encode_def algebra_simps)
qed

lemma encode_four:
  assumes "b < 5" "c < 64" "d < 64" "e < (64 :: nat)" "b = 0 \<Longrightarrow> 16 \<le> c"
  shows "utf8_encode (b * 0x40000 + c * 0x1000 + d * 0x40 + e) = map word_of_nat [0xF0 + b, 0x80 + c, 0x80 + d, 0x80 + e]"
proof -
  let ?n = "b * 0x40000 + c * 0x1000 + d * 0x40 + e"
  have "?n = ((b * 64 + c) * 64 + d) * 64 + e" "?n = (b * 64 + c) * 4096 + (d * 64 + e)"
    "?n = b * 0x40000 + (c * 0x1000 + d * 0x40 + e)" by simp_all
  then have "?n div 64 = (b * 64 + c) * 64 + d" "?n mod 64 = e" "?n div 4096 = b * 64 + c" "?n div 0x40000 = b"
    using assms(1-4) digit_div [of e 64 "(b * 64 + c) * 64 + d"] digit_mod [of e 64 "(b * 64 + c) * 64 + d"]
      digit_div [of "d * 64 + e" 4096 "b * 64 + c"] digit_div [of "c * 0x1000 + d * 0x40 + e" "0x40000" b] by (simp_all add: algebra_simps)
  moreover have "((b * 64 + c) * 64 + d) mod 64 = d" "(b * 64 + c) mod 64 = c"
    using assms(2,3) digit_mod by blast+
  moreover have "0x10000 \<le> ?n" using assms(5) by (cases "b = 0") auto
  ultimately show ?thesis using assms(2,3) by (simp add: utf8_encode_def algebra_simps)
qed

lemma encode_two:
  assumes "2 \<le> b" "b < 32" "c < (64 :: nat)"
  shows "utf8_encode (b * 0x40 + c) = map word_of_nat [0xC0 + b, 0x80 + c]"
proof -
  have "(b * 64 + c) div 64 = b" "(b * 64 + c) mod 64 = c" "128 \<le> b * 64 + c" "b * 64 + c < 2048"
    using assms by simp_all
  then show ?thesis by (simp add: utf8_encode_def)
qed

lemma second_okD:
  assumes "second_ok b c"
  shows "128 \<le> unat c" "unat c < 192" "unat b = 0xE0 \<Longrightarrow> 160 \<le> unat c" "unat b = 0xED \<Longrightarrow> unat c < 160"
    "unat b = 0xF0 \<Longrightarrow> 144 \<le> unat c" "unat b = 0xF4 \<Longrightarrow> unat c < 144"
  using assms by (auto simp: second_ok_def word_le_nat_alt word_unat_eq_iff split: if_splits)

lemma scalar_three:
  "b < 16 \<Longrightarrow> c < 64 \<Longrightarrow> d < 64 \<Longrightarrow> (b = 13 \<Longrightarrow> c < 32) \<Longrightarrow> is_scalar (b * 0x1000 + c * 0x40 + d)"
  by (cases "b < 13"; cases "b = 13") (simp_all add: is_scalar_def)

lemma scalar_four:
  "b < 5 \<Longrightarrow> c < 64 \<Longrightarrow> d < 64 \<Longrightarrow> e < 64 \<Longrightarrow> (b = 0 \<Longrightarrow> 16 \<le> c) \<Longrightarrow> (b = 4 \<Longrightarrow> c < 16)
    \<Longrightarrow> is_scalar (b * 0x40000 + c * 0x1000 + d * 0x40 + e)"
  by (cases "b = 0"; cases "b = 4") (simp_all add: is_scalar_def)

lemma encode_code:
  assumes "utf8_step bs = (True, n)" "bs \<noteq> []"
  shows "utf8_encode (utf8_code (take n bs)) = take n bs \<and> is_scalar (utf8_code (take n bs))"
  using assms
proof (cases rule: utf8_step_bytes)
  case (one b)
  then show ?thesis by (simp add: utf8_encode_def is_scalar_def)
next
  case (two b c)
  then have c: "128 \<le> unat c" "unat c < 192" by (simp_all add: is_cont_iff)
  have "utf8_encode (utf8_code [b, c]) = [b, c]"
    using encode_two [of "unat b - 0xC0" "unat c - 0x80"] two(3,4) c by simp
  moreover have "utf8_code [b, c] < 0xD800" using two(4) c by simp
  ultimately show ?thesis using two(2) by (simp add: is_scalar_def del: utf8_code.simps)
next
  case (three b c d)
  note c = second_okD [OF three(5)] and d = three(6) [unfolded is_cont_iff]
  have k: "unat b - 0xE0 < 16" "unat c - 0x80 < 64" "unat d - 0x80 < 64" using three(4) c(2) d by arith+
  have x: "unat b - 0xE0 = 13 \<Longrightarrow> unat c - 0x80 < 32" using c(1,4) three(3) by arith
  have z: "unat b - 0xE0 = 0 \<Longrightarrow> 32 \<le> unat c - 0x80" using c(3) three(3) by simp
  have "utf8_encode (utf8_code [b, c, d]) = [b, c, d]"
    using encode_three [OF k z] three(3) c(1) d by simp
  moreover have "is_scalar (utf8_code [b, c, d])"
    using scalar_three [OF k x] d by simp
  ultimately show ?thesis using three(2) by (simp del: utf8_code.simps)
next
  case (four b c d e)
  note c = second_okD [OF four(5)] and d = four(6) [unfolded is_cont_iff] and e = four(7) [unfolded is_cont_iff]
  have k: "unat b - 0xF0 < 5" "unat c - 0x80 < 64" "unat d - 0x80 < 64" "unat e - 0x80 < 64" using four(4) c(2) d e by arith+
  have x: "unat b - 0xF0 = 4 \<Longrightarrow> unat c - 0x80 < 16" using c(1,6) four(3) by arith
  have z: "unat b - 0xF0 = 0 \<Longrightarrow> 16 \<le> unat c - 0x80" using c(5) four(3) by simp
  have "utf8_encode (utf8_code [b, c, d, e]) = [b, c, d, e]"
    using encode_four [OF k z] four(3) c(1) d e by simp
  moreover have "is_scalar (utf8_code [b, c, d, e])"
    using scalar_four [OF k z x] d e by simp
  ultimately show ?thesis using four(2) by (simp del: utf8_code.simps)
qed

lemma unat_byte: "n < 256 \<Longrightarrow> unat (word_of_nat n :: u8) = n"
  by (simp add: unsigned_of_nat take_bit_nat_eq_self)

lemma byte_at_shape:
  "byte_at (b # ys) 0 = b" "byte_at (b # c # ys) (Suc 0) = c" "byte_at (b # c # d # ys) 2 = d"
  "byte_at (b # c # d # e # ys) 3 = e"
  by (simp_all add: byte_at_def numeral_2_eq_2 numeral_3_eq_3)

lemma utf8_step_shape:
  "unat b < 128 \<Longrightarrow> utf8_step (b # ys) = (True, 1)"
  "0xC2 \<le> unat b \<Longrightarrow> unat b < 0xE0 \<Longrightarrow> is_cont c \<Longrightarrow> utf8_step (b # c # ys) = (True, 2)"
  "0xE0 \<le> unat b \<Longrightarrow> unat b < 0xF0 \<Longrightarrow> second_ok b c \<Longrightarrow> is_cont d \<Longrightarrow> utf8_step (b # c # d # ys) = (True, 3)"
  "0xF0 \<le> unat b \<Longrightarrow> unat b < 0xF5 \<Longrightarrow> second_ok b c \<Longrightarrow> is_cont d \<Longrightarrow> is_cont e \<Longrightarrow>
     utf8_step (b # c # d # e # ys) = (True, 4)"
  by (simp_all add: utf8_step_def utf8_char_width_def byte_at_shape word_less_nat_alt word_le_nat_alt Let_def)

lemma second_okI:
  "unat b = 0xE0 + n \<Longrightarrow> unat e = 0x80 + m \<Longrightarrow> n < 16 \<Longrightarrow> m < 64 \<Longrightarrow> (n = 0 \<Longrightarrow> 32 \<le> m) \<Longrightarrow> (n = 13 \<Longrightarrow> m < 32) \<Longrightarrow> second_ok b e"
  "unat b = 0xF0 + n \<Longrightarrow> unat e = 0x80 + m \<Longrightarrow> n < 5 \<Longrightarrow> m < 64 \<Longrightarrow> (n = 0 \<Longrightarrow> 16 \<le> m) \<Longrightarrow> (n = 4 \<Longrightarrow> m < 16) \<Longrightarrow> second_ok b e"
  by (auto simp: second_ok_def word_le_nat_alt word_unat_eq_iff)

lemma encoded_bytes:
  "0x80 \<le> c \<Longrightarrow> c < 0x800 \<Longrightarrow> \<exists>b e. utf8_encode c = [b, e] \<and> unat b = 0xC0 + c div 64 \<and> unat e = 0x80 + c mod 64"
  "0x800 \<le> c \<Longrightarrow> c < 0x10000 \<Longrightarrow> \<exists>b e f. utf8_encode c = [b, e, f] \<and> unat b = 0xE0 + c div 4096
     \<and> unat e = 0x80 + c div 64 mod 64 \<and> unat f = 0x80 + c mod 64"
  "0x10000 \<le> c \<Longrightarrow> c div 262144 < 5 \<Longrightarrow> \<exists>b e f g. utf8_encode c = [b, e, f, g] \<and> unat b = 0xF0 + c div 262144
     \<and> unat e = 0x80 + c div 4096 mod 64 \<and> unat f = 0x80 + c div 64 mod 64 \<and> unat g = 0x80 + c mod 64"
proof -
  have m: "n mod 64 < (64 :: nat)" for n by simp
  have u: "unat (word_of_nat (k + n) :: u8) = k + n" if "k + n < 256" for k n using that unat_byte by blast
  show "0x80 \<le> c \<Longrightarrow> c < 0x800 \<Longrightarrow> \<exists>b e. utf8_encode c = [b, e] \<and> unat b = 0xC0 + c div 64 \<and> unat e = 0x80 + c mod 64"
    using m [of c] by (simp add: utf8_encode_def u del: of_nat_add)
  show "0x800 \<le> c \<Longrightarrow> c < 0x10000 \<Longrightarrow> \<exists>b e f. utf8_encode c = [b, e, f] \<and> unat b = 0xE0 + c div 4096
     \<and> unat e = 0x80 + c div 64 mod 64 \<and> unat f = 0x80 + c mod 64"
    using m [of c] m [of "c div 64"] by (simp add: utf8_encode_def u del: of_nat_add)
  show "0x10000 \<le> c \<Longrightarrow> c div 262144 < 5 \<Longrightarrow> \<exists>b e f g. utf8_encode c = [b, e, f, g] \<and> unat b = 0xF0 + c div 262144
     \<and> unat e = 0x80 + c div 4096 mod 64 \<and> unat f = 0x80 + c div 64 mod 64 \<and> unat g = 0x80 + c mod 64"
    using m [of c] m [of "c div 64"] m [of "c div 4096"] by (simp add: utf8_encode_def u del: of_nat_add)
qed

lemma code_encode:
  assumes "is_scalar c"
  shows "utf8_step (utf8_encode c @ ys) = (True, length (utf8_encode c)) \<and> utf8_code (utf8_encode c) = c"
proof -
  let ?d0 = "c mod 64" and ?d1 = "c div 64 mod 64" and ?d2 = "c div 4096 mod 64"
  have d: "?d0 < 64" "?d1 < 64" "?d2 < 64" by simp_all
  have c: "c = c div 4096 * 4096 + ?d1 * 64 + ?d0" "c div 4096 = c div 262144 * 64 + ?d2" "c = c div 64 * 64 + ?d0"
  proof -
    have q: "c div 64 div 64 = c div 4096" "c div 4096 div 64 = c div 262144" by (simp_all add: div_mult2_eq [symmetric])
    show 3: "c = c div 64 * 64 + ?d0" and "c div 4096 = c div 262144 * 64 + ?d2"
      using div_mult_mod_eq [of c 64] div_mult_mod_eq [of "c div 4096" 64] q(2) by simp_all
    show "c = c div 4096 * 4096 + ?d1 * 64 + ?d0"
      using 3 div_mult_mod_eq [of "c div 64" 64] unfolding q(1) by linarith
  qed
  consider "c < 0x80" | "0x80 \<le> c" "c < 0x800" | "0x800 \<le> c" "c < 0x10000" | "0x10000 \<le> c" by linarith
  then show ?thesis
  proof cases
    case 1
    then show ?thesis by (simp add: utf8_encode_def utf8_step_shape unat_byte)
  next
    case 2
    then have q: "2 \<le> c div 64" "c div 64 < 32" by auto
    obtain b e where "utf8_encode c = [b, e]" "unat b = 0xC0 + c div 64" "unat e = 0x80 + ?d0"
      using encoded_bytes(1) [OF 2] by blast
    with q d c(3) show ?thesis by (simp add: utf8_step_shape is_cont_iff)
  next
    case 3
    then have q: "c div 4096 < 16" by auto
    obtain b e f where e: "utf8_encode c = [b, e, f]" "unat b = 0xE0 + c div 4096" "unat e = 0x80 + ?d1" "unat f = 0x80 + ?d0"
      using encoded_bytes(2) [OF 3] by blast
    have s: "c div 4096 = 0 \<Longrightarrow> 32 \<le> ?d1" "c div 4096 = 13 \<Longrightarrow> ?d1 < 32"
      using c(1) d 3 assms unfolding is_scalar_def by linarith+
    have "second_ok b e" by (rule second_okI(1) [OF e(2,3) q d(2) s])
    then have "utf8_step (utf8_encode c @ ys) = (True, 3)"
      unfolding e(1) append_Cons append_Nil by (intro utf8_step_shape) (use e q d in \<open>simp_all add: is_cont_iff\<close>)
    moreover have "utf8_code [b, e, f] = c" using c(1) e by simp
    ultimately show ?thesis by (simp add: e(1))
  next
    case 4
    with assms have q: "c div 262144 < 5" by (auto simp: is_scalar_def)
    obtain b e f g where e: "utf8_encode c = [b, e, f, g]" "unat b = 0xF0 + c div 262144" "unat e = 0x80 + ?d2"
        "unat f = 0x80 + ?d1" "unat g = 0x80 + ?d0"
      using encoded_bytes(3) [OF 4 q] by blast
    have s: "c div 262144 = 0 \<Longrightarrow> 16 \<le> ?d2" "c div 262144 = 4 \<Longrightarrow> ?d2 < 16"
      using c(1,2) d 4 assms unfolding is_scalar_def by linarith+
    have "second_ok b e" by (rule second_okI(2) [OF e(2,3) q d(3) s])
    then have "utf8_step (utf8_encode c @ ys) = (True, 4)"
      unfolding e(1) append_Cons append_Nil by (intro utf8_step_shape) (use e q d in \<open>simp_all add: is_cont_iff\<close>)
    moreover have "utf8_code [b, e, f, g] = c" using c(1,2) e by simp
    ultimately show ?thesis by (simp add: e(1))
  qed
qed

lemma utf8_chars_encode: "is_scalar c \<Longrightarrow> utf8_chars (utf8_encode c @ ys) = c # utf8_chars ys"
  using code_encode [of c ys] by (subst utf8_chars.simps) (auto simp: utf8_encode_def split: if_splits)

lemma utf8_chars_collect: "list_all is_scalar cs \<Longrightarrow> utf8_chars (collect_chars cs) = cs"
  by (induction cs) (simp_all add: collect_chars_def utf8_chars_encode utf8_chars.simps [of "[]"])

lemma utf8_valid_collect: "list_all is_scalar cs \<Longrightarrow> utf8_valid (collect_chars cs)"
proof (induction cs)
  case (Cons c cs)
  then have "utf8_step (utf8_encode c @ collect_chars cs) = (True, length (utf8_encode c))"
    using code_encode by simp
  with Cons show ?case
    by (subst utf8_valid.simps) (simp add: collect_chars_def)
qed (simp add: collect_chars_def utf8_valid.simps)

lemma chars_of_valid: "utf8_valid bs \<Longrightarrow> collect_chars (utf8_chars bs) = bs \<and> list_all is_scalar (utf8_chars bs)"
proof (induction bs rule: utf8_valid.induct)
  case (1 bs)
  show ?case
  proof (cases "bs = []")
    case True
    then show ?thesis by (simp add: utf8_chars.simps collect_chars_def)
  next
    case False
    obtain ok n where step: "utf8_step bs = (ok, n)" by fastforce
    with 1 False have "ok" "collect_chars (utf8_chars (drop n bs)) = drop n bs \<and> list_all is_scalar (utf8_chars (drop n bs))"
      by (simp_all add: utf8_valid.simps [of bs])
    with encode_code [of bs n] step False show ?thesis
      by (simp add: utf8_chars.simps [of bs] collect_chars_def)
  qed
qed

section \<open>Binary search finds exactly the keys of the table\<close>

lemma search_base_less: "base + sz \<le> length xs \<Longrightarrow> 0 < sz \<Longrightarrow> search_base cmp xs base sz < length xs"
proof (induction cmp xs base sz rule: search_base.induct)
  case (1 cmp xs base sz)
  show ?case
  proof (cases "1 < sz")
    case True
    then have "base + sz div 2 + (sz - sz div 2) \<le> length xs" "base + (sz - sz div 2) \<le> length xs" "0 < sz - sz div 2"
      using 1(2) by auto
    with "1.IH" [OF True refl refl] True show ?thesis
      by (subst search_base.simps) (simp add: Let_def)
  next
    case False
    with "1.prems" show ?thesis by (subst search_base.simps) simp
  qed
qed

lemma search_base_finds:
  assumes mono: "\<And>a b. a < b \<Longrightarrow> b < length xs \<Longrightarrow> cmp (xs ! a) < cmp (xs ! b)" and "cmp (xs ! i) = 0"
  shows "base + sz \<le> length xs \<Longrightarrow> base \<le> i \<Longrightarrow> i < base + sz \<Longrightarrow> search_base cmp xs base sz = i"
  using assms
proof (induction cmp xs base sz rule: search_base.induct)
  case (1 cmp xs base sz)
  show ?case
  proof (cases "1 < sz")
    case True
    let ?half = "sz div 2"
    have mid: "0 < cmp (xs ! (base + ?half)) \<longleftrightarrow> i < base + ?half"
      using "1.prems"(4) [of i "base + ?half"] "1.prems"(4) [of "base + ?half" i] "1.prems"(1,3,5) True
      by (cases "i < base + ?half"; cases "i = base + ?half") auto
    have "search_base cmp xs (if 0 < cmp (xs ! (base + ?half)) then base else base + ?half) (sz - ?half) = i"
      using "1.prems" True mid by (intro "1.IH" [OF True refl refl]) auto
    with True show ?thesis by (subst search_base.simps) (simp add: Let_def)
  next
    case False
    with "1.prems" show ?thesis by (subst search_base.simps) simp
  qed
qed

lemma binary_search_by_iff:
  assumes mono: "\<And>a b. a < b \<Longrightarrow> b < length xs \<Longrightarrow> cmp (xs ! a) < cmp (xs ! b)"
  shows "binary_search_by cmp xs = Inr i \<longleftrightarrow> i < length xs \<and> cmp (xs ! i) = 0"
proof
  assume "binary_search_by cmp xs = Inr i"
  with search_base_less [of 0 "length xs" xs cmp] show "i < length xs \<and> cmp (xs ! i) = 0"
    by (auto simp: binary_search_by_def Let_def split: if_splits)
next
  assume i: "i < length xs \<and> cmp (xs ! i) = 0"
  then have "search_base cmp xs 0 (length xs) = i"
    by (intro search_base_finds) (use mono in auto)
  with i show "binary_search_by cmp xs = Inr i" by (auto simp: binary_search_by_def)
qed

fun ascending :: "'a::linorder list \<Rightarrow> bool" where
  "ascending (x # y # zs) \<longleftrightarrow> x < y \<and> ascending (y # zs)"
| "ascending _ \<longleftrightarrow> True"

lemma ascending_sorted: "ascending xs \<Longrightarrow> sorted_wrt (<) xs"
  by (induction xs rule: ascending.induct) (auto intro: less_trans)

lemma table_ascending: "ascending (map fst lower_map_codes)"
  by (simp add: lower_map_codes_def)

lemma table_range:
  "list_all (\<lambda>(u, l). 0 \<le> u \<and> u < 0x10000 \<and> 0 \<le> l \<and> (l < 0xD800 \<or> 0xE000 \<le> l \<and> l < 0x10000)) lower_map_codes"
  by (simp add: lower_map_codes_def)

definition lower_lookup :: "nat \<Rightarrow> nat" where
  "lower_lookup c =
     (case map_of (map (\<lambda>(u, l). (unat u, unat l)) KAD_KEYWORD_LOWER_MAP) c of Some l \<Rightarrow> l | None \<Rightarrow> c)"

lemma unat_code: "0 \<le> n \<Longrightarrow> n < 0x10000 \<Longrightarrow> unat (word_of_int n :: u16) = nat n"
  by (simp add: unsigned_of_int take_bit_int_eq_self)

lemma table_nats: "map (\<lambda>(u, l). (unat u, unat l)) KAD_KEYWORD_LOWER_MAP = map (map_prod nat nat) lower_map_codes"
  using table_range unfolding KAD_KEYWORD_LOWER_MAP_def list_all_iff
  by (auto simp: unat_code)

lemma table_sorted: "sorted_wrt (<) (map fst (map (map_prod nat nat) lower_map_codes))"
proof -
  have "sorted_wrt (\<lambda>a b. nat a < nat b) (map fst lower_map_codes)"
  proof (rule sorted_wrt_mono_rel [OF _ ascending_sorted [OF table_ascending]])
    fix x y assume "x \<in> set (map fst lower_map_codes)" "x < y"
    then show "nat x < nat y" using table_range unfolding list_all_iff by fastforce
  qed
  then show ?thesis by (simp add: sorted_wrt_map comp_def)
qed

lemma binary_search_map_of:
  fixes T :: "(u16 \<times> u16) list"
  assumes "sorted_wrt (<) (map (unat \<circ> fst) T)"
  shows "(case binary_search_by (\<lambda>(u, l). int (unat u) - int c) T of Inr i \<Rightarrow> Some (unat (snd (T ! i))) | Inl _ \<Rightarrow> None)
    = map_of (map (\<lambda>(u, l). (unat u, unat l)) T) c"
proof -
  let ?cmp = "\<lambda>(u :: u16, l :: u16). int (unat u) - int c" and ?N = "map (\<lambda>(u, l). (unat u, unat l)) T"
  have found: "binary_search_by ?cmp T = Inr i \<longleftrightarrow> i < length T \<and> unat (fst (T ! i)) = c" for i
  proof (subst binary_search_by_iff)
    fix a b assume "a < b" "b < length T"
    then have "unat (fst (T ! a)) < unat (fst (T ! b))"
      using sorted_wrt_nth_less [OF assms, of a b] by simp
    then have "int (unat (fst (T ! a))) < int (unat (fst (T ! b)))" by (simp only: of_nat_less_iff)
    then show "?cmp (T ! a) < ?cmp (T ! b)" unfolding case_prod_unfold by linarith
  qed (simp only: case_prod_unfold eq_iff_diff_eq_0 [symmetric] of_nat_eq_iff)
  have fst_N: "map fst ?N = map (unat \<circ> fst) T" by (simp add: case_prod_unfold comp_def)
  have dist: "distinct (map fst ?N)" unfolding fst_N using assms by (simp add: strict_sorted_iff)
  show ?thesis
  proof (cases "binary_search_by ?cmp T")
    case (Inr i)
    with found have i: "i < length T" "unat (fst (T ! i)) = c" by blast+
    then have "(c, unat (snd (T ! i))) \<in> set ?N" by (force simp: case_prod_unfold)
    with dist have "map_of ?N c = Some (unat (snd (T ! i)))" by simp
    with Inr show ?thesis by simp
  next
    case (Inl k)
    then have "c \<notin> set (map fst ?N)" using found unfolding fst_N in_set_conv_nth by auto
    then have "map_of ?N c = None" by (simp only: map_of_eq_None_iff set_map simp_thms)
    with Inl show ?thesis by simp
  qed
qed

lemma lower_char_lookup: "lower_char c = lower_lookup c"
proof -
  let ?N = "map (\<lambda>(u, l). (unat u, unat l)) KAD_KEYWORD_LOWER_MAP"
  have "sorted_wrt (<) (map (unat \<circ> fst) KAD_KEYWORD_LOWER_MAP)"
    using table_sorted unfolding table_nats [symmetric] by (simp add: case_prod_unfold comp_def)
  note lookup = binary_search_map_of [OF this, of c]
  have scalar: "is_scalar l" if "map_of ?N c = Some l" for l
  proof -
    have "(c, l) \<in> set (map (map_prod nat nat) lower_map_codes)" using map_of_SomeD [OF that] unfolding table_nats .
    then show ?thesis using table_range unfolding list_all_iff is_scalar_def by force
  qed
  show ?thesis
    using scalar lookup unfolding lower_char_def lower_lookup_def
    by (auto simp: char_from_u32_def split: sum.splits option.splits)
qed

section \<open>The fast path for ASCII\<close>

text \<open>The table starts with the ASCII letters and has no other ASCII key.\<close>

lemma table_split:
  "lower_map_codes = map (\<lambda>k. (0x41 + k, 0x61 + k)) [0..25] @ drop 26 lower_map_codes"
  "list_all (\<lambda>(u, l). 128 \<le> u) (drop 26 lower_map_codes)"
  by (simp_all add: lower_map_codes_def upto.simps)

lemma lower_lookup_ascii:
  assumes "c < 128"
  shows "lower_lookup c = (if 0x41 \<le> c \<and> c \<le> 0x5A then c + 0x20 else c)"
proof -
  let ?A = "map (map_prod nat nat) (map (\<lambda>k. (0x41 + k, 0x61 + k)) [0..25])" and ?B = "map (map_prod nat nat) (drop 26 lower_map_codes)"
  have "map_of ?B c = None"
    using table_split(2) assms unfolding list_all_iff map_of_eq_None_iff by force
  then have "map_of (?A @ ?B) c = map_of ?A c" by (simp add: map_add_def split: option.split)
  moreover have "map_of ?A c = (if 0x41 \<le> c \<and> c \<le> 0x5A then Some (c + 0x20) else None)"
  proof (cases "0x41 \<le> c \<and> c \<le> 0x5A")
    case True
    then have "(c, c + 0x20) \<in> set ?A" by (auto simp: image_iff intro!: bexI [of _ "int c - 0x41"])
    moreover have "distinct (map fst ?A)" by (simp add: upto.simps)
    ultimately show ?thesis using True by simp
  next
    case False
    then have "map_of ?A c = None" unfolding map_of_eq_None_iff by auto
    with False show ?thesis by simp
  qed
  ultimately show ?thesis
    unfolding lower_lookup_def table_nats arg_cong [OF table_split(1), of "map (map_prod nat nat)"] map_append by simp
qed

lemma ascii_chars: "is_ascii v \<Longrightarrow> utf8_chars v = map unat v"
proof (induction v)
  case (Cons b v)
  then have "utf8_step (b # v) = (True, 1)" by (simp add: is_ascii_def utf8_step_shape word_less_nat_alt)
  with Cons show ?case by (subst utf8_chars.simps) (simp add: is_ascii_def)
qed (simp add: utf8_chars.simps)

lemma upper_enum: "list_all (\<lambda>n. to_ascii_lowercase (word_of_int n) = word_of_int (if 0x41 \<le> n \<and> n \<le> 0x5A then n + 0x20 else n)) [0..127]"
  by code_simp

lemma lower_ascii_byte: "b < 0x80 \<Longrightarrow> utf8_encode (lower_lookup (unat b)) = [to_ascii_lowercase b]"
proof -
  assume "b < 0x80"
  then have b: "unat b < 128" by (simp add: word_less_nat_alt)
  have u: "int (unat b) = uint b" by simp
  with b have "uint b \<le> 127" by arith
  then have "uint b \<in> set [0..127]" by simp
  with upper_enum have "to_ascii_lowercase (word_of_int (uint b)) = word_of_int (if 0x41 \<le> uint b \<and> uint b \<le> 0x5A then uint b + 0x20 else uint b)"
    unfolding list_all_iff by blast
  then have "to_ascii_lowercase b = (if 0x41 \<le> uint b \<and> uint b \<le> 0x5A then b + 0x20 else b)" by simp
  moreover have "0x41 \<le> uint b \<and> uint b \<le> 0x5A \<longleftrightarrow> 0x41 \<le> unat b \<and> unat b \<le> 0x5A"
    using u by arith
  ultimately show ?thesis using b by (simp add: lower_lookup_ascii utf8_encode_def)
qed

lemma ascii_lowered: "is_ascii v \<Longrightarrow> collect_chars (map lower_lookup (utf8_chars v)) = map to_ascii_lowercase v"
  unfolding ascii_chars by (induction v) (simp_all add: collect_chars_def lower_ascii_byte is_ascii_def)

lemma no_uppercase: "\<not> list_ex is_ascii_uppercase v \<Longrightarrow> map to_ascii_lowercase v = v"
  by (induction v) (simp_all add: to_ascii_lowercase_def)

lemma lower_lookup_scalar: "is_scalar c \<Longrightarrow> is_scalar (lower_lookup c)"
proof (unfold lower_lookup_def, split option.split, intro conjI allI impI)
  fix l assume "map_of (map (\<lambda>(u, l). (unat u, unat l)) KAD_KEYWORD_LOWER_MAP) c = Some l"
  then have "(c, l) \<in> set (map (map_prod nat nat) lower_map_codes)" using map_of_SomeD unfolding table_nats by fast
  then show "is_scalar l" using table_range unfolding list_all_iff is_scalar_def by force
qed

lemma kad_lowercase_lookup: "kad_lowercase v = collect_chars (map lower_lookup (utf8_chars v))"
  unfolding kad_lowercase_def lower_char_lookup [abs_def]
  by (auto simp: ascii_lowered no_uppercase)

lemma kad_lowercase_valid: "utf8_valid v \<Longrightarrow> utf8_valid (kad_lowercase v)"
  unfolding kad_lowercase_lookup using chars_of_valid
  by (intro utf8_valid_collect) (auto simp: list_all_iff lower_lookup_scalar)

section \<open>Properties\<close>

text \<open>Lower-casing a text is the same as replacing each of its characters by its entry in the frozen
  table: the ASCII fast path and the binary search agree with a plain lookup on every text, and the result
  is a valid text with as many characters.\<close>

theorem kad_lowercase_by_table:
  assumes "utf8_valid v"
  shows "kad_lowercase v = collect_chars (map lower_lookup (utf8_chars v))
    \<and> utf8_valid (kad_lowercase v) \<and> utf8_chars (kad_lowercase v) = map lower_lookup (utf8_chars v)"
  using kad_lowercase_lookup [of v] kad_lowercase_valid [OF assms] chars_of_valid [OF assms]
    utf8_chars_collect [of "map lower_lookup (utf8_chars v)"]
  by (simp add: list_all_iff lower_lookup_scalar)

text \<open>The word KAD in capitals.\<close>

theorem kad_lowercase_by_table_witness:
  "utf8_valid [0x4B, 0x41, 0x44] \<and> kad_lowercase [0x4B, 0x41, 0x44] = [0x6B, 0x61, 0x64]
   \<and> collect_chars (map lower_lookup (utf8_chars [0x4B, 0x41, 0x44])) = [0x6B, 0x61, 0x64]"
proof -
  have "utf8_valid [0x4B, 0x41, 0x44]" by code_simp
  moreover from kad_lowercase_by_table [OF this]
  have "kad_lowercase [0x4B, 0x41, 0x44] = collect_chars (map lower_lookup (utf8_chars [0x4B, 0x41, 0x44]))" by blast
  moreover have "kad_lowercase [0x4B, 0x41, 0x44] = [0x6B, 0x61, 0x64]"
    by (simp add: kad_lowercase_def is_ascii_def is_ascii_uppercase_def to_ascii_lowercase_def)
  ultimately show ?thesis by simp
qed

end
