(* ===== verification/Search_Expr.thy ===== *)
theory Search_Expr
  imports Kad_Text
begin

text \<open>
  \<^verbatim>\<open>emulebb-kad-proto/src/search_expr.rs\<close>: the parser of restrictive search expressions and the matching of
  an expression against the name and the tags of a file. Every failure is the unit error of the source.
  The tokenizer walks over the characters that are left, where the source keeps an index.
\<close>

section \<open>Expressions\<close>

datatype numeric_op = OpEqual | OpGreater | OpLess | OpGreaterEqual | OpLessEqual | OpNotEqual

datatype search_term =
    TAnd search_term search_term
  | TOr search_term search_term
  | TNot search_term search_term
  | TString "bytes list"
  | TMetaString (meta_name: tag_name) (meta_value: bytes)
  | TNumeric (num_name: tag_name) (num_op: numeric_op) (num_value: u64)

definition MAX_SEARCH_EXPR_DEPTH :: nat where "MAX_SEARCH_EXPR_DEPTH = 24"

definition FT_FILEFORMAT :: u8 where "FT_FILEFORMAT = 0x04"
definition FT_FILESIZE_HI :: u8 where "FT_FILESIZE_HI = 0x3A"

text \<open>The code points of the separator characters \<^verbatim>\<open> ()[]{}<>,._-!?:;\/"\<close>.\<close>

definition INVALID_KAD_KEYWORD_CHARS :: "nat list" where
  "INVALID_KAD_KEYWORD_CHARS =
     [0x20, 0x28, 0x29, 0x5B, 0x5D, 0x7B, 0x7D, 0x3C, 0x3E, 0x2C, 0x2E, 0x5F, 0x2D, 0x21, 0x3F, 0x3A, 0x3B,
      0x5C, 0x2F, 0x22]"

section \<open>Parsing\<close>

definition read_exact :: "nat \<Rightarrow> bytes \<Rightarrow> unit + bytes \<times> bytes" where
  "read_exact n bs = (if n \<le> length bs then Inr (take n bs, drop n bs) else Inl ())"

definition se_read_u8 :: "bytes \<Rightarrow> unit + u8 \<times> bytes" where
  "se_read_u8 = rbind (read_exact 1) (\<lambda>bs. rret (bs ! 0))"

definition se_read_u16 :: "bytes \<Rightarrow> unit + u16 \<times> bytes" where
  "se_read_u16 = rbind (read_exact 2) (\<lambda>bs. rret (from_le bs))"

definition se_read_u32 :: "bytes \<Rightarrow> unit + u32 \<times> bytes" where
  "se_read_u32 = rbind (read_exact 4) (\<lambda>bs. rret (from_le bs))"

definition se_read_u64 :: "bytes \<Rightarrow> unit + u64 \<times> bytes" where
  "se_read_u64 = rbind (read_exact 8) (\<lambda>bs. rret (from_le bs))"

definition se_read_tag_name :: "bytes \<Rightarrow> unit + tag_name \<times> bytes" where
  "se_read_tag_name =
     rbind se_read_u16 (\<lambda>len. rbind (read_exact (unat len)) (\<lambda>bs.
       rret (case bs of [name] \<Rightarrow> Short name | _ \<Rightarrow> Long (from_utf8_lossy bs))))"

definition read_lower_string :: "bytes \<Rightarrow> unit + bytes \<times> bytes" where
  "read_lower_string =
     rbind se_read_u16 (\<lambda>len. rbind (read_exact (unat len)) (\<lambda>bs. rret (kad_lowercase (from_utf8_lossy bs))))"

function tokenize_chars :: "nat list \<Rightarrow> nat list list" where
  "tokenize_chars [] = []"
| "tokenize_chars (c # cs) =
     (if c = 0x22 then
        case position (\<lambda>character. character = 0x22) cs of
          Some relative_end \<Rightarrow>
            (if relative_end > 0 then [take relative_end cs] else []) @ tokenize_chars (drop (Suc relative_end) cs)
        | None \<Rightarrow> tokenize_chars cs
      else
        let word = takeWhile (\<lambda>x. x \<notin> set INVALID_KAD_KEYWORD_CHARS) (c # cs);
            rest = dropWhile (\<lambda>x. x \<notin> set INVALID_KAD_KEYWORD_CHARS) (c # cs)
        in (if word \<noteq> [] then [word] else []) @
           (if rest \<noteq> [] \<and> hd rest = 0x22 then tokenize_chars rest else tokenize_chars (tl rest)))"
  by pat_completeness auto
termination
proof (relation "measure length")
  have short: "length (dropWhile p xs) \<le> length xs" for p and xs :: "nat list" by (rule length_dropWhile_le)
  fix c :: nat and cs w rest
  assume rest: "rest = dropWhile (\<lambda>x. x \<notin> set INVALID_KAD_KEYWORD_CHARS) (c # cs)"
  then show "(tl rest, c # cs) \<in> measure length"
    using short [of "\<lambda>x. x \<notin> set INVALID_KAD_KEYWORD_CHARS" "c # cs"] by (cases rest) auto
  assume "c \<noteq> 0x22" "rest \<noteq> [] \<and> hd rest = 0x22"
  with rest show "(rest, c # cs) \<in> measure length"
    using short [of "\<lambda>x. x \<notin> set INVALID_KAD_KEYWORD_CHARS" cs] by (auto split: if_splits)
qed auto

definition tokenize_opt_quoted_search_term :: "bytes \<Rightarrow> bytes list" where
  "tokenize_opt_quoted_search_term v = map collect_chars (tokenize_chars (utf8_chars v))"

definition numeric_op_of :: "u8 \<Rightarrow> numeric_op option" where
  "numeric_op_of b =
     (if b = 0x00 then Some OpEqual else if b = 0x01 then Some OpGreater else if b = 0x02 then Some OpLess
      else if b = 0x03 then Some OpGreaterEqual else if b = 0x04 then Some OpLessEqual
      else if b = 0x05 then Some OpNotEqual else None)"

definition parse_numeric_term :: "u64 \<Rightarrow> bytes \<Rightarrow> unit + search_term \<times> bytes" where
  "parse_numeric_term value =
     rbind se_read_u8 (\<lambda>b.
       case numeric_op_of b of
         None \<Rightarrow> (\<lambda>_. Inl ())
       | Some op \<Rightarrow> rbind se_read_tag_name (\<lambda>name. rret (TNumeric name op value)))"

function parse_search_term :: "nat \<Rightarrow> bytes \<Rightarrow> unit + search_term \<times> bytes"
  and parse_boolean_term :: "nat \<Rightarrow> bytes \<Rightarrow> unit + search_term \<times> bytes" where
  "parse_search_term depth bs =
     (if depth \<ge> MAX_SEARCH_EXPR_DEPTH then Inl ()
      else rbind se_read_u8 (\<lambda>op bs.
        if op = 0x00 then parse_boolean_term (depth + 1) bs
        else if op = 0x01 then
          rbind read_lower_string (\<lambda>value. rret (TString (tokenize_opt_quoted_search_term value))) bs
        else if op = 0x02 then
          rbind read_lower_string (\<lambda>value. rbind se_read_tag_name (\<lambda>name. rret (TMetaString name value))) bs
        else if op = 0x03 then rbind se_read_u32 (\<lambda>value. parse_numeric_term (ucast value)) bs
        else if op = 0x08 then rbind se_read_u64 (\<lambda>value. parse_numeric_term value) bs
        else Inl ()) bs)"
| "parse_boolean_term depth bs =
     rbind se_read_u8 (\<lambda>bool_op.
     rbind (\<lambda>bs. parse_search_term depth bs) (\<lambda>left.
     rbind (\<lambda>bs. parse_search_term depth bs) (\<lambda>right.
       if bool_op = 0x00 then rret (TAnd left right)
       else if bool_op = 0x01 then rret (TOr left right)
       else if bool_op = 0x02 then rret (TNot left right)
       else (\<lambda>_. Inl ())))) bs"
  by pat_completeness auto
termination
  by (relation "measure (\<lambda>x. case x of Inl (d, _) \<Rightarrow> 2 * (24 - d) | Inr (d, _) \<Rightarrow> 2 * (24 - d) + 1)")
    (auto simp: MAX_SEARCH_EXPR_DEPTH_def)

declare parse_search_term.simps [simp del] parse_boolean_term.simps [simp del]

section \<open>Matching\<close>

fun str_contains :: "bytes \<Rightarrow> bytes \<Rightarrow> bool" where
  "str_contains [] needle \<longleftrightarrow> needle = []"
| "str_contains (x # xs) needle \<longleftrightarrow> take (length needle) (x # xs) = needle \<or> str_contains xs needle"

definition rsplit_once_dot :: "bytes \<Rightarrow> (bytes \<times> bytes) option" where
  "rsplit_once_dot v =
     (if 0x2E \<in> set v
      then let extension = rev (takeWhile (\<lambda>b. b \<noteq> 0x2E) (rev v))
           in Some (take (length v - length extension - 1) v, extension)
      else None)"

definition string_terms_match :: "bytes \<Rightarrow> bytes list \<Rightarrow> bool" where
  "string_terms_match filename_lower terms \<longleftrightarrow> terms \<noteq> [] \<and> list_all (str_contains filename_lower) terms"

definition file_format_matches :: "bytes \<Rightarrow> bytes \<Rightarrow> bool" where
  "file_format_matches filename_lower value =
     (case rsplit_once_dot filename_lower of Some (_, extension) \<Rightarrow> extension = value | None \<Rightarrow> False)"

definition string_tag_matches :: "tag_name \<Rightarrow> bytes \<Rightarrow> tag \<Rightarrow> bool" where
  "string_tag_matches name value tag \<longleftrightarrow>
     t_name tag = name \<and> (case t_value tag of VString tag_value \<Rightarrow> kad_lowercase tag_value = value | _ \<Rightarrow> False)"

definition meta_string_matches :: "bytes \<Rightarrow> tag list \<Rightarrow> tag_name \<Rightarrow> bytes \<Rightarrow> bool" where
  "meta_string_matches filename_lower tags name value =
     (if name = Short FT_FILEFORMAT then file_format_matches filename_lower value
      else list_ex (string_tag_matches name value) tags)"

definition get_or_insert :: "'a option \<Rightarrow> 'a \<Rightarrow> 'a option" where
  "get_or_insert slot v = (case slot of None \<Rightarrow> Some v | Some _ \<Rightarrow> slot)"

record file_size_parts =
  size_full :: "u64 option"
  size_low :: "u32 option"
  size_high :: "u32 option"

definition file_size_step :: "tag \<Rightarrow> file_size_parts \<Rightarrow> file_size_parts" where
  "file_size_step tag p =
     (case t_name tag of
        Long _ \<Rightarrow> p
      | Short name \<Rightarrow>
          if name = FT_FILESIZE then
            (case t_value tag of
               VUInt value \<Rightarrow>
                 if value \<le> 0xFFFFFFFF then p\<lparr> size_low := get_or_insert (size_low p) (ucast value) \<rparr>
                 else p\<lparr> size_full := get_or_insert (size_full p) value \<rparr>
             | VU64 value \<Rightarrow> p\<lparr> size_full := get_or_insert (size_full p) value \<rparr>
             | VU32 value \<Rightarrow> p\<lparr> size_low := get_or_insert (size_low p) value \<rparr>
             | VU16 value \<Rightarrow> p\<lparr> size_low := get_or_insert (size_low p) (ucast value) \<rparr>
             | VU8 value \<Rightarrow> p\<lparr> size_low := get_or_insert (size_low p) (ucast value) \<rparr>
             | VSmallBlob bs \<Rightarrow>
                 if length bs = 8 then p\<lparr> size_full := get_or_insert (size_full p) (from_le bs) \<rparr> else p
             | _ \<Rightarrow> p)
          else if name = FT_FILESIZE_HI then
            (case t_value tag of
               VUInt value \<Rightarrow>
                 if value \<le> 0xFFFFFFFF then p\<lparr> size_high := get_or_insert (size_high p) (ucast value) \<rparr> else p
             | VU32 value \<Rightarrow> p\<lparr> size_high := get_or_insert (size_high p) value \<rparr>
             | VU16 value \<Rightarrow> p\<lparr> size_high := get_or_insert (size_high p) (ucast value) \<rparr>
             | VU8 value \<Rightarrow> p\<lparr> size_high := get_or_insert (size_high p) (ucast value) \<rparr>
             | _ \<Rightarrow> p)
          else p)"

definition no_size_parts :: file_size_parts where
  "no_size_parts = \<lparr> size_full = None, size_low = None, size_high = None \<rparr>"

definition combine_file_size :: "file_size_parts \<Rightarrow> u64 option" where
  "combine_file_size p =
     (case size_full p of
        Some full \<Rightarrow> Some full
      | None \<Rightarrow>
          map_option (\<lambda>low.
            let high = (case size_high p of Some h \<Rightarrow> h | None \<Rightarrow> 0)
            in push_bit 32 (ucast high :: u64) OR ucast low) (size_low p))"

definition file_size_tag_value :: "tag list \<Rightarrow> u64 option" where
  "file_size_tag_value tags = combine_file_size (fold file_size_step tags no_size_parts)"

definition int_value_of :: "tag_name \<Rightarrow> tag \<Rightarrow> u64 option" where
  "int_value_of name tag =
     (if t_name tag \<noteq> name then None
      else case t_value tag of
        VUInt value \<Rightarrow> Some value
      | VU64 value \<Rightarrow> Some value
      | VU32 value \<Rightarrow> Some (ucast value)
      | VU16 value \<Rightarrow> Some (ucast value)
      | VU8 value \<Rightarrow> Some (ucast value)
      | _ \<Rightarrow> None)"

fun find_map :: "('a \<Rightarrow> 'b option) \<Rightarrow> 'a list \<Rightarrow> 'b option" where
  "find_map f [] = None"
| "find_map f (x # xs) = (case f x of Some y \<Rightarrow> Some y | None \<Rightarrow> find_map f xs)"

definition int_tag_value :: "tag list \<Rightarrow> tag_name \<Rightarrow> u64 option" where
  "int_tag_value tags name =
     (if name = Short FT_FILESIZE then file_size_tag_value tags else find_map (int_value_of name) tags)"

definition numeric_op_holds :: "numeric_op \<Rightarrow> u64 \<Rightarrow> u64 \<Rightarrow> bool" where
  "numeric_op_holds op actual expected =
     (case op of
        OpEqual \<Rightarrow> actual = expected
      | OpGreater \<Rightarrow> actual > expected
      | OpLess \<Rightarrow> actual < expected
      | OpGreaterEqual \<Rightarrow> actual \<ge> expected
      | OpLessEqual \<Rightarrow> actual \<le> expected
      | OpNotEqual \<Rightarrow> actual \<noteq> expected)"

definition numeric_matches :: "tag list \<Rightarrow> tag_name \<Rightarrow> numeric_op \<Rightarrow> u64 \<Rightarrow> bool" where
  "numeric_matches tags name op expected =
     (case int_tag_value tags name of None \<Rightarrow> False | Some actual \<Rightarrow> numeric_op_holds op actual expected)"

fun matches_with_lower_filename :: "search_term \<Rightarrow> bytes \<Rightarrow> tag list \<Rightarrow> bool" where
  "matches_with_lower_filename (TAnd left right) f tags \<longleftrightarrow>
     matches_with_lower_filename left f tags \<and> matches_with_lower_filename right f tags"
| "matches_with_lower_filename (TOr left right) f tags \<longleftrightarrow>
     matches_with_lower_filename left f tags \<or> matches_with_lower_filename right f tags"
| "matches_with_lower_filename (TNot left right) f tags \<longleftrightarrow>
     matches_with_lower_filename left f tags \<and> \<not> matches_with_lower_filename right f tags"
| "matches_with_lower_filename (TString terms) f tags \<longleftrightarrow> string_terms_match f terms"
| "matches_with_lower_filename (TMetaString name value) f tags \<longleftrightarrow> meta_string_matches f tags name value"
| "matches_with_lower_filename (TNumeric name op value) f tags \<longleftrightarrow> numeric_matches tags name op value"

definition search_term_matches :: "search_term \<Rightarrow> bytes \<Rightarrow> tag list \<Rightarrow> bool" where
  "search_term_matches t filename tags = matches_with_lower_filename t (kad_lowercase filename) tags"

definition matches_restrictive_keyword_payload :: "bytes \<Rightarrow> tag list \<Rightarrow> bytes \<Rightarrow> bool" where
  "matches_restrictive_keyword_payload filename tags payload =
     (case parse_search_term 0 payload of
        Inl _ \<Rightarrow> False
      | Inr (t, _) \<Rightarrow> search_term_matches t filename tags)"

section \<open>Size and depth of an expression\<close>

fun term_nodes :: "search_term \<Rightarrow> nat" where
  "term_nodes (TAnd l r) = Suc (term_nodes l + term_nodes r)"
| "term_nodes (TOr l r) = Suc (term_nodes l + term_nodes r)"
| "term_nodes (TNot l r) = Suc (term_nodes l + term_nodes r)"
| "term_nodes _ = 1"

fun term_depth :: "search_term \<Rightarrow> nat" where
  "term_depth (TAnd l r) = Suc (max (term_depth l) (term_depth r))"
| "term_depth (TOr l r) = Suc (max (term_depth l) (term_depth r))"
| "term_depth (TNot l r) = Suc (max (term_depth l) (term_depth r))"
| "term_depth _ = 1"

lemma rbind_InrE:
  assumes "rbind r f bs = Inr (y, rest)"
  obtains x mid where "r bs = Inr (x, mid)" "f x mid = Inr (y, rest)"
  using assms by (auto simp: rbind_def split: sum.splits)

lemma read_lengths:
  "read_exact n bs = Inr (x, rest) \<Longrightarrow> length bs = n + length rest"
  "se_read_u8 bs = Inr (b, rest) \<Longrightarrow> length bs = Suc (length rest)"
  "se_read_u16 bs = Inr (w, rest) \<Longrightarrow> length bs = 2 + length rest"
  "se_read_u32 bs = Inr (v, rest) \<Longrightarrow> length bs = 4 + length rest"
  "se_read_u64 bs = Inr (q, rest) \<Longrightarrow> length bs = 8 + length rest"
  by (auto simp: read_exact_def se_read_u8_def se_read_u16_def se_read_u32_def se_read_u64_def
      split: if_splits elim!: rbind_InrE)

lemma string_lengths:
  "se_read_tag_name bs = Inr (x, rest) \<Longrightarrow> length rest < length bs"
  "read_lower_string bs = Inr (v, rest) \<Longrightarrow> length rest < length bs"
  by (auto simp: se_read_tag_name_def read_lower_string_def dest!: read_lengths elim!: rbind_InrE)

lemma numeric_length: "parse_numeric_term v bs = Inr (t, rest) \<Longrightarrow> length rest < length bs \<and> term_nodes t = 1 \<and> term_depth t = 1"
  by (auto simp: parse_numeric_term_def dest!: read_lengths string_lengths elim!: rbind_InrE split: option.splits)

text \<open>The branches of a successful parse, one per kind of expression.\<close>

lemma parse_search_term_cases:
  assumes "parse_search_term d bs = Inr (t, rest)"
  obtains (bool) mid where "d < MAX_SEARCH_EXPR_DEPTH" "length bs = Suc (length mid)" "parse_boolean_term (d + 1) mid = Inr (t, rest)"
  | (leaf) "d < MAX_SEARCH_EXPR_DEPTH" "term_nodes t = 1" "term_depth t = 1" "length rest < length bs"
proof -
  obtain op mid where d: "d < MAX_SEARCH_EXPR_DEPTH" and u: "se_read_u8 bs = Inr (op, mid)"
    and b: "(if op = 0x00 then parse_boolean_term (d + 1) mid
      else if op = 0x01 then rbind read_lower_string (\<lambda>value. rret (TString (tokenize_opt_quoted_search_term value))) mid
      else if op = 0x02 then rbind read_lower_string (\<lambda>value. rbind se_read_tag_name (\<lambda>name. rret (TMetaString name value))) mid
      else if op = 0x03 then rbind se_read_u32 (\<lambda>value. parse_numeric_term (ucast value)) mid
      else if op = 0x08 then rbind se_read_u64 (\<lambda>value. parse_numeric_term value) mid
      else Inl ()) = Inr (t, rest)"
    using assms unfolding parse_search_term.simps [of d bs]
    by (cases "MAX_SEARCH_EXPR_DEPTH \<le> d") (auto elim: rbind_InrE)
  show thesis
  proof (cases "op = 0")
    case True
    with b d read_lengths(2) [OF u] bool show ?thesis by simp
  next
    case False
    with b d read_lengths(2) [OF u] leaf show ?thesis
      by (auto split: if_splits elim!: rbind_InrE dest!: read_lengths string_lengths numeric_length)
  qed
qed

lemma parse_boolean_term_cases:
  assumes "parse_boolean_term d bs = Inr (t, rest)"
  obtains mid l mid2 r where "length bs = Suc (length mid)" "parse_search_term d mid = Inr (l, mid2)"
    "parse_search_term d mid2 = Inr (r, rest)" "t = TAnd l r \<or> t = TOr l r \<or> t = TNot l r"
  using assms unfolding parse_boolean_term.simps [of d bs]
  by (elim rbind_InrE) (auto split: if_splits dest!: read_lengths)

lemma parse_bounds:
  "parse_search_term d bs = Inr (t, rest) \<Longrightarrow> term_nodes t + length rest \<le> length bs \<and> d + term_depth t \<le> MAX_SEARCH_EXPR_DEPTH"
proof (induction "MAX_SEARCH_EXPR_DEPTH - d" arbitrary: d bs t rest)
  case 0
  then show ?case by (auto elim: parse_search_term_cases)
next
  case (Suc n)
  from Suc.prems show ?case
  proof (cases rule: parse_search_term_cases)
    case (bool mid)
    have n: "n = MAX_SEARCH_EXPR_DEPTH - (d + 1)" using Suc.hyps(2) by simp
    from bool(3) obtain mid2 l mid3 r where m: "length mid = Suc (length mid2)"
      and p: "parse_search_term (d + 1) mid2 = Inr (l, mid3)" "parse_search_term (d + 1) mid3 = Inr (r, rest)"
      and t: "t = TAnd l r \<or> t = TOr l r \<or> t = TNot l r"
      by (rule parse_boolean_term_cases)
    from Suc.hyps(1) [OF n p(1)] Suc.hyps(1) [OF n p(2)] bool(2) m t show ?thesis by auto
  qed (auto simp: Suc.hyps)
qed

end
