(* ===== verification/Restrictive_Search.thy ===== *)
theory Restrictive_Search
  imports Search_Expr
begin

text \<open>
  \<^verbatim>\<open>emulebb-index/src/kad_store/restrictive_search.rs\<close>: the parser and the matcher of restrictive searches
  that count their work and stop at a limit. The parser's state is the number of nodes parsed and the unread
  bytes; a matcher takes the budget and returns it with its result. The tokenizer, the substring test and the
  numeric comparison are textually those of \<^verbatim>\<open>search_expr.rs\<close> and are taken from there.
\<close>

section \<open>Limits and work\<close>

datatype stop_reason = InvalidPayload | ParsedAstNodes | ComparedTagValues | CandidateEntries | ResultsEmitted

record search_limits =
  lim_parsed_ast_nodes :: nat
  lim_compared_tag_values :: nat
  lim_candidate_entries :: nat
  lim_results_emitted :: nat

definition DEFAULT_RESTRICTIVE_SEARCH_LIMITS :: search_limits where
  "DEFAULT_RESTRICTIVE_SEARCH_LIMITS =
     \<lparr> lim_parsed_ast_nodes = 64, lim_compared_tag_values = 32768, lim_candidate_entries = 4096,
       lim_results_emitted = 300 \<rparr>"

record search_work =
  parsed_ast_nodes :: nat
  compared_tag_values :: nat
  candidate_entries :: nat
  results_emitted :: nat

record search_budget =
  budget_limits :: search_limits
  budget_work :: search_work

definition budget_new :: "search_limits \<Rightarrow> nat \<Rightarrow> search_budget" where
  "budget_new limits nodes =
     \<lparr> budget_limits = limits,
       budget_work = \<lparr> parsed_ast_nodes = nodes, compared_tag_values = 0, candidate_entries = 0, results_emitted = 0 \<rparr> \<rparr>"

definition examine_candidate :: "search_budget \<Rightarrow> (stop_reason + unit) \<times> search_budget" where
  "examine_candidate b =
     (if candidate_entries (budget_work b) \<ge> lim_candidate_entries (budget_limits b) then (Inl CandidateEntries, b)
      else (Inr (), b\<lparr> budget_work := (budget_work b)\<lparr> candidate_entries := candidate_entries (budget_work b) + 1 \<rparr> \<rparr>))"

definition emit_result :: "search_budget \<Rightarrow> (stop_reason + unit) \<times> search_budget" where
  "emit_result b =
     (if results_emitted (budget_work b) \<ge> lim_results_emitted (budget_limits b) then (Inl ResultsEmitted, b)
      else (Inr (), b\<lparr> budget_work := (budget_work b)\<lparr> results_emitted := results_emitted (budget_work b) + 1 \<rparr> \<rparr>))"

definition result_limit :: "search_budget \<Rightarrow> nat \<Rightarrow> nat" where
  "result_limit b requested =
     (if requested < lim_results_emitted (budget_limits b) then requested else lim_results_emitted (budget_limits b))"

definition compare_tag_value :: "search_budget \<Rightarrow> (stop_reason + unit) \<times> search_budget" where
  "compare_tag_value b =
     (if compared_tag_values (budget_work b) \<ge> lim_compared_tag_values (budget_limits b) then (Inl ComparedTagValues, b)
      else (Inr (), b\<lparr> budget_work := (budget_work b)\<lparr> compared_tag_values := compared_tag_values (budget_work b) + 1 \<rparr> \<rparr>))"

section \<open>Parsing\<close>

type_synonym 'a counted_reader = "nat \<Rightarrow> bytes \<Rightarrow> stop_reason + 'a \<times> nat \<times> bytes"

definition cbind :: "'a counted_reader \<Rightarrow> ('a \<Rightarrow> 'b counted_reader) \<Rightarrow> 'b counted_reader" where
  "cbind r f n bs = (case r n bs of Inl e \<Rightarrow> Inl e | Inr (x, n', rest) \<Rightarrow> f x n' rest)"

definition cret :: "'a \<Rightarrow> 'a counted_reader" where
  "cret x n bs = Inr (x, n, bs)"

definition cfail :: "stop_reason \<Rightarrow> 'a counted_reader" where
  "cfail e n bs = Inl e"

definition rs_read_exact :: "nat \<Rightarrow> bytes counted_reader" where
  "rs_read_exact len n bs = (if len \<le> length bs then Inr (take len bs, n, drop len bs) else Inl InvalidPayload)"

definition rs_read_u8 :: "u8 counted_reader" where
  "rs_read_u8 = cbind (rs_read_exact 1) (\<lambda>bs. cret (bs ! 0))"

definition rs_read_u16 :: "u16 counted_reader" where
  "rs_read_u16 = cbind (rs_read_exact 2) (\<lambda>bs. cret (from_le bs))"

definition rs_read_u32 :: "u32 counted_reader" where
  "rs_read_u32 = cbind (rs_read_exact 4) (\<lambda>bs. cret (from_le bs))"

definition rs_read_u64 :: "u64 counted_reader" where
  "rs_read_u64 = cbind (rs_read_exact 8) (\<lambda>bs. cret (from_le bs))"

definition rs_read_tag_name :: "tag_name counted_reader" where
  "rs_read_tag_name =
     cbind rs_read_u16 (\<lambda>len. cbind (rs_read_exact (unat len)) (\<lambda>bs.
       cret (case bs of [name] \<Rightarrow> Short name | _ \<Rightarrow> Long (from_utf8_lossy bs))))"

definition rs_read_lower_string :: "bytes counted_reader" where
  "rs_read_lower_string =
     cbind rs_read_u16 (\<lambda>len. cbind (rs_read_exact (unat len)) (\<lambda>bs. cret (kad_lowercase (from_utf8_lossy bs))))"

definition rs_parse_numeric_term :: "u64 \<Rightarrow> search_term counted_reader" where
  "rs_parse_numeric_term value =
     cbind rs_read_u8 (\<lambda>b.
       case numeric_op_of b of
         None \<Rightarrow> cfail InvalidPayload
       | Some op \<Rightarrow> cbind rs_read_tag_name (\<lambda>name. cret (TNumeric name op value)))"

function rs_parse_search_term :: "nat \<Rightarrow> nat \<Rightarrow> search_term counted_reader"
  and rs_parse_boolean_term :: "nat \<Rightarrow> nat \<Rightarrow> search_term counted_reader" where
  "rs_parse_search_term limit depth n bs =
     (if depth \<ge> MAX_SEARCH_EXPR_DEPTH then Inl InvalidPayload
      else if n \<ge> limit then Inl ParsedAstNodes
      else cbind rs_read_u8 (\<lambda>op n bs.
        if op = 0x00 then rs_parse_boolean_term limit (depth + 1) n bs
        else if op = 0x01 then
          cbind rs_read_lower_string (\<lambda>value. cret (TString (tokenize_opt_quoted_search_term value))) n bs
        else if op = 0x02 then
          cbind rs_read_lower_string (\<lambda>value. cbind rs_read_tag_name (\<lambda>name. cret (TMetaString name value))) n bs
        else if op = 0x03 then cbind rs_read_u32 (\<lambda>value. rs_parse_numeric_term (ucast value)) n bs
        else if op = 0x08 then cbind rs_read_u64 (\<lambda>value. rs_parse_numeric_term value) n bs
        else Inl InvalidPayload) (n + 1) bs)"
| "rs_parse_boolean_term limit depth n bs =
     cbind rs_read_u8 (\<lambda>bool_op.
     cbind (\<lambda>n bs. rs_parse_search_term limit depth n bs) (\<lambda>left.
     cbind (\<lambda>n bs. rs_parse_search_term limit depth n bs) (\<lambda>right.
       if bool_op = 0x00 then cret (TAnd left right)
       else if bool_op = 0x01 then cret (TOr left right)
       else if bool_op = 0x02 then cret (TNot left right)
       else cfail InvalidPayload))) n bs"
  by pat_completeness auto
termination
  by (relation "measure (\<lambda>x. case x of Inl (_, d, _) \<Rightarrow> 2 * (24 - d) | Inr (_, d, _) \<Rightarrow> 2 * (24 - d) + 1)")
    (auto simp: MAX_SEARCH_EXPR_DEPTH_def)

declare rs_parse_search_term.simps [simp del] rs_parse_boolean_term.simps [simp del]

record restrictive_search =
  rs_term :: search_term
  rs_parsed_ast_nodes :: nat

definition restrictive_parse :: "bytes \<Rightarrow> search_limits \<Rightarrow> stop_reason + restrictive_search" where
  "restrictive_parse payload limits =
     (case rs_parse_search_term (lim_parsed_ast_nodes limits) 0 0 payload of
        Inl e \<Rightarrow> Inl e
      | Inr (t, n, _) \<Rightarrow> Inr \<lparr> rs_term = t, rs_parsed_ast_nodes = n \<rparr>)"

section \<open>Matching\<close>

text \<open>A step that needs the budget: the result with the budget that is left.\<close>

type_synonym 'a budgeted = "search_budget \<Rightarrow> (stop_reason + 'a) \<times> search_budget"

definition bbind :: "'a budgeted \<Rightarrow> ('a \<Rightarrow> 'b budgeted) \<Rightarrow> 'b budgeted" where
  "bbind m f b = (case m b of (Inl e, b') \<Rightarrow> (Inl e, b') | (Inr x, b') \<Rightarrow> f x b')"

definition bret :: "'a \<Rightarrow> 'a budgeted" where
  "bret x b = (Inr x, b)"

fun rs_any_string_tag :: "tag_name \<Rightarrow> bytes \<Rightarrow> tag list \<Rightarrow> bool budgeted" where
  "rs_any_string_tag name value [] = bret False"
| "rs_any_string_tag name value (tag # tags) =
     bbind compare_tag_value (\<lambda>_.
       if string_tag_matches name value tag then bret True else rs_any_string_tag name value tags)"

definition rs_meta_string_matches :: "bytes \<Rightarrow> tag list \<Rightarrow> tag_name \<Rightarrow> bytes \<Rightarrow> bool budgeted" where
  "rs_meta_string_matches filename_lower tags name value =
     (if name = Short FT_FILEFORMAT then bret (file_format_matches filename_lower value)
      else rs_any_string_tag name value tags)"

fun rs_file_size_parts :: "tag list \<Rightarrow> file_size_parts \<Rightarrow> file_size_parts budgeted" where
  "rs_file_size_parts [] p = bret p"
| "rs_file_size_parts (tag # tags) p = bbind compare_tag_value (\<lambda>_. rs_file_size_parts tags (file_size_step tag p))"

definition rs_file_size_tag_value :: "tag list \<Rightarrow> u64 option budgeted" where
  "rs_file_size_tag_value tags = bbind (rs_file_size_parts tags no_size_parts) (\<lambda>p. bret (combine_file_size p))"

fun rs_first_int_value :: "tag_name \<Rightarrow> tag list \<Rightarrow> u64 option budgeted" where
  "rs_first_int_value name [] = bret None"
| "rs_first_int_value name (tag # tags) =
     bbind compare_tag_value (\<lambda>_.
       case int_value_of name tag of Some v \<Rightarrow> bret (Some v) | None \<Rightarrow> rs_first_int_value name tags)"

definition rs_int_tag_value :: "tag list \<Rightarrow> tag_name \<Rightarrow> u64 option budgeted" where
  "rs_int_tag_value tags name =
     (if name = Short FT_FILESIZE then rs_file_size_tag_value tags else rs_first_int_value name tags)"

definition rs_numeric_matches :: "tag list \<Rightarrow> tag_name \<Rightarrow> numeric_op \<Rightarrow> u64 \<Rightarrow> bool budgeted" where
  "rs_numeric_matches tags name op expected =
     bbind (rs_int_tag_value tags name) (\<lambda>v.
       case v of None \<Rightarrow> bret False | Some actual \<Rightarrow> bret (numeric_op_holds op actual expected))"

fun rs_matches_lower :: "search_term \<Rightarrow> bytes \<Rightarrow> tag list \<Rightarrow> bool budgeted" where
  "rs_matches_lower (TAnd left right) f tags =
     bbind (rs_matches_lower left f tags) (\<lambda>m. if \<not> m then bret False else rs_matches_lower right f tags)"
| "rs_matches_lower (TOr left right) f tags =
     bbind (rs_matches_lower left f tags) (\<lambda>m. if m then bret True else rs_matches_lower right f tags)"
| "rs_matches_lower (TNot left right) f tags =
     bbind (rs_matches_lower left f tags) (\<lambda>m.
       if \<not> m then bret False else bbind (rs_matches_lower right f tags) (\<lambda>m. bret (\<not> m)))"
| "rs_matches_lower (TString terms) f tags = bret (string_terms_match f terms)"
| "rs_matches_lower (TMetaString name value) f tags = rs_meta_string_matches f tags name value"
| "rs_matches_lower (TNumeric name op value) f tags = rs_numeric_matches tags name op value"

definition restrictive_matches :: "restrictive_search \<Rightarrow> bytes \<Rightarrow> tag list \<Rightarrow> bool budgeted" where
  "restrictive_matches search filename tags = rs_matches_lower (rs_term search) (kad_lowercase filename) tags"

section \<open>The counting parser follows the plain one\<close>

definition follows :: "'a counted_reader \<Rightarrow> (bytes \<Rightarrow> unit + 'a \<times> bytes) \<Rightarrow> bool" where
  "follows R r \<longleftrightarrow>
     (\<forall>n bs. R n bs = (case r bs of Inl _ \<Rightarrow> Inl InvalidPayload | Inr (x, rest) \<Rightarrow> Inr (x, n, rest)))"

lemma follows_bind: "follows R r \<Longrightarrow> (\<And>x. follows (F x) (f x)) \<Longrightarrow> follows (cbind R F) (rbind r f)"
  by (auto simp: follows_def cbind_def rbind_def split: sum.split)

lemma follows_base:
  "follows (cret x) (rret x)" "follows (cfail InvalidPayload) (\<lambda>_. Inl ())" "follows (rs_read_exact k) (read_exact k)"
  by (simp_all add: follows_def cret_def cfail_def rs_read_exact_def read_exact_def)

lemma follows_readers:
  "follows rs_read_u8 se_read_u8" "follows rs_read_u16 se_read_u16" "follows rs_read_u32 se_read_u32"
  "follows rs_read_u64 se_read_u64"
  unfolding rs_read_u8_def se_read_u8_def rs_read_u16_def se_read_u16_def rs_read_u32_def se_read_u32_def
    rs_read_u64_def se_read_u64_def
  by (intro follows_bind follows_base)+

lemma follows_strings:
  "follows rs_read_tag_name se_read_tag_name" "follows rs_read_lower_string read_lower_string"
  unfolding rs_read_tag_name_def se_read_tag_name_def rs_read_lower_string_def read_lower_string_def
  by (intro follows_bind follows_base follows_readers)+

lemma follows_numeric: "follows (rs_parse_numeric_term v) (parse_numeric_term v)"
  unfolding rs_parse_numeric_term_def parse_numeric_term_def
  by (intro follows_bind follows_readers) (auto split: option.split intro: follows_bind follows_base follows_strings)

text \<open>What the counting parser may answer, given the plain parser's answer.\<close>

fun parse_agrees :: "nat \<Rightarrow> nat \<Rightarrow> stop_reason + search_term \<times> nat \<times> bytes \<Rightarrow> unit + search_term \<times> bytes \<Rightarrow> bool" where
  "parse_agrees limit n (Inr (t, n', rest)) plain \<longleftrightarrow> plain = Inr (t, rest) \<and> n' = n + term_nodes t \<and> n' \<le> limit"
| "parse_agrees limit n (Inl e) plain \<longleftrightarrow>
     e = InvalidPayload \<and> plain = Inl ()
     \<or> e = ParsedAstNodes \<and> (case plain of Inl _ \<Rightarrow> True | Inr (t, _) \<Rightarrow> limit < n + term_nodes t)"

lemma leaf_agrees:
  assumes "follows R r" "n < limit" "\<And>t mid. r bs = Inr (t, mid) \<Longrightarrow> term_nodes t = 1"
  shows "parse_agrees limit n (R (n + 1) bs) (r bs)"
  using assms by (auto simp: follows_def split: sum.split)

lemma boolean_agrees:
  assumes "\<And>n bs. parse_agrees limit n (rs_parse_search_term limit d n bs) (parse_search_term d bs)" "n < limit"
  shows "parse_agrees limit n (rs_parse_boolean_term limit d (n + 1) bs) (parse_boolean_term d bs)"
proof (cases "se_read_u8 bs")
  case (Inl e)
  then show ?thesis
    using follows_readers(1) by (simp add: rs_parse_boolean_term.simps parse_boolean_term.simps cbind_def rbind_def follows_def)
next
  case (Inr p)
  obtain b mid where p: "p = (b, mid)" by force
  with Inr have u: "se_read_u8 bs = Inr (b, mid)" "rs_read_u8 (Suc n) bs = Inr (b, Suc n, mid)"
    using follows_readers(1) by (simp_all add: follows_def)
  note eqs = rs_parse_boolean_term.simps parse_boolean_term.simps cbind_def rbind_def u cret_def cfail_def
  note first = assms(1) [of "n + 1" mid]
  show ?thesis
  proof (cases "rs_parse_search_term limit d (n + 1) mid")
    case (Inl e)
    with first show ?thesis by (auto simp: eqs split: sum.splits)
  next
    case (Inr q)
    obtain l n1 m1 where q: "q = (l, n1, m1)" by (cases q)
    note second = assms(1) [of n1 m1]
    from first Inr q have l: "parse_search_term d mid = Inr (l, m1)" "n1 = n + 1 + term_nodes l" "n1 \<le> limit" by simp_all
    show ?thesis
    proof (cases "rs_parse_search_term limit d n1 m1")
      case (Inl e)
      with second Inr q l show ?thesis by (auto simp: eqs split: sum.splits)
    next
      case right: (Inr q')
      obtain r n2 m2 where "q' = (r, n2, m2)" by (cases q')
      with second right Inr q l show ?thesis by (auto simp: eqs)
    qed
  qed
qed

lemma parse_search_term_agrees:
  "parse_agrees limit n (rs_parse_search_term limit d n bs) (parse_search_term d bs)"
proof (induction "MAX_SEARCH_EXPR_DEPTH - d" arbitrary: d n bs)
  case 0
  then show ?case by (simp add: rs_parse_search_term.simps parse_search_term.simps)
next
  case (Suc k)
  then have d: "\<not> MAX_SEARCH_EXPR_DEPTH \<le> d" and k: "k = MAX_SEARCH_EXPR_DEPTH - (d + 1)" by simp_all
  have pos: "0 < term_nodes t" for t by (induction t) simp_all
  show ?case
  proof (cases "n < limit")
    case False
    then have "limit < n + term_nodes t" for t using pos [of t] by simp
    with d False show ?thesis by (auto simp: rs_parse_search_term.simps [of limit d n bs] split: sum.split)
  next
    case True
    note bool = boolean_agrees [OF Suc.hyps(1) [OF k] True]
    show ?thesis
    proof (cases "se_read_u8 bs")
      case (Inl e)
      with d True show ?thesis
        using follows_readers(1)
        by (simp add: rs_parse_search_term.simps [of limit d n bs] parse_search_term.simps [of d bs] cbind_def rbind_def follows_def)
    next
      case (Inr p)
      obtain op mid where "p = (op, mid)" by force
      with Inr have u: "se_read_u8 bs = Inr (op, mid)" "rs_read_u8 (Suc n) bs = Inr (op, Suc n, mid)"
        using follows_readers(1) by (simp_all add: follows_def)
      have leaf: "parse_agrees limit n (R (n + 1) mid) (r mid)"
        if "follows R r" "\<And>t rest. r mid = Inr (t, rest) \<Longrightarrow> term_nodes t = 1" for R r
        using leaf_agrees [OF that(1) True] that(2) by blast
      have leaves:
        "parse_agrees limit n (cbind rs_read_lower_string (\<lambda>value. cret (TString (tokenize_opt_quoted_search_term value))) (n + 1) mid)
           (rbind read_lower_string (\<lambda>value. rret (TString (tokenize_opt_quoted_search_term value))) mid)"
        "parse_agrees limit n (cbind rs_read_lower_string (\<lambda>value. cbind rs_read_tag_name (\<lambda>name. cret (TMetaString name value))) (n + 1) mid)
           (rbind read_lower_string (\<lambda>value. rbind se_read_tag_name (\<lambda>name. rret (TMetaString name value))) mid)"
        "parse_agrees limit n (cbind rs_read_u32 (\<lambda>value. rs_parse_numeric_term (ucast value)) (n + 1) mid)
           (rbind se_read_u32 (\<lambda>value. parse_numeric_term (ucast value)) mid)"
        "parse_agrees limit n (cbind rs_read_u64 (\<lambda>value. rs_parse_numeric_term value) (n + 1) mid)
           (rbind se_read_u64 (\<lambda>value. parse_numeric_term value) mid)"
        by (rule leaf; (intro follows_bind follows_base follows_readers follows_strings follows_numeric)?;
            auto elim!: rbind_InrE dest!: numeric_length)+
      with bool [of mid] d True u show ?thesis
        by (auto simp: rs_parse_search_term.simps [of limit d n bs] parse_search_term.simps [of d bs] cbind_def [of rs_read_u8] rbind_def [of se_read_u8])
    qed
  qed
qed

section \<open>The budgeted matcher computes the plain one\<close>

abbreviation "compared b \<equiv> compared_tag_values (budget_work b)"
abbreviation "compare_limit b \<equiv> lim_compared_tag_values (budget_limits b)"

definition spend :: "nat \<Rightarrow> search_budget \<Rightarrow> search_budget" where
  "spend k b = b\<lparr> budget_work := (budget_work b)\<lparr> compared_tag_values := compared b + k \<rparr> \<rparr>"

lemma spend_simps [simp]:
  "compared (spend k b) = compared b + k" "budget_limits (spend k b) = budget_limits b" "spend 0 b = b"
  "spend j (spend k b) = spend (k + j) b" "candidate_entries (budget_work (spend k b)) = candidate_entries (budget_work b)"
  "results_emitted (budget_work (spend k b)) = results_emitted (budget_work b)"
  by (simp_all add: spend_def add.assoc)

text \<open>A budgeted step that yields \<open>v\<close> with at most \<open>cost\<close> comparisons, and that stops early only when the
  limit leaves fewer of them.\<close>

definition computes :: "'a budgeted \<Rightarrow> 'a \<Rightarrow> nat \<Rightarrow> bool" where
  "computes m v cost \<longleftrightarrow>
     (\<forall>b. \<exists>k \<le> cost. snd (m b) = spend k b \<and> (compared b \<le> compare_limit b \<longrightarrow> compared b + k \<le> compare_limit b)
       \<and> (fst (m b) = Inr v \<or> fst (m b) = Inl ComparedTagValues \<and> compare_limit b < compared b + cost))"

lemma computesE:
  assumes "computes m v cost"
  obtains k where "k \<le> cost" "m b = (Inr v, spend k b)" "compared b \<le> compare_limit b \<Longrightarrow> compared b + k \<le> compare_limit b"
  | k where "k \<le> cost" "m b = (Inl ComparedTagValues, spend k b)" "compare_limit b < compared b + cost"
      "compared b \<le> compare_limit b \<Longrightarrow> compared b + k \<le> compare_limit b"
  using assms unfolding computes_def by (metis prod.collapse)

lemma computes_mono: "computes m v c \<Longrightarrow> c \<le> d \<Longrightarrow> computes m v d"
  unfolding computes_def by (meson add_le_cancel_left le_trans order_less_le_trans)

lemma computes_ret [intro]: "computes (bret v) v c"
  by (auto simp: computes_def bret_def intro: exI [of _ 0])

lemma computes_bind:
  assumes "computes m v c" "computes (f v) w d"
  shows "computes (bbind m f) w (c + d)"
  unfolding computes_def
proof
  fix b
  from assms(1) show "\<exists>k \<le> c + d. snd (bbind m f b) = spend k b
    \<and> (compared b \<le> compare_limit b \<longrightarrow> compared b + k \<le> compare_limit b)
    \<and> (fst (bbind m f b) = Inr w \<or> fst (bbind m f b) = Inl ComparedTagValues \<and> compare_limit b < compared b + (c + d))"
  proof (cases rule: computesE [of m v c b])
    case (1 k)
    from assms(2) show ?thesis
    proof (cases rule: computesE [of "f v" w d "spend k b"])
      case (1 j)
      with \<open>m b = (Inr v, spend k b)\<close> \<open>k \<le> c\<close> \<open>compared b \<le> compare_limit b \<Longrightarrow> compared b + k \<le> compare_limit b\<close>
      show ?thesis by (intro exI [of _ "k + j"]) (simp add: bbind_def add.assoc)
    next
      case (2 j)
      with \<open>m b = (Inr v, spend k b)\<close> \<open>k \<le> c\<close> \<open>compared b \<le> compare_limit b \<Longrightarrow> compared b + k \<le> compare_limit b\<close>
      show ?thesis by (intro exI [of _ "k + j"]) (simp add: bbind_def add.assoc)
    qed
  next
    case (2 k)
    then show ?thesis by (intro exI [of _ k]) (simp add: bbind_def)
  qed
qed

lemma computes_compare: "computes compare_tag_value () 1"
  unfolding computes_def
proof
  fix b
  show "\<exists>k \<le> 1. snd (compare_tag_value b) = spend k b
    \<and> (compared b \<le> compare_limit b \<longrightarrow> compared b + k \<le> compare_limit b)
    \<and> (fst (compare_tag_value b) = Inr () \<or> fst (compare_tag_value b) = Inl ComparedTagValues \<and> compare_limit b < compared b + 1)"
  proof (cases "compare_limit b \<le> compared b")
    case True
    then show ?thesis by (intro exI [of _ 0]) (simp add: compare_tag_value_def)
  next
    case False
    then show ?thesis by (intro exI [of _ 1]) (simp add: compare_tag_value_def spend_def)
  qed
qed

lemma computes_step: "computes m v c \<Longrightarrow> computes (bbind compare_tag_value (\<lambda>_. m)) v (Suc c)"
  using computes_bind [OF computes_compare, of "\<lambda>_. m" v c] by simp

lemma computes_any_string_tag: "computes (rs_any_string_tag name value tags) (list_ex (string_tag_matches name value) tags) (length tags)"
  by (induction tags) (auto intro!: computes_step)

lemma computes_file_size_parts: "computes (rs_file_size_parts tags p) (fold file_size_step tags p) (length tags)"
  by (induction tags arbitrary: p) (auto intro!: computes_step)

lemma computes_first_int_value: "computes (rs_first_int_value name tags) (find_map (int_value_of name) tags) (length tags)"
  by (induction tags) (auto intro!: computes_step split: option.split)

lemma computes_int_tag_value: "computes (rs_int_tag_value tags name) (int_tag_value tags name) (length tags)"
proof -
  have "computes (rs_file_size_tag_value tags) (file_size_tag_value tags) (length tags + 0)"
    unfolding rs_file_size_tag_value_def file_size_tag_value_def
    by (rule computes_bind [OF computes_file_size_parts computes_ret])
  then show ?thesis by (simp add: rs_int_tag_value_def int_tag_value_def computes_first_int_value)
qed

lemma computes_numeric: "computes (rs_numeric_matches tags name op v) (numeric_matches tags name op v) (length tags)"
proof -
  have "computes (rs_numeric_matches tags name op v) (numeric_matches tags name op v) (length tags + 0)"
    unfolding rs_numeric_matches_def
    by (rule computes_bind [OF computes_int_tag_value]) (auto simp: numeric_matches_def split: option.split)
  then show ?thesis by simp
qed

lemma computes_meta: "computes (rs_meta_string_matches f tags name v) (meta_string_matches f tags name v) (length tags)"
  by (auto simp: rs_meta_string_matches_def meta_string_matches_def computes_any_string_tag)

lemma computes_matches: "computes (rs_matches_lower t f tags) (matches_with_lower_filename t f tags) (term_nodes t * length tags)"
proof (induction t)
  case (TNot l r)
  have "computes (bbind (rs_matches_lower r f tags) (\<lambda>m. bret (\<not> m))) (\<not> matches_with_lower_filename r f tags)
    (term_nodes r * length tags + 0)"
    by (rule computes_bind [OF TNot(2) computes_ret])
  then have "computes (rs_matches_lower (TNot l r) f tags) (matches_with_lower_filename (TNot l r) f tags)
    (term_nodes l * length tags + term_nodes r * length tags)"
    unfolding rs_matches_lower.simps by (intro computes_bind [OF TNot(1)]) auto
  then show ?case by (rule computes_mono) (simp add: algebra_simps)
next
  case (TAnd l r)
  then have "computes (rs_matches_lower (TAnd l r) f tags) (matches_with_lower_filename (TAnd l r) f tags)
    (term_nodes l * length tags + term_nodes r * length tags)"
    unfolding rs_matches_lower.simps by (intro computes_bind [OF TAnd(1)]) auto
  then show ?case by (rule computes_mono) (simp add: algebra_simps)
next
  case (TOr l r)
  then have "computes (rs_matches_lower (TOr l r) f tags) (matches_with_lower_filename (TOr l r) f tags)
    (term_nodes l * length tags + term_nodes r * length tags)"
    unfolding rs_matches_lower.simps by (intro computes_bind [OF TOr(1)]) auto
  then show ?case by (rule computes_mono) (simp add: algebra_simps)
qed (auto simp: computes_meta computes_numeric)

lemma restrictive_parse_Inr:
  assumes "restrictive_parse payload limits = Inr search"
  shows "\<exists>rest. parse_search_term 0 payload = Inr (rs_term search, rest)"
    and "rs_parsed_ast_nodes search = term_nodes (rs_term search)" "rs_parsed_ast_nodes search \<le> lim_parsed_ast_nodes limits"
  using assms parse_search_term_agrees [of "lim_parsed_ast_nodes limits" 0 0 payload]
  by (auto simp: restrictive_parse_def split: sum.splits)

lemma restrictive_matches_computes:
  assumes "restrictive_parse payload limits = Inr search"
  shows "computes (restrictive_matches search filename tags) (matches_restrictive_keyword_payload filename tags payload)
    (rs_parsed_ast_nodes search * length tags)"
  using restrictive_parse_Inr [OF assms] computes_matches [of "rs_term search" "kad_lowercase filename" tags]
  by (auto simp: restrictive_matches_def matches_restrictive_keyword_payload_def search_term_matches_def)

section \<open>Properties\<close>

text \<open>C37: The budgeted search of the index agrees with the reference matcher of the protocol crate. A payload
  that the budgeted parser takes has no more nodes than the limit or than bytes, and matching it gives
  the reference answer unless the comparison limit leaves less than one comparison per node and tag. A payload
  that is refused as invalid matches nothing; one that is refused for its size has, if it is valid at all, more
  nodes than the limit.\<close>

theorem restrictive_search_agrees:
  "case restrictive_parse payload limits of
     Inl e \<Rightarrow> e = InvalidPayload \<and> \<not> matches_restrictive_keyword_payload filename tags payload
         \<or> e = ParsedAstNodes \<and> (\<forall>t rest. parse_search_term 0 payload = Inr (t, rest) \<longrightarrow> lim_parsed_ast_nodes limits < term_nodes t)
   | Inr search \<Rightarrow> rs_parsed_ast_nodes search \<le> min (lim_parsed_ast_nodes limits) (length payload)
       \<and> (case fst (restrictive_matches search filename tags b) of
            Inr m \<Rightarrow> m = matches_restrictive_keyword_payload filename tags payload
          | Inl e \<Rightarrow> e = ComparedTagValues \<and> compare_limit b < compared b + rs_parsed_ast_nodes search * length tags)"
proof (cases "restrictive_parse payload limits")
  case (Inl e)
  with parse_search_term_agrees [of "lim_parsed_ast_nodes limits" 0 0 payload] show ?thesis
    by (auto simp: restrictive_parse_def matches_restrictive_keyword_payload_def split: sum.splits)
next
  case (Inr search)
  note p = restrictive_parse_Inr [OF Inr]
  from p(1) obtain rest where "parse_search_term 0 payload = Inr (rs_term search, rest)" ..
  from parse_bounds [OF this] p(2,3) have "rs_parsed_ast_nodes search \<le> min (lim_parsed_ast_nodes limits) (length payload)" by simp
  with Inr restrictive_matches_computes [OF Inr, of filename tags] show ?thesis
    by (auto simp: computes_def split: sum.split) (metis Inl_Inr_False sum.inject)+
qed

definition example_payload :: bytes where
  "example_payload =
     [0x00, 0x00, 0x01, 0x02, 0x00, 0x4B, 0x61, 0x03, 0x05, 0x00, 0x00, 0x00, 0x01, 0x01, 0x00, 0x02]"

definition example_tags :: "tag list" where
  "example_tags = [tag_filename [0x6B, 0x61, 0x64], tag_filesize 9]"

text \<open>The expression \<^verbatim>\<open>"Ka" AND size > 5\<close> against a file \<^verbatim>\<open>kad\<close> of nine bytes, and refused under a limit of two nodes.\<close>

definition example_limits :: "nat \<Rightarrow> search_limits" where
  "example_limits nodes =
     \<lparr> lim_parsed_ast_nodes = nodes, lim_compared_tag_values = 6, lim_candidate_entries = 2, lim_results_emitted = 2 \<rparr>"

theorem restrictive_search_agrees_witness:
  "restrictive_parse example_payload (example_limits 2) = Inl ParsedAstNodes
   \<and> (case parse_search_term 0 example_payload of Inr (t, rest) \<Rightarrow> 2 < term_nodes t | Inl _ \<Rightarrow> False)
   \<and> (case restrictive_parse example_payload (example_limits 3) of
        Inl _ \<Rightarrow> False
      | Inr search \<Rightarrow> fst (restrictive_matches search [0x4B, 0x61, 0x64] example_tags (budget_new (example_limits 3) 3)) = Inr True
          \<and> matches_restrictive_keyword_payload [0x4B, 0x61, 0x64] example_tags example_payload)"
proof -
  have small: "restrictive_parse example_payload (example_limits 2) = Inl ParsedAstNodes" by code_simp
  have plain: "case parse_search_term 0 example_payload of Inr (t, rest) \<Rightarrow> True | Inl _ \<Rightarrow> False" by code_simp
  have "case restrictive_parse example_payload (example_limits 3) of
        Inl _ \<Rightarrow> False
      | Inr search \<Rightarrow> fst (restrictive_matches search [0x4B, 0x61, 0x64] example_tags (budget_new (example_limits 3) 3)) = Inr True"
    by code_simp
  with small plain restrictive_search_agrees [where payload = example_payload and limits = "example_limits 2"]
    restrictive_search_agrees [where payload = example_payload and limits = "example_limits 3"
      and filename = "[0x4B, 0x61, 0x64]" and tags = example_tags and b = "budget_new (example_limits 3) 3"]
  show ?thesis by (auto simp: example_limits_def split: sum.splits)
qed

end
