(* ===== verification/Index_Entries.thy ===== *)
theory Index_Entries
  imports Restrictive_Search Kad_Packet
begin

text \<open>
  The parts that the three publish stores share: \<^verbatim>\<open>emulebb-index/src/kad_store/entry_store.rs\<close> (expiry, insertion
  with deduplication, eviction) and \<^verbatim>\<open>size_tags.rs\<close> (file names and sizes in tags). A \<^verbatim>\<open>DateTime\<close> is a number of
  nanoseconds; the traits of an entry are the functions given as arguments.
\<close>

section \<open>Entry store\<close>

datatype admission_disposition = Inserted | Refreshed | Recycled | RejectedGlobalCapacity

definition disposition_publish_load :: "admission_disposition \<Rightarrow> u8 \<Rightarrow> u8" where
  "disposition_publish_load d accepted_load =
     (case d of RejectedGlobalCapacity \<Rightarrow> 100 | Inserted \<Rightarrow> accepted_load | Refreshed \<Rightarrow> accepted_load
      | Recycled \<Rightarrow> accepted_load)"

definition purge_expired :: "('e \<Rightarrow> system_time) \<Rightarrow> 'e list \<Rightarrow> duration \<Rightarrow> system_time \<Rightarrow> 'e list" where
  "purge_expired observed es ttl now = filter (\<lambda>e. observed e + int ttl > now) es"

text \<open>\<^verbatim>\<open>enumerate().min_by_key\<close>: the first index with the least key.\<close>

fun min_index :: "('e \<Rightarrow> 'k::linorder) \<Rightarrow> 'e list \<Rightarrow> nat option" where
  "min_index f [] = None"
| "min_index f (x # xs) =
     (case min_index f xs of
        None \<Rightarrow> Some 0
      | Some j \<Rightarrow> if f (xs ! j) < f x then Some (Suc j) else Some 0)"

definition upsert_entry ::
  "('e \<Rightarrow> system_time) \<Rightarrow> ('e \<Rightarrow> bytes) \<Rightarrow> 'e list \<Rightarrow> nat \<Rightarrow> bytes \<Rightarrow> 'e \<Rightarrow> 'e list" where
  "upsert_entry observed dedup_key es capacity key entry =
     (case position (\<lambda>candidate. dedup_key candidate = key) es of
        Some i \<Rightarrow> es[i := entry]
      | None \<Rightarrow>
          (case (if length es \<ge> capacity then min_index observed es else None) of
             Some oldest_index \<Rightarrow> remove_at oldest_index es
           | None \<Rightarrow> es) @ [entry])"

definition oldest_target_entry_index :: "('e \<Rightarrow> node_id) \<Rightarrow> 'e list \<Rightarrow> node_id \<Rightarrow> nat option" where
  "oldest_target_entry_index target_of es target = position (\<lambda>candidate. target_of candidate = target) es"

section \<open>Names and sizes in tags\<close>

definition FT_PUBLISHINFO :: u8 where "FT_PUBLISHINFO = 0x33"
definition FT_KADAICHHASHRESULT :: u8 where "FT_KADAICHHASHRESULT = 0x37"

definition is_integer_tag_value :: "tag_value \<Rightarrow> bool" where
  "is_integer_tag_value v =
     (case v of VUInt _ \<Rightarrow> True | VU64 _ \<Rightarrow> True | VU32 _ \<Rightarrow> True | VU16 _ \<Rightarrow> True | VU8 _ \<Rightarrow> True | _ \<Rightarrow> False)"

definition stock_stored_publish_tags :: "tag list \<Rightarrow> tag list" where
  "stock_stored_publish_tags tags =
     filter (\<lambda>tag. t_name tag \<noteq> Short FT_PUBLISHINFO \<and> t_name tag \<noteq> Short FT_KADAICHHASHRESULT) tags"

definition search_response :: "node_id \<Rightarrow> node_id \<Rightarrow> search_result_entry list \<Rightarrow> search_res option" where
  "search_response sender_id target results =
     (if results = [] then None else Some (SearchRes sender_id target results))"

definition filename_of :: "tag \<Rightarrow> bytes option" where
  "filename_of tag =
     (if t_name tag \<noteq> Short FT_FILENAME then None
      else case t_value tag of VString v \<Rightarrow> if v \<noteq> [] then Some v else None | _ \<Rightarrow> None)"

definition stock_first_filename :: "tag list \<Rightarrow> bytes option" where
  "stock_first_filename tags = find_map filename_of tags"

definition stock_size_step :: "bool \<Rightarrow> tag \<Rightarrow> file_size_parts \<Rightarrow> file_size_parts" where
  "stock_size_step accept_bsob_file_size tag p =
     (case (t_name tag, t_value tag) of
        (Short name, VUInt value) \<Rightarrow>
          if name = FT_FILESIZE then
            (if value \<le> 0xFFFFFFFF then p\<lparr> size_low := get_or_insert (size_low p) (ucast value) \<rparr>
             else p\<lparr> size_full := get_or_insert (size_full p) value \<rparr>)
          else if name = FT_FILESIZE_HI \<and> value \<le> 0xFFFFFFFF
          then p\<lparr> size_high := get_or_insert (size_high p) (ucast value) \<rparr> else p
      | (Short name, VU64 value) \<Rightarrow>
          if name = FT_FILESIZE then p\<lparr> size_full := get_or_insert (size_full p) value \<rparr> else p
      | (Short name, VU32 value) \<Rightarrow>
          if name = FT_FILESIZE then p\<lparr> size_low := get_or_insert (size_low p) value \<rparr>
          else if name = FT_FILESIZE_HI then p\<lparr> size_high := get_or_insert (size_high p) value \<rparr> else p
      | (Short name, VU16 value) \<Rightarrow>
          if name = FT_FILESIZE then p\<lparr> size_low := get_or_insert (size_low p) (ucast value) \<rparr>
          else if name = FT_FILESIZE_HI then p\<lparr> size_high := get_or_insert (size_high p) (ucast value) \<rparr> else p
      | (Short name, VU8 value) \<Rightarrow>
          if name = FT_FILESIZE then p\<lparr> size_low := get_or_insert (size_low p) (ucast value) \<rparr>
          else if name = FT_FILESIZE_HI then p\<lparr> size_high := get_or_insert (size_high p) (ucast value) \<rparr> else p
      | (Short name, VSmallBlob bs) \<Rightarrow>
          if name = FT_FILESIZE \<and> accept_bsob_file_size \<and> length bs = 8
          then p\<lparr> size_full := get_or_insert (size_full p) (from_le bs) \<rparr> else p
      | _ \<Rightarrow> p)"

definition stock_first_file_size_impl :: "tag list \<Rightarrow> bool \<Rightarrow> u64 option" where
  "stock_first_file_size_impl tags accept_bsob_file_size =
     combine_file_size (fold (stock_size_step accept_bsob_file_size) tags no_size_parts)"

definition stock_first_file_size :: "tag list \<Rightarrow> u64 option" where
  "stock_first_file_size tags = stock_first_file_size_impl tags False"

definition stock_first_keyword_source_file_size :: "tag list \<Rightarrow> u64 option" where
  "stock_first_keyword_source_file_size tags = stock_first_file_size_impl tags True"

definition stock_file_size_matches_request :: "tag list \<Rightarrow> u64 \<Rightarrow> bool \<Rightarrow> bool" where
  "stock_file_size_matches_request tags request_size accept_bsob_file_size \<longleftrightarrow>
     request_size = 0
     \<or> (case stock_first_file_size_impl tags accept_bsob_file_size of Some s \<Rightarrow> s = request_size | None \<Rightarrow> True)"

definition stock_source_file_size_matches_request :: "tag list \<Rightarrow> u64 \<Rightarrow> bool" where
  "stock_source_file_size_matches_request tags request_size = stock_file_size_matches_request tags request_size True"

definition stock_notes_file_size_matches_request :: "tag list \<Rightarrow> u64 \<Rightarrow> bool" where
  "stock_notes_file_size_matches_request tags request_size = stock_file_size_matches_request tags request_size False"

definition filter_option :: "('a \<Rightarrow> bool) \<Rightarrow> 'a option \<Rightarrow> 'a option" where
  "filter_option p v = (case v of Some x \<Rightarrow> if p x then Some x else None | None \<Rightarrow> None)"

definition option_list :: "'a option \<Rightarrow> 'a list" where
  "option_list v = (case v of Some x \<Rightarrow> [x] | None \<Rightarrow> [])"

section \<open>Lemmas\<close>

text \<open>A size in a keyword or source tag set is the size that a search expression compares.\<close>

lemma stock_size_step_accepting: "stock_size_step True = file_size_step"
  by (intro ext) (auto simp: stock_size_step_def file_size_step_def FT_FILESIZE_def FT_FILESIZE_HI_def
      split: tag_name.split tag_value.split)

lemma keyword_size_is_search_size: "stock_first_keyword_source_file_size tags = file_size_tag_value tags"
  by (simp add: stock_first_keyword_source_file_size_def stock_first_file_size_impl_def file_size_tag_value_def
      stock_size_step_accepting)

lemma purge_expired_simps [simp]:
  "set (purge_expired observed es ttl now) = {e \<in> set es. now < observed e + int ttl}"
  "purge_expired observed (purge_expired observed es ttl now) ttl now = purge_expired observed es ttl now"
  by (simp_all add: purge_expired_def)

lemma purge_expired_le: "length (filter p (purge_expired observed es ttl now)) \<le> length (filter p es)"
  unfolding purge_expired_def filter_filter by (induction es) auto

lemma purge_expired_length: "length (purge_expired observed es ttl now) \<le> length es"
  by (simp add: purge_expired_def)

lemma min_index_Some: "min_index f xs = Some i \<Longrightarrow> i < length xs \<and> (\<forall>j < length xs. f (xs ! i) \<le> f (xs ! j))"
proof (induction xs arbitrary: i)
  case (Cons x xs)
  show ?case
  proof (cases "min_index f xs")
    case None
    then have "xs = []" by (cases xs) (auto split: option.splits if_splits)
    with Cons.prems show ?thesis by simp
  next
    case (Some k)
    with Cons.IH have k: "k < length xs" "\<forall>j < length xs. f (xs ! k) \<le> f (xs ! j)" by blast+
    from Cons.prems Some consider "f (xs ! k) < f x" "i = Suc k" | "f x \<le> f (xs ! k)" "i = 0"
      by (auto split: if_splits)
    then show ?thesis
    proof cases
      case 1
      with k show ?thesis by (auto simp: nth_Cons split: nat.split)
    next
      case 2
      have "f x \<le> f ((x # xs) ! j)" if "j < length (x # xs)" for j
        using that k(2) 2(1) by (cases j) (auto intro: order_trans)
      with 2 show ?thesis by simp
    qed
  qed
qed simp

lemma min_index_None_iff [simp]: "min_index f xs = None \<longleftrightarrow> xs = []"
  by (cases xs) (auto split: option.splits)

text \<open>Insertion replaces the entry with the same key, or takes the place of the oldest one when the store is full.\<close>

lemma upsert_entry_cases:
  obtains (replaced) i where "i < length es" "dedup_key (es ! i) = key" "upsert_entry observed dedup_key es capacity key entry = es[i := entry]"
  | (evicted) i where "i < length es" "key \<notin> dedup_key ` set es" "capacity \<le> length es"
      "\<forall>j < length es. observed (es ! i) \<le> observed (es ! j)"
      "upsert_entry observed dedup_key es capacity key entry = remove_at i es @ [entry]"
  | (appended) "key \<notin> dedup_key ` set es" "es = [] \<or> length es < capacity"
      "upsert_entry observed dedup_key es capacity key entry = es @ [entry]"
proof (cases "position (\<lambda>candidate. dedup_key candidate = key) es")
  case (Some i)
  with position_SomeD [OF Some] show ?thesis by (intro replaced [of i]) (auto simp: upsert_entry_def)
next
  case None
  then have new: "key \<notin> dedup_key ` set es" by (auto simp: position_None_iff)
  show ?thesis
  proof (cases "capacity \<le> length es \<and> es \<noteq> []")
    case True
    then obtain i where "min_index observed es = Some i" by fastforce
    with min_index_Some [OF this] True None new show ?thesis by (intro evicted [of i]) (auto simp: upsert_entry_def)
  next
    case False
    then show ?thesis using None new by (intro appended) (auto simp: upsert_entry_def)
  qed
qed

lemma upsert_entry_keys:
  assumes "distinct (map dedup_key es)" "dedup_key entry = key"
  shows "distinct (map dedup_key (upsert_entry observed dedup_key es capacity key entry))"
proof (cases rule: upsert_entry_cases [of es dedup_key key observed capacity entry])
  case (replaced i)
  then have "map dedup_key (es[i := entry]) = map dedup_key es" using assms(2) by (simp add: map_update list_update_same_conv)
  then show ?thesis unfolding replaced(3) using assms(1) by (simp only:)
next
  case (evicted i)
  have "key \<notin> dedup_key ` set (remove_at i es)" using evicted(2) set_remove_at_subset [of i es] by blast
  with distinct_map_remove_at(1) [OF assms(1) evicted(1)] assms(2) show ?thesis unfolding evicted(5) by simp
qed (use assms in auto)

lemma upsert_entry_length: "length es \<le> max 1 capacity \<Longrightarrow> length (upsert_entry observed dedup_key es capacity key entry) \<le> max 1 capacity"
  by (cases rule: upsert_entry_cases [of es dedup_key key observed capacity entry]) (auto simp: length_remove_at)

lemma upsert_entry_set: "set (upsert_entry observed dedup_key es capacity key entry) \<subseteq> insert entry (set es)"
  by (cases rule: upsert_entry_cases [of es dedup_key key observed capacity entry])
    (auto dest: set_update_subset_insert [THEN subsetD] in_set_takeD in_set_dropD simp: remove_at_def)

lemma upsert_entry_new: "entry \<in> set (upsert_entry observed dedup_key es capacity key entry)"
  by (cases rule: upsert_entry_cases [of es dedup_key key observed capacity entry]) (auto simp: set_update_memI)

end
