(* ===== verification/Float_Round.thy ===== *)
theory Float_Round
  imports Complex_Main "HOL-Library.Log_Nat" Prelude
begin

text \<open>
  The floating-point arithmetic that the sources use: values of \<^verbatim>\<open>f32\<close> and \<^verbatim>\<open>f64\<close> as rational numbers, with
  every operation rounded to 24 or 53 significant bits, to the nearest value and to the even one in a tie.
  The sources stay far inside the range of exponents, so that overflow and subnormal values do not arise.
\<close>

definition round_half_even :: "rat \<Rightarrow> int" where
  "round_half_even x =
     (let f = floor x; d = x - of_int f in
      if d < 1 / 2 then f else if d > 1 / 2 then f + 1 else if even f then f else f + 1)"

text \<open>The exponent of the leading bit of a positive number.\<close>

definition pow2 :: "int \<Rightarrow> rat" where
  "pow2 k = (if 0 \<le> k then 2 ^ nat k else 1 / 2 ^ nat (- k))"

definition leading_exponent :: "rat \<Rightarrow> int" where
  "leading_exponent x =
     (let (p, q) = quotient_of x; k = bitlen p - bitlen q in if pow2 k \<le> x then k else k - 1)"

definition float_round :: "nat \<Rightarrow> rat \<Rightarrow> rat" where
  "float_round precision x =
     (if x = 0 then 0
      else let unit = pow2 (leading_exponent \<bar>x\<bar> - int precision + 1)
           in of_int (round_half_even (x / unit)) * unit)"

definition f32 :: "rat \<Rightarrow> rat" where "f32 = float_round 24"
definition f64 :: "rat \<Rightarrow> rat" where "f64 = float_round 53"

text \<open>The cast \<^verbatim>\<open>as u32\<close> truncates and saturates.\<close>

definition float_to_u32 :: "rat \<Rightarrow> u32" where
  "float_to_u32 x = (if x < 0 then 0 else if 4294967295 \<le> x then - 1 else word_of_int (floor x))"

lemma round_half_even_of_int [simp]: "round_half_even (of_int k) = k"
  by (simp add: round_half_even_def)

lemma round_half_even_mono: "x \<le> y \<Longrightarrow> round_half_even x \<le> round_half_even y"
proof -
  assume le: "x \<le> y"
  then have "floor x \<le> floor y" by (rule floor_mono)
  then consider "floor x = floor y" | "floor x + 1 \<le> floor y" by linarith
  then show ?thesis
  proof cases
    case 1
    with le show ?thesis by (simp add: round_half_even_def Let_def)
  next
    case 2
    moreover have "round_half_even x \<le> floor x + 1" "floor y \<le> round_half_even y"
      by (simp_all add: round_half_even_def Let_def)
    ultimately show ?thesis by linarith
  qed
qed

lemma round_half_even_near: "\<bar>of_int (round_half_even x) - x\<bar> \<le> 1 / 2"
  using floor_correct [of x] by (auto simp: round_half_even_def Let_def)

lemma pow2_pos [simp]: "0 < pow2 k"
  by (simp add: pow2_def)

lemma pow2_abs [simp]: "\<bar>pow2 k\<bar> = pow2 k" "pow2 k \<noteq> 0"
  using pow2_pos [of k] by linarith+

text \<open>The error of one rounding is at most half a unit in the last place.\<close>

lemma float_round_near:
  assumes "x \<noteq> 0"
  shows "\<bar>float_round p x - x\<bar> \<le> pow2 (leading_exponent \<bar>x\<bar> - int p + 1) / 2"
proof -
  let ?u = "pow2 (leading_exponent \<bar>x\<bar> - int p + 1)"
  have "\<bar>of_int (round_half_even (x / ?u)) - x / ?u\<bar> * ?u \<le> 1 / 2 * ?u"
    by (rule mult_right_mono [OF round_half_even_near]) (simp add: less_imp_le)
  moreover have "\<bar>of_int (round_half_even (x / ?u)) - x / ?u\<bar> * ?u = \<bar>(of_int (round_half_even (x / ?u)) - x / ?u) * ?u\<bar>"
    by (simp add: abs_mult)
  moreover have "(of_int (round_half_even (x / ?u)) - x / ?u) * ?u = float_round p x - x"
    using assms pow2_pos [of "leading_exponent \<bar>x\<bar> - int p + 1"]
    by (simp add: float_round_def Let_def left_diff_distrib)
  ultimately show ?thesis by simp
qed

lemma f32_examples: "f32 10 = 10" "f32 (10 / 3) = 13981013 / 4194304" "f32 1000 = 1000"
  by code_simp+

end
