(* ===== verification/Index_Keyword.thy ===== *)
theory Index_Keyword
  imports Index_Entries Float_Round "HOL-Library.AList" "HOL-Library.Product_Lexorder" "HOL-Library.List_Lexorder"
begin

text \<open>
  \<^verbatim>\<open>emulebb-index/src/kad_store/keyword.rs\<close>: keyword publishes and the tracker of who published them. The hash
  maps that the code iterates over are association lists with distinct keys; the result depends on their order
  only through the rounding of the trust value. A 20-byte root is the list of its bytes.
\<close>

section \<open>Publishers\<close>

record keyword_publisher =
  kp_last_seen :: system_time
  kp_file_name :: "bytes option"
  kp_aich_root :: "bytes option"

type_synonym keyword_diversity = "(ipv4 \<times> keyword_publisher) list"
type_synonym subnet3 = "u8 \<times> u8 \<times> u8"

record keyword_publish_tracker =
  kt_entries :: "((node_id \<times> ed2k_hash) \<times> keyword_diversity) list"
  kt_global_subnet_counts :: "subnet3 \<rightharpoonup> u32"

definition tracker_default :: keyword_publish_tracker where
  "tracker_default = \<lparr> kt_entries = [], kt_global_subnet_counts = Map.empty \<rparr>"

definition STOCK_MAX_KEYWORD_PUBLISHERS :: nat where "STOCK_MAX_KEYWORD_PUBLISHERS = 100"
definition STOCK_MAX_AICH_RESULT_HASHES :: nat where "STOCK_MAX_AICH_RESULT_HASHES = 11"

definition ip_subnet24 :: "ipv4 \<Rightarrow> subnet3" where
  "ip_subnet24 ip = (octet0 ip, octet1 ip, octet2 ip)"

definition decrement_subnet_count :: "ipv4 \<Rightarrow> (subnet3 \<rightharpoonup> u32) \<Rightarrow> (subnet3 \<rightharpoonup> u32)" where
  "decrement_subnet_count ip counts =
     (let subnet = ip_subnet24 ip in
      case counts subnet of
        None \<Rightarrow> counts
      | Some n \<Rightarrow>
          let n = (if n = 0 then 0 else n - 1)
          in if n = 0 then counts(subnet := None) else counts(subnet \<mapsto> n))"

definition increment_subnet_count :: "ipv4 \<Rightarrow> (subnet3 \<rightharpoonup> u32) \<Rightarrow> (subnet3 \<rightharpoonup> u32)" where
  "increment_subnet_count ip counts =
     counts(ip_subnet24 ip \<mapsto> (case counts (ip_subnet24 ip) of Some n \<Rightarrow> n | None \<Rightarrow> 0) + 1)"

text \<open>\<^verbatim>\<open>Ipv4Addr\<close> is ordered by its octets.\<close>

definition octets :: "ipv4 \<Rightarrow> u8 list" where
  "octets ip = [octet0 ip, octet1 ip, octet2 ip, octet3 ip]"

definition least_recent_publisher :: "keyword_diversity \<Rightarrow> ipv4 option" where
  "least_recent_publisher publishers =
     map_option (\<lambda>i. fst (publishers ! i)) (min_index (\<lambda>(ip, publisher). (kp_last_seen publisher, octets ip)) publishers)"

definition tracker_record ::
  "keyword_publish_tracker \<Rightarrow> node_id \<Rightarrow> ed2k_hash \<Rightarrow> ipv4 \<Rightarrow> bytes option \<Rightarrow> bytes option \<Rightarrow> system_time \<Rightarrow> keyword_publish_tracker" where
  "tracker_record t target file_hash publisher_ip file_name aich_root observed_at =
     (let key = (target, file_hash);
          publishers = (case map_of (kt_entries t) key of Some d \<Rightarrow> d | None \<Rightarrow> []);
          publisher = \<lparr> kp_last_seen = observed_at, kp_file_name = filter_option (\<lambda>name. name \<noteq> []) file_name,
                        kp_aich_root = aich_root \<rparr>
      in case map_of publishers publisher_ip of
           Some _ \<Rightarrow> t\<lparr> kt_entries := AList.update key (AList.update publisher_ip publisher publishers) (kt_entries t) \<rparr>
         | None \<Rightarrow>
             let (publishers, counts) =
                   (case (if length publishers \<ge> STOCK_MAX_KEYWORD_PUBLISHERS then least_recent_publisher publishers else None) of
                      Some evicted_ip \<Rightarrow>
                        (AList.delete evicted_ip publishers, decrement_subnet_count evicted_ip (kt_global_subnet_counts t))
                    | None \<Rightarrow> (publishers, kt_global_subnet_counts t));
                 counts = (if map_of publishers publisher_ip = None then increment_subnet_count publisher_ip counts else counts)
             in t\<lparr> kt_entries := AList.update key (AList.update publisher_ip publisher publishers) (kt_entries t),
                   kt_global_subnet_counts := counts \<rparr>)"

definition publisher_expired :: "duration \<Rightarrow> system_time \<Rightarrow> ipv4 \<times> keyword_publisher \<Rightarrow> bool" where
  "publisher_expired ttl now = (\<lambda>(ip, publisher). kp_last_seen publisher + int ttl \<le> now)"

definition tracker_prune_expired :: "keyword_publish_tracker \<Rightarrow> duration \<Rightarrow> system_time \<Rightarrow> keyword_publish_tracker" where
  "tracker_prune_expired t ttl now =
     t\<lparr> kt_entries := map (\<lambda>(key, publishers). (key, filter (\<lambda>p. \<not> publisher_expired ttl now p) publishers)) (kt_entries t),
        kt_global_subnet_counts :=
          fold decrement_subnet_count
            (concat (map (\<lambda>(key, publishers). map fst (filter (publisher_expired ttl now) publishers)) (kt_entries t)))
            (kt_global_subnet_counts t) \<rparr>"

definition tracker_retain_keys :: "keyword_publish_tracker \<Rightarrow> (node_id \<times> ed2k_hash) list \<Rightarrow> keyword_publish_tracker" where
  "tracker_retain_keys t live_keys =
     t\<lparr> kt_entries := filter (\<lambda>(key, _). key \<in> set live_keys) (kt_entries t),
        kt_global_subnet_counts :=
          fold decrement_subnet_count
            (concat (map (\<lambda>(key, publishers). map fst publishers) (filter (\<lambda>(key, _). key \<notin> set live_keys) (kt_entries t))))
            (kt_global_subnet_counts t) \<rparr>"

definition publisher_trust :: "keyword_publish_tracker \<Rightarrow> ipv4 \<Rightarrow> rat" where
  "publisher_trust t ip =
     (let global = max (case kt_global_subnet_counts t (ip_subnet24 ip) of Some n \<Rightarrow> n | None \<Rightarrow> 1) 1
      in f32 (10 / f32 (of_int (uint global))))"

definition publish_info :: "keyword_publish_tracker \<Rightarrow> node_id \<Rightarrow> ed2k_hash \<Rightarrow> u32 \<times> u32 \<times> u32" where
  "publish_info t target file_hash =
     (case map_of (kt_entries t) (target, file_hash) of
        None \<Rightarrow> (1, 1, 1000)
      | Some publishers \<Rightarrow>
          if publishers = [] then (1, 1, 1000)
          else let trust = fold (\<lambda>(ip, _) trust. f32 (trust + publisher_trust t ip)) publishers 0;
                   names = max (length (remdups (List.map_filter (\<lambda>(_, publisher). kp_file_name publisher) publishers))) 1 mod 256
               in (word_of_nat names, word_of_nat (length publishers mod 256), float_to_u32 (f32 (trust * 100))))"

definition aich_roots :: "keyword_publish_tracker \<Rightarrow> node_id \<Rightarrow> ed2k_hash \<Rightarrow> (bytes \<times> u8) list" where
  "aich_roots t target file_hash =
     (case map_of (kt_entries t) (target, file_hash) of
        None \<Rightarrow> []
      | Some publishers \<Rightarrow>
          let claimed = List.map_filter (\<lambda>(_, publisher). kp_aich_root publisher) publishers;
              popularity = map (\<lambda>root. (root, word_of_nat (min 255 (length (filter (\<lambda>r. r = root) claimed))) :: u8)) (remdups claimed)
          in take STOCK_MAX_AICH_RESULT_HASHES (sort_key (\<lambda>(root, n). (255 - unat n, root)) popularity))"

section \<open>Stored keyword publishes\<close>

record stored_keyword_publish =
  kw_observed_at :: system_time
  kw_target :: node_id
  kw_file_hash :: ed2k_hash
  kw_tags :: "tag list"
  kw_dedup_key :: bytes

definition STOCK_MAX_KEYWORD_INDEX :: nat where "STOCK_MAX_KEYWORD_INDEX = 50000"
definition STOCK_MAX_KEYWORD_ENTRIES :: nat where "STOCK_MAX_KEYWORD_ENTRIES = 60000"
definition STOCK_HOT_KEYWORD_REPUBLISH_MARGIN :: nat where "STOCK_HOT_KEYWORD_REPUBLISH_MARGIN = 5000"

definition keyword_publish_info_tag :: "stored_keyword_publish \<Rightarrow> keyword_publish_tracker \<Rightarrow> tag" where
  "keyword_publish_info_tag entry tracker =
     (let (names, publishers, trust_times_100) = publish_info tracker (kw_target entry) (kw_file_hash entry)
      in new_short FT_PUBLISHINFO
           (VU32 (push_bit 24 (names AND 0xFF) OR push_bit 16 (publishers AND 0xFF) OR (min trust_times_100 0xFFFF AND 0xFFFF))))"

definition keyword_aich_result_tag :: "(bytes \<times> u8) list \<Rightarrow> tag" where
  "keyword_aich_result_tag roots =
     new_short FT_KADAICHHASHRESULT
       (VSmallBlob (word_of_nat (length roots) # concat (map (\<lambda>(root, popularity). popularity # root) roots)))"

definition keyword_result_tags :: "stored_keyword_publish \<Rightarrow> keyword_publish_tracker \<Rightarrow> tag list" where
  "keyword_result_tags entry tracker =
     option_list (map_option tag_filename (stock_first_filename (kw_tags entry)))
     @ option_list (map_option tag_filesize (filter_option (\<lambda>s. s > 0) (stock_first_keyword_source_file_size (kw_tags entry))))
     @ filter (\<lambda>tag. t_name tag \<notin> {Short FT_FILENAME, Short FT_FILESIZE, Short FT_KADAICHHASHPUB, Short FT_PUBLISHINFO, Short FT_KADAICHHASHRESULT})
         (kw_tags entry)
     @ [keyword_publish_info_tag entry tracker]
     @ (let roots = aich_roots tracker (kw_target entry) (kw_file_hash entry)
        in if roots \<noteq> [] then [keyword_aich_result_tag roots] else [])"

definition aich_root_of :: "tag \<Rightarrow> bytes option" where
  "aich_root_of tag =
     (if t_name tag \<noteq> Short FT_KADAICHHASHPUB then None
      else case t_value tag of VSmallBlob bs \<Rightarrow> if length bs = 20 then Some bs else None | _ \<Rightarrow> None)"

definition stock_aich_publish_hash :: "tag list \<Rightarrow> bytes option" where
  "stock_aich_publish_hash tags = find_map aich_root_of tags"

definition stock_stored_keyword_publish_tags :: "tag list \<Rightarrow> tag list" where
  "stock_stored_keyword_publish_tags tags =
     filter (\<lambda>tag. t_name tag \<noteq> Short FT_KADAICHHASHPUB) (stock_stored_publish_tags tags)"

definition stock_keyword_file_size :: "tag list \<Rightarrow> u64 option" where
  "stock_keyword_file_size tags = filter_option (\<lambda>s. s > 0) (stock_first_keyword_source_file_size tags)"

definition stock_keyword_first_filename :: "tag list \<Rightarrow> bytes option" where
  "stock_keyword_first_filename tags = stock_first_filename tags"

definition has_stock_keyword_filename :: "tag list \<Rightarrow> bool" where
  "has_stock_keyword_filename tags \<longleftrightarrow>
     list_ex (\<lambda>tag. t_name tag = Short FT_FILENAME \<and> (case t_value tag of VString v \<Rightarrow> v \<noteq> [] | _ \<Rightarrow> False)) tags"

definition keyword_source_count :: "stored_keyword_publish list \<Rightarrow> node_id \<Rightarrow> nat" where
  "keyword_source_count es target =
     length (remdups (map kw_file_hash (filter (\<lambda>entry. kw_target entry = target) es)))"

definition keyword_source_exists :: "stored_keyword_publish list \<Rightarrow> node_id \<Rightarrow> ed2k_hash \<Rightarrow> bool" where
  "keyword_source_exists es target file_hash \<longleftrightarrow>
     list_ex (\<lambda>entry. kw_target entry = target \<and> kw_file_hash entry = file_hash) es"

definition stock_keyword_publish_decision :: "stored_keyword_publish list \<Rightarrow> node_id \<Rightarrow> ed2k_hash \<Rightarrow> u8 \<times> bool" where
  "stock_keyword_publish_decision es target file_hash =
     (if length es > STOCK_MAX_KEYWORD_ENTRIES then (100, False)
      else let source_count = keyword_source_count es target in
        if source_count = 0 then (1, True)
        else if source_count > STOCK_MAX_KEYWORD_INDEX then (100, False)
        else if keyword_source_exists es target file_hash
             \<and> source_count > STOCK_MAX_KEYWORD_INDEX - STOCK_HOT_KEYWORD_REPUBLISH_MARGIN then (100, False)
        else (word_of_nat (source_count * 100 div STOCK_MAX_KEYWORD_INDEX), True))"

fun decimal :: "nat \<Rightarrow> bytes" where
  "decimal n = (if n < 10 then [] else decimal (n div 10)) @ [0x30 + word_of_nat (n mod 10)]"

declare decimal.simps [simp del]

definition keyword_dedup_key :: "node_id \<Rightarrow> ed2k_hash \<Rightarrow> u64 \<Rightarrow> bytes" where
  "keyword_dedup_key target file_hash sz =
     [0x6B, 0x65, 0x79, 0x77, 0x6F, 0x72, 0x64, 0x3A] @ node_display target @ [0x3A] @ hash_display file_hash @ [0x3A]
     @ decimal (unat sz)"

section \<open>The subnet counts are exact\<close>

text \<open>The associations of an entry with a publisher address.\<close>

definition tracked_ips :: "((node_id \<times> ed2k_hash) \<times> keyword_diversity) list \<Rightarrow> ipv4 multiset" where
  "tracked_ips es = mset (concat (map (\<lambda>(key, publishers). map fst publishers) es))"

definition in_subnet_count :: "ipv4 multiset \<Rightarrow> subnet3 \<Rightarrow> nat" where
  "in_subnet_count M subnet = size (filter_mset (\<lambda>ip. ip_subnet24 ip = subnet) M)"

definition counts_exact :: "(subnet3 \<rightharpoonup> u32) \<Rightarrow> ipv4 multiset \<Rightarrow> bool" where
  "counts_exact counts M \<longleftrightarrow>
     (\<forall>s. counts s = (if in_subnet_count M s = 0 then None else Some (word_of_nat (in_subnet_count M s))))"

lemma in_subnet_count_le: "in_subnet_count M s \<le> size M"
  unfolding in_subnet_count_def by (intro size_mset_mono) simp

lemma in_subnet_count_simps [simp]:
  "in_subnet_count {#} s = 0"
  "in_subnet_count (add_mset ip M) s = (if ip_subnet24 ip = s then Suc (in_subnet_count M s) else in_subnet_count M s)"
  by (simp_all add: in_subnet_count_def)

lemma u32_of_nat_zero: "n < 2 ^ 32 \<Longrightarrow> (word_of_nat n :: u32) = 0 \<longleftrightarrow> n = 0"
  by (simp add: word_unat_eq_iff unsigned_of_nat take_bit_nat_eq_self)

lemma counts_exact_increment:
  assumes "counts_exact counts M"
  shows "counts_exact (increment_subnet_count ip counts) (add_mset ip M)"
proof -
  let ?s = "ip_subnet24 ip"
  have "counts ?s = (if in_subnet_count M ?s = 0 then None else Some (word_of_nat (in_subnet_count M ?s)))"
    using assms unfolding counts_exact_def by blast
  then have inc: "increment_subnet_count ip counts = counts(?s \<mapsto> word_of_nat (Suc (in_subnet_count M ?s)))"
    by (simp add: increment_subnet_count_def add.commute)
  show ?thesis
    using assms unfolding counts_exact_def inc by (simp del: split_paired_All)
qed

lemma counts_exact_decrement:
  assumes "counts_exact counts (add_mset ip M)" "size M < 2 ^ 32 - 1"
  shows "counts_exact (decrement_subnet_count ip counts) M"
proof -
  let ?s = "ip_subnet24 ip" and ?n = "in_subnet_count M (ip_subnet24 ip)"
  have n: "?n < 2 ^ 32 - 1" using in_subnet_count_le [of M ?s] assms(2) by linarith
  then have pos: "(word_of_nat (Suc ?n) :: u32) \<noteq> 0" using u32_of_nat_zero [of "Suc ?n"] by simp
  have at: "counts ?s = Some (word_of_nat (Suc ?n))" using assms(1) by (simp add: counts_exact_def del: split_paired_All)
  have less: "(word_of_nat (Suc ?n) :: u32) - 1 = word_of_nat ?n" by simp
  have zero: "(word_of_nat ?n :: u32) = 0 \<longleftrightarrow> ?n = 0" using u32_of_nat_zero [of ?n] n by simp
  have dec: "decrement_subnet_count ip counts = (if ?n = 0 then counts(?s := None) else counts(?s \<mapsto> word_of_nat ?n))"
    unfolding decrement_subnet_count_def Let_def at option.case less using pos zero by simp
  show ?thesis
    unfolding counts_exact_def dec using assms(1) by (simp add: counts_exact_def del: split_paired_All)
qed

lemma counts_exact_fold_decrement:
  "counts_exact counts (mset xs + M) \<Longrightarrow> size (mset xs + M) < 2 ^ 32 \<Longrightarrow> counts_exact (fold decrement_subnet_count xs counts) M"
proof (induction xs arbitrary: counts)
  case (Cons ip xs)
  then have "counts_exact (decrement_subnet_count ip counts) (mset xs + M)"
    by (intro counts_exact_decrement) simp_all
  with Cons show ?case by simp
qed simp

lemma counts_exact_release:
  "counts_exact counts N \<Longrightarrow> size N < 2 ^ 32 \<Longrightarrow> N = mset xs + M \<Longrightarrow> counts_exact (fold decrement_subnet_count xs counts) M"
  using counts_exact_fold_decrement by blast

section \<open>The tracker's invariant\<close>

definition tracker_wf :: "keyword_publish_tracker \<Rightarrow> bool" where
  "tracker_wf t \<longleftrightarrow>
     distinct (map fst (kt_entries t))
     \<and> (\<forall>(key, publishers) \<in> set (kt_entries t). distinct (map fst publishers) \<and> length publishers \<le> STOCK_MAX_KEYWORD_PUBLISHERS)"

definition tracker_ok :: "keyword_publish_tracker \<Rightarrow> bool" where
  "tracker_ok t \<longleftrightarrow> tracker_wf t \<and> counts_exact (kt_global_subnet_counts t) (tracked_ips (kt_entries t))"

lemma tracked_ips_simps [simp]:
  "tracked_ips [] = {#}" "tracked_ips ((k, d) # es) = mset (map fst d) + tracked_ips es"
  by (simp_all add: tracked_ips_def)

lemma tracked_ips_filter:
  "tracked_ips es = tracked_ips (filter P es) + tracked_ips (filter (\<lambda>e. \<not> P e) es)"
  by (induction es) (auto simp: tracked_ips_def)

lemma tracked_ips_mset: "tracked_ips es = mset (concat (map (\<lambda>(key, publishers). map fst publishers) es))"
  by (simp add: tracked_ips_def)

lemma tracked_ips_update:
  assumes "distinct (map fst es)"
  shows "tracked_ips (AList.update k d es) + mset (map fst (case map_of es k of Some d \<Rightarrow> d | None \<Rightarrow> []))
    = tracked_ips es + mset (map fst d)"
  using assms
proof (induction es)
  case (Cons e es)
  obtain k' d' where e: "e = (k', d')" by (cases e)
  show ?case
  proof (cases "k' = k")
    case True
    with Cons.prems e show ?thesis by (simp add: add.commute add.left_commute)
  next
    case False
    with Cons e show ?thesis by (simp add: add.assoc)
  qed
qed simp

lemma keys_update: "distinct (map fst es) \<Longrightarrow> distinct (map fst (AList.update k d es))"
  by (rule distinct_update)

lemma in_update: "e \<in> set (AList.update k d es) \<Longrightarrow> e = (k, d) \<or> e \<in> set es"
  by (induction es) (auto split: if_splits)

lemma length_update_new: "map_of d ip = None \<Longrightarrow> length (AList.update ip p d) = Suc (length d)"
  by (induction d) (auto split: if_splits)

lemma length_update_old: "map_of d ip \<noteq> None \<Longrightarrow> length (AList.update ip p d) = length d"
  by (induction d) (auto split: if_splits)

lemma fst_update_old: "map_of d ip \<noteq> None \<Longrightarrow> map fst (AList.update ip p d) = map fst d"
  by (induction d) (auto split: if_splits)

lemma fst_update_new: "map_of d ip = None \<Longrightarrow> map fst (AList.update ip p d) = map fst d @ [ip]"
  by (induction d) (auto split: if_splits)

lemma mset_fst_delete:
  assumes "distinct (map fst d)" "ip \<in> fst ` set d"
  shows "add_mset ip (mset (map fst (AList.delete ip d))) = mset (map fst d)"
  using assms
proof (induction d)
  case (Cons e d)
  obtain k p where e: "e = (k, p)" by (cases e)
  show ?case
  proof (cases "k = ip")
    case True
    with Cons.prems e have "ip \<notin> fst ` set d" by simp
    then have "AList.delete ip d = d" by (force simp: AList.delete_eq filter_id_conv)
    with True e show ?thesis by simp
  qed (use Cons e in auto)
qed simp

lemma least_recent_publisher_in: "least_recent_publisher d = Some ip \<Longrightarrow> ip \<in> fst ` set d"
  by (auto simp: least_recent_publisher_def dest!: min_index_Some)

text \<open>A record either refreshes a publisher or adds one, in the place of the least recent one of a full entry.\<close>

lemma tracker_record_cases:
  assumes "tracker_wf t" "publishers = (case map_of (kt_entries t) (target, file_hash) of Some d \<Rightarrow> d | None \<Rightarrow> [])"
    and "t' = tracker_record t target file_hash ip name aich now"
  obtains (refreshed) d where "map fst d = map fst publishers"
      "t' = t\<lparr> kt_entries := AList.update (target, file_hash) d (kt_entries t) \<rparr>"
  | (added) d where "map fst d = map fst publishers @ [ip]" "length publishers < STOCK_MAX_KEYWORD_PUBLISHERS" "ip \<notin> fst ` set publishers"
      "t' = t\<lparr> kt_entries := AList.update (target, file_hash) d (kt_entries t),
               kt_global_subnet_counts := increment_subnet_count ip (kt_global_subnet_counts t) \<rparr>"
  | (evicted) old d where "old \<in> fst ` set publishers" "map fst d = map fst (AList.delete old publishers) @ [ip]" "ip \<notin> fst ` set publishers"
      "t' = t\<lparr> kt_entries := AList.update (target, file_hash) d (kt_entries t),
               kt_global_subnet_counts := increment_subnet_count ip (decrement_subnet_count old (kt_global_subnet_counts t)) \<rparr>"
proof (cases "map_of publishers ip")
  case (Some p)
  then show ?thesis
    using assms(2,3) by (intro refreshed) (auto simp: tracker_record_def Let_def fst_update_old)
next
  case None
  then have new: "ip \<notin> fst ` set publishers" by (simp add: map_of_eq_None_iff)
  show ?thesis
  proof (cases "length publishers < STOCK_MAX_KEYWORD_PUBLISHERS")
    case True
    then show ?thesis
      using assms(2,3) None new by (intro added) (auto simp: tracker_record_def Let_def fst_update_new)
  next
    case False
    then have "publishers \<noteq> []" by (auto simp: STOCK_MAX_KEYWORD_PUBLISHERS_def)
    then obtain old where old: "least_recent_publisher publishers = Some old"
      by (cases "min_index (\<lambda>(ip, publisher). (kp_last_seen publisher, octets ip)) publishers") (auto simp: least_recent_publisher_def)
    have gone: "map_of (AList.delete old publishers) ip = None"
      using None by (simp add: delete_conv')
    show ?thesis
      using assms(2,3) None new False old gone least_recent_publisher_in [OF old]
      by (intro evicted [of old]) (auto simp: tracker_record_def Let_def fst_update_new not_less)
  qed
qed

lemma tracker_record_ok:
  assumes "tracker_ok t" "size (tracked_ips (kt_entries t)) < 2 ^ 32 - 1" "t' = tracker_record t target file_hash ip name aich now"
  shows "tracker_ok t' \<and> size (tracked_ips (kt_entries t')) \<le> Suc (size (tracked_ips (kt_entries t)))"
proof -
  let ?es = "kt_entries t" and ?key = "(target, file_hash)"
  define publishers where "publishers = (case map_of ?es ?key of Some d \<Rightarrow> d | None \<Rightarrow> [])"
  have wf: "tracker_wf t" and exact: "counts_exact (kt_global_subnet_counts t) (tracked_ips ?es)"
    using assms(1) by (simp_all add: tracker_ok_def)
  have keys: "distinct (map fst ?es)" using wf by (simp add: tracker_wf_def)
  have pub: "distinct (map fst publishers)" "length publishers \<le> STOCK_MAX_KEYWORD_PUBLISHERS"
    using wf by (auto simp: publishers_def tracker_wf_def split: option.split dest!: map_of_SomeD)
  have upd: "tracked_ips (AList.update ?key d ?es) + mset (map fst publishers) = tracked_ips ?es + mset (map fst d)" for d
    unfolding publishers_def by (rule tracked_ips_update [OF keys])
  have wf': "tracker_wf (t\<lparr> kt_entries := AList.update ?key d ?es \<rparr>)"
    if "distinct (map fst d)" "length d \<le> STOCK_MAX_KEYWORD_PUBLISHERS" for d
    using wf that distinct_update [OF keys] by (auto simp: tracker_wf_def dest!: in_update)
  have wf_counts: "tracker_wf (s\<lparr> kt_global_subnet_counts := c \<rparr>) \<longleftrightarrow> tracker_wf s" for s c by (simp add: tracker_wf_def)
  from wf publishers_def assms(3) show ?thesis
  proof (cases rule: tracker_record_cases)
    case (refreshed d)
    with upd [of d] have "tracked_ips (AList.update ?key d ?es) = tracked_ips ?es" by simp
    moreover have "length d = length publishers" using refreshed(1) by (metis length_map)
    ultimately show ?thesis using refreshed wf' [of d] pub exact by (simp add: tracker_ok_def)
  next
    case (added d)
    with upd [of d] have M: "tracked_ips (AList.update ?key d ?es) = add_mset ip (tracked_ips ?es)" by simp
    have "length d = Suc (length publishers)" using arg_cong [OF added(1), of length] by simp
    then show ?thesis
      using added wf' [of d] pub M counts_exact_increment [OF exact, of ip] by (simp add: tracker_ok_def wf_counts)
  next
    case (evicted old d)
    have neq: "old \<noteq> ip" using evicted(1,3) by blast
    have old: "add_mset old (mset (map fst (AList.delete old publishers))) = mset (map fst publishers)"
      by (rule mset_fst_delete [OF pub(1) evicted(1)])
    from upd [of d] evicted(2) have "tracked_ips (AList.update ?key d ?es) + mset (map fst publishers)
        = tracked_ips ?es + add_mset ip (mset (map fst (AList.delete old publishers)))" by simp
    then have "add_mset old (tracked_ips (AList.update ?key d ?es)) = add_mset ip (tracked_ips ?es)"
      unfolding old [symmetric] by simp
    then obtain M where M: "tracked_ips ?es = add_mset old M" "tracked_ips (AList.update ?key d ?es) = add_mset ip M"
      using neq unfolding add_eq_conv_ex by blast
    have "length d = length publishers"
      using arg_cong [OF evicted(2), of length] arg_cong [OF old, of size] by simp
    moreover have "distinct (map fst d)"
      using evicted(2,3) pub(1) by (auto simp: AList.delete_eq distinct_map_filter)
    moreover have "counts_exact (increment_subnet_count ip (decrement_subnet_count old (kt_global_subnet_counts t))) (add_mset ip M)"
      using counts_exact_decrement [of _ old M] exact M(1) assms(2) by (intro counts_exact_increment) simp
    ultimately show ?thesis
      using evicted(4) wf' [of d] pub M by (simp add: tracker_ok_def wf_counts)
  qed
qed

lemma tracker_retain_ok:
  assumes "tracker_ok t" "size (tracked_ips (kt_entries t)) < 2 ^ 32"
  shows "tracker_ok (tracker_retain_keys t live)"
    and "size (tracked_ips (kt_entries (tracker_retain_keys t live))) \<le> size (tracked_ips (kt_entries t))"
proof -
  let ?es = "kt_entries t" and ?p = "\<lambda>(key, _). key \<in> set live"
  have np: "filter (\<lambda>e. \<not> ?p e) ?es = filter (\<lambda>(key, _). key \<notin> set live) ?es"
    by (rule filter_cong) auto
  have split: "tracked_ips ?es = tracked_ips (filter (\<lambda>(key, _). key \<notin> set live) ?es) + tracked_ips (filter ?p ?es)"
    using tracked_ips_filter [of ?es ?p] unfolding np by simp
  have "tracker_wf (tracker_retain_keys t live)"
    using assms(1) by (auto simp: tracker_ok_def tracker_wf_def tracker_retain_keys_def distinct_map_filter)
  moreover have "counts_exact (kt_global_subnet_counts (tracker_retain_keys t live)) (tracked_ips (filter ?p ?es))"
  proof -
    have "counts_exact (kt_global_subnet_counts t) (tracked_ips ?es)" using assms(1) by (simp add: tracker_ok_def)
    from counts_exact_release [OF this assms(2) split [unfolded tracked_ips_mset [of "filter _ _"], folded tracked_ips_mset [of "filter ?p ?es"]]]
    show ?thesis by (simp add: tracker_retain_keys_def)
  qed
  ultimately show "tracker_ok (tracker_retain_keys t live)" by (simp add: tracker_ok_def tracker_retain_keys_def)
  show "size (tracked_ips (kt_entries (tracker_retain_keys t live))) \<le> size (tracked_ips ?es)"
    using arg_cong [OF split, of size] by (simp add: tracker_retain_keys_def)
qed

lemma tracked_ips_expired:
  "tracked_ips es = mset (concat (map (\<lambda>(key, publishers). map fst (filter p publishers)) es))
     + tracked_ips (map (\<lambda>(key, publishers). (key, filter (\<lambda>x. \<not> p x) publishers)) es)"
proof (induction es)
  case (Cons e es)
  obtain k d where e: "e = (k, d)" by (cases e)
  have "mset (map fst d) = mset (map fst (filter p d)) + mset (map fst (filter (\<lambda>x. \<not> p x) d))"
    by (induction d) auto
  with Cons e show ?case by (simp add: add.assoc add.commute add.left_commute)
qed simp

lemma tracker_prune_ok:
  assumes "tracker_ok t" "size (tracked_ips (kt_entries t)) < 2 ^ 32"
  shows "tracker_ok (tracker_prune_expired t ttl now)"
    and "size (tracked_ips (kt_entries (tracker_prune_expired t ttl now))) \<le> size (tracked_ips (kt_entries t))"
proof -
  let ?es = "kt_entries t" and ?p = "publisher_expired ttl now"
  note split = tracked_ips_expired [of ?es ?p]
  have fst_eq: "map fst (map (\<lambda>(key, publishers). (key, filter (\<lambda>x. \<not> ?p x) publishers)) ?es) = map fst ?es"
    by (simp add: case_prod_unfold comp_def)
  have entries: "kt_entries (tracker_prune_expired t ttl now) = map (\<lambda>(key, publishers). (key, filter (\<lambda>x. \<not> ?p x) publishers)) ?es"
    by (simp add: tracker_prune_expired_def)
  have "tracker_wf (tracker_prune_expired t ttl now)"
    using assms(1) unfolding tracker_ok_def tracker_wf_def entries fst_eq
    by (auto simp: distinct_map_filter intro: order_trans [OF length_filter_le])
  moreover have "counts_exact (kt_global_subnet_counts (tracker_prune_expired t ttl now))
      (tracked_ips (map (\<lambda>(key, publishers). (key, filter (\<lambda>x. \<not> ?p x) publishers)) ?es))"
  proof -
    have "counts_exact (kt_global_subnet_counts t) (tracked_ips ?es)" using assms(1) by (simp add: tracker_ok_def)
    from counts_exact_release [OF this assms(2) split] show ?thesis by (simp add: tracker_prune_expired_def)
  qed
  ultimately show "tracker_ok (tracker_prune_expired t ttl now)" by (simp add: tracker_ok_def tracker_prune_expired_def)
  show "size (tracked_ips (kt_entries (tracker_prune_expired t ttl now))) \<le> size (tracked_ips ?es)"
    using arg_cong [OF split, of size] by (simp add: tracker_prune_expired_def)
qed

section \<open>Deduplication keys\<close>

lemma decimal_digit: "n < 10 \<Longrightarrow> m < 10 \<Longrightarrow> (word_of_nat n :: u8) = word_of_nat m \<longleftrightarrow> n = m"
  by (simp add: word_unat_eq_iff unsigned_of_nat take_bit_nat_eq_self)

lemma decimal_nonempty: "decimal n \<noteq> []" "[] \<noteq> decimal n"
  by (subst decimal.simps, simp)+

lemma decimal_inject: "decimal m = decimal n \<Longrightarrow> m = n"
proof (induction m arbitrary: n rule: decimal.induct)
  case (1 m)
  then have "(if m < 10 then [] else decimal (m div 10)) @ [0x30 + word_of_nat (m mod 10) :: u8]
      = (if n < 10 then [] else decimal (n div 10)) @ [0x30 + word_of_nat (n mod 10)]"
    by (simp add: decimal.simps [of m] decimal.simps [of n])
  then have pre: "(if m < 10 then [] else decimal (m div 10)) = (if n < 10 then [] else decimal (n div 10))"
    and digit: "m mod 10 = n mod 10"
    by (simp_all add: decimal_digit)
  show ?case
  proof (cases "m < 10")
    case True
    with pre have "n < 10" by (simp add: decimal_nonempty split: if_splits)
    with True digit show ?thesis by simp
  next
    case False
    with pre have "\<not> n < 10" "decimal (m div 10) = decimal (n div 10)" by (simp_all add: decimal_nonempty split: if_splits)
    with "1.IH" [OF False] have "m div 10 = n div 10" by blast
    with digit show ?thesis by (metis div_mult_mod_eq)
  qed
qed

lemma length_displays [simp]: "length (node_display i) = 32" "length (hash_display h) = 32"
  by (simp_all add: node_display_def hash_display_def upt_4 length_concat comp_def sum_list_triv length_arr_bytes)

lemma display_inject [simp]: "node_display i = node_display j \<longleftrightarrow> i = j" "hash_display h = hash_display g \<longleftrightarrow> h = g"
  by (metis node_str_roundtrip parse_outcome.inject(1), metis hash_str_roundtrip parse_outcome.inject(1))

lemma keyword_dedup_key_inject [simp]:
  "keyword_dedup_key t h s = keyword_dedup_key t' h' s' \<longleftrightarrow> t = t' \<and> h = h' \<and> s = s'"
  by (auto simp: keyword_dedup_key_def word_unat_eq_iff dest: decimal_inject)

end
