(* ===== verification/Index_Sources.thy ===== *)
theory Index_Sources
  imports Index_Keyword
begin

text \<open>
  \<^verbatim>\<open>emulebb-index/src/kad_store/source.rs\<close> and \<^verbatim>\<open>notes.rs\<close>: source and note publishes. The two insertion routines
  have the same shape, which \<open>bounded_upsert\<close> states once for the lemmas on their capacities.
\<close>

section \<open>Sources\<close>

record stored_source_publish =
  src_observed_at :: system_time
  src_target :: node_id
  src_publisher_id :: node_id
  src_ip :: ipv4
  src_tcp_port :: u16
  src_udp_port :: u16
  src_tags :: "tag list"
  src_dedup_key :: bytes

definition FT_SERVERIP :: u8 where "FT_SERVERIP = 0xFB"
definition FT_SOURCEUPORT :: u8 where "FT_SOURCEUPORT = 0xFC"
definition FT_SOURCEPORT :: u8 where "FT_SOURCEPORT = 0xFD"
definition FT_SOURCEIP :: u8 where "FT_SOURCEIP = 0xFE"
definition FT_SOURCETYPE :: u8 where "FT_SOURCETYPE = 0xFF"

definition stock_stored_source_publish_tags :: "tag list \<Rightarrow> tag list" where
  "stock_stored_source_publish_tags tags =
     filter (\<lambda>tag. \<not> (t_name tag = Short FT_SERVERIP \<and> \<not> is_integer_tag_value (t_value tag))) (stock_stored_publish_tags tags)"

definition is_stock_source_publish :: "tag list \<Rightarrow> bool" where
  "is_stock_source_publish tags \<longleftrightarrow> list_ex (\<lambda>tag. t_name tag = Short FT_SOURCETYPE) tags"

text \<open>\<^verbatim>\<open>u16::try_from\<close>.\<close>

definition try_u16 :: "'a::len word \<Rightarrow> u16 option" where
  "try_u16 v = (if unat v \<le> 65535 then Some (ucast v) else None)"

definition port_value :: "tag_value \<Rightarrow> u16 option" where
  "port_value v =
     (case v of
        VUInt x \<Rightarrow> try_u16 x
      | VU64 x \<Rightarrow> try_u16 x
      | VU32 x \<Rightarrow> try_u16 x
      | VU16 x \<Rightarrow> Some x
      | VU8 x \<Rightarrow> Some (ucast x)
      | _ \<Rightarrow> None)"

definition source_tcp_port_of :: "tag \<Rightarrow> u16 option" where
  "source_tcp_port_of tag =
     (if t_name tag \<noteq> Short FT_SOURCEPORT then None else filter_option (\<lambda>port. port > 0) (port_value (t_value tag)))"

definition stock_source_tcp_port :: "tag list \<Rightarrow> u16 option" where
  "stock_source_tcp_port tags = find_map source_tcp_port_of tags"

definition source_ip_tag :: "ipv4 \<Rightarrow> tag" where
  "source_ip_tag ip = new_short FT_SOURCEIP (VU32 (from_le (rev (octets ip))))"

definition normalized_source_port_tag :: "tag \<Rightarrow> tag" where
  "normalized_source_port_tag tag =
     (case t_value tag of
        VUInt v \<Rightarrow> if v \<le> 0xFFFFFFFF then Tag (t_name tag) (VU32 (ucast v)) else tag
      | _ \<Rightarrow> tag)"

definition normalized_source_udp_port_tag :: "tag \<Rightarrow> tag option" where
  "normalized_source_udp_port_tag tag =
     (case port_value (t_value tag) of
        None \<Rightarrow> None
      | Some port \<Rightarrow> if port = 0 then None else Some (new_short FT_SOURCEUPORT (VU16 port)))"

fun source_result_loop :: "ipv4 \<Rightarrow> bool \<Rightarrow> bool \<Rightarrow> bool \<Rightarrow> tag list \<Rightarrow> tag list" where
  "source_result_loop ip saw_source_type saw_source_tcp_port saw_source_udp_port [] = []"
| "source_result_loop ip saw_source_type saw_source_tcp_port saw_source_udp_port (tag # tags) =
     (if t_name tag = Short FT_SOURCETYPE then
        (if \<not> saw_source_type
         then source_ip_tag ip # tag # source_result_loop ip True saw_source_tcp_port saw_source_udp_port tags
         else source_result_loop ip saw_source_type saw_source_tcp_port saw_source_udp_port tags)
      else if t_name tag = Short FT_FILESIZE
      then source_result_loop ip saw_source_type saw_source_tcp_port saw_source_udp_port tags
      else if t_name tag = Short FT_SOURCEPORT then
        (if \<not> saw_source_tcp_port
         then normalized_source_port_tag tag # source_result_loop ip saw_source_type True saw_source_udp_port tags
         else source_result_loop ip saw_source_type saw_source_tcp_port saw_source_udp_port tags)
      else if t_name tag = Short FT_SOURCEUPORT then
        (case (if saw_source_udp_port then None else normalized_source_udp_port_tag tag) of
           Some port_tag \<Rightarrow> port_tag # source_result_loop ip saw_source_type saw_source_tcp_port True tags
         | None \<Rightarrow> source_result_loop ip saw_source_type saw_source_tcp_port saw_source_udp_port tags)
      else tag # source_result_loop ip saw_source_type saw_source_tcp_port saw_source_udp_port tags)"

definition source_result_tags :: "stored_source_publish \<Rightarrow> tag list" where
  "source_result_tags entry =
     option_list (map_option tag_filesize (stock_first_keyword_source_file_size (src_tags entry)))
     @ source_result_loop (src_ip entry) False False False (src_tags entry)"

definition source_entry_id :: "node_id \<Rightarrow> ed2k_hash" where
  "source_entry_id publisher_id = Ed2kHash (to_be_bytes publisher_id)"

definition upsert_source_entry ::
  "stored_source_publish list \<Rightarrow> nat \<Rightarrow> nat \<Rightarrow> stored_source_publish \<Rightarrow> admission_disposition \<times> stored_source_publish list" where
  "upsert_source_entry es per_file_capacity capacity entry =
     (case position (\<lambda>candidate. src_target candidate = src_target entry \<and> src_ip candidate = src_ip entry
              \<and> (src_tcp_port candidate = src_tcp_port entry \<or> src_udp_port candidate = src_udp_port entry)) es of
        Some i \<Rightarrow> (Refreshed, es[i := entry])
      | None \<Rightarrow>
          (case (if length (filter (\<lambda>candidate. src_target candidate = src_target entry) es) > per_file_capacity
                 then oldest_target_entry_index src_target es (src_target entry) else None) of
             Some oldest_index \<Rightarrow> (Recycled, remove_at oldest_index es @ [entry])
           | None \<Rightarrow>
               if length es \<ge> capacity then (RejectedGlobalCapacity, es) else (Inserted, es @ [entry])))"

definition source_replacement_matches :: "stored_source_publish list \<Rightarrow> node_id \<Rightarrow> ipv4 \<Rightarrow> u16 \<Rightarrow> u16 \<Rightarrow> bool" where
  "source_replacement_matches es target ip tcp_port udp_port \<longleftrightarrow>
     list_ex (\<lambda>candidate. src_target candidate = target \<and> src_ip candidate = ip
         \<and> (src_tcp_port candidate = tcp_port \<or> src_udp_port candidate = udp_port)) es"

definition stock_source_publish_load :: "stored_source_publish list \<Rightarrow> node_id \<Rightarrow> nat \<Rightarrow> ipv4 \<Rightarrow> u16 \<Rightarrow> u16 \<Rightarrow> u8" where
  "stock_source_publish_load es target per_file_capacity ip tcp_port udp_port =
     (let target_count = length (filter (\<lambda>candidate. src_target candidate = target) es) in
      if target_count = 0 then 1
      else if target_count > per_file_capacity \<and> \<not> source_replacement_matches es target ip tcp_port udp_port then 100
      else word_of_nat (target_count * 100 div max per_file_capacity 1))"

definition ipv4_display :: "ipv4 \<Rightarrow> bytes" where
  "ipv4_display ip =
     decimal (unat (octet0 ip)) @ [0x2E] @ decimal (unat (octet1 ip)) @ [0x2E] @ decimal (unat (octet2 ip)) @ [0x2E]
     @ decimal (unat (octet3 ip))"

definition source_dedup_key :: "node_id \<Rightarrow> ipv4 \<Rightarrow> u16 \<Rightarrow> u16 \<Rightarrow> bytes" where
  "source_dedup_key target ip tcp_port udp_port =
     [0x73, 0x6F, 0x75, 0x72, 0x63, 0x65, 0x3A] @ node_display target @ [0x3A] @ ipv4_display ip @ [0x3A]
     @ decimal (unat tcp_port) @ [0x3A] @ decimal (unat udp_port)"

section \<open>Notes\<close>

record stored_notes_publish =
  nt_observed_at :: system_time
  nt_target :: node_id
  nt_publisher_id :: node_id
  nt_publisher_ip :: ipv4
  nt_tags :: "tag list"
  nt_dedup_key :: bytes

definition notes_result_tags :: "stored_notes_publish \<Rightarrow> tag list" where
  "notes_result_tags entry =
     option_list (map_option tag_filename (stock_first_filename (nt_tags entry)))
     @ option_list (map_option tag_filesize (filter_option (\<lambda>s. s > 0) (stock_first_file_size (nt_tags entry))))
     @ filter (\<lambda>tag. t_name tag \<noteq> Short FT_FILENAME \<and> t_name tag \<noteq> Short FT_FILESIZE) (nt_tags entry)"

definition upsert_notes_entry ::
  "stored_notes_publish list \<Rightarrow> nat \<Rightarrow> nat \<Rightarrow> stored_notes_publish \<Rightarrow> admission_disposition \<times> stored_notes_publish list" where
  "upsert_notes_entry es per_file_capacity capacity entry =
     (case position (\<lambda>candidate. nt_target candidate = nt_target entry
              \<and> (nt_publisher_ip candidate = nt_publisher_ip entry \<or> nt_publisher_id candidate = nt_publisher_id entry)) es of
        Some i \<Rightarrow> (Refreshed, es[i := entry])
      | None \<Rightarrow>
          (case (if length (filter (\<lambda>candidate. nt_target candidate = nt_target entry) es) > per_file_capacity
                 then oldest_target_entry_index nt_target es (nt_target entry) else None) of
             Some oldest_index \<Rightarrow> (Recycled, remove_at oldest_index es @ [entry])
           | None \<Rightarrow>
               if length es \<ge> capacity then (RejectedGlobalCapacity, es) else (Inserted, es @ [entry])))"

definition notes_replacement_matches :: "stored_notes_publish list \<Rightarrow> node_id \<Rightarrow> node_id \<Rightarrow> ipv4 \<Rightarrow> bool" where
  "notes_replacement_matches es target publisher_id publisher_ip \<longleftrightarrow>
     list_ex (\<lambda>candidate. nt_target candidate = target
         \<and> (nt_publisher_ip candidate = publisher_ip \<or> nt_publisher_id candidate = publisher_id)) es"

definition stock_notes_publish_load :: "stored_notes_publish list \<Rightarrow> node_id \<Rightarrow> nat \<Rightarrow> node_id \<Rightarrow> ipv4 \<Rightarrow> u8" where
  "stock_notes_publish_load es target per_file_capacity publisher_id publisher_ip =
     (let target_count = length (filter (\<lambda>candidate. nt_target candidate = target) es) in
      if target_count = 0 then 1
      else if target_count > per_file_capacity \<and> \<not> notes_replacement_matches es target publisher_id publisher_ip then 100
      else word_of_nat (target_count * 100 div max per_file_capacity 1))"

definition is_stock_note_tag :: "tag \<Rightarrow> bool" where
  "is_stock_note_tag tag =
     (case t_name tag of
        Long _ \<Rightarrow> True
      | Short name \<Rightarrow>
          if name = FT_FILENAME \<and> (case t_value tag of VString _ \<Rightarrow> True | _ \<Rightarrow> False)
          then (case t_value tag of VString v \<Rightarrow> v \<noteq> [] | _ \<Rightarrow> False)
          else if name = FT_FILESIZE
          then (case stock_first_file_size [tag] of Some s \<Rightarrow> s > 0 | None \<Rightarrow> False)
          else name \<noteq> FT_FILENAME \<and> name \<noteq> FT_FILESIZE)"

definition has_stock_note_tags :: "tag list \<Rightarrow> bool" where
  "has_stock_note_tags tags \<longleftrightarrow> list_ex is_stock_note_tag tags"

definition notes_dedup_key :: "node_id \<Rightarrow> node_id \<Rightarrow> ipv4 \<Rightarrow> bytes" where
  "notes_dedup_key target publisher_id publisher_ip =
     [0x6E, 0x6F, 0x74, 0x65, 0x73, 0x3A] @ node_display target @ [0x3A] @ node_display publisher_id @ [0x3A]
     @ ipv4_display publisher_ip"

section \<open>Bounded insertion\<close>

definition bounded_upsert ::
  "('e \<Rightarrow> node_id) \<Rightarrow> ('e \<Rightarrow> 'e \<Rightarrow> bool) \<Rightarrow> 'e list \<Rightarrow> nat \<Rightarrow> nat \<Rightarrow> 'e \<Rightarrow> admission_disposition \<times> 'e list" where
  "bounded_upsert target_of same es per_file_capacity capacity entry =
     (case position (\<lambda>candidate. target_of candidate = target_of entry \<and> same candidate entry) es of
        Some i \<Rightarrow> (Refreshed, es[i := entry])
      | None \<Rightarrow>
          (case (if length (filter (\<lambda>candidate. target_of candidate = target_of entry) es) > per_file_capacity
                 then oldest_target_entry_index target_of es (target_of entry) else None) of
             Some oldest_index \<Rightarrow> (Recycled, remove_at oldest_index es @ [entry])
           | None \<Rightarrow>
               if length es \<ge> capacity then (RejectedGlobalCapacity, es) else (Inserted, es @ [entry])))"

definition same_source :: "stored_source_publish \<Rightarrow> stored_source_publish \<Rightarrow> bool" where
  "same_source a b \<longleftrightarrow> src_ip a = src_ip b \<and> (src_tcp_port a = src_tcp_port b \<or> src_udp_port a = src_udp_port b)"

definition same_publisher :: "stored_notes_publish \<Rightarrow> stored_notes_publish \<Rightarrow> bool" where
  "same_publisher a b \<longleftrightarrow> nt_publisher_ip a = nt_publisher_ip b \<or> nt_publisher_id a = nt_publisher_id b"

lemma upsert_source_bounded: "upsert_source_entry = bounded_upsert src_target same_source"
  by (intro ext) (simp add: upsert_source_entry_def bounded_upsert_def same_source_def)

lemma upsert_notes_bounded: "upsert_notes_entry = bounded_upsert nt_target same_publisher"
  by (intro ext) (simp add: upsert_notes_entry_def bounded_upsert_def same_publisher_def)

abbreviation "target_count target_of es target \<equiv> length (filter (\<lambda>e. target_of e = target) es)"

text \<open>What the insertion does to the store.\<close>

lemma bounded_upsert_cases:
  obtains (refreshed) i where "i < length es" "target_of (es ! i) = target_of entry" "same (es ! i) entry"
      "bounded_upsert target_of same es per_file capacity entry = (Refreshed, es[i := entry])"
  | (recycled) i where "i < length es" "target_of (es ! i) = target_of entry" "per_file < target_count target_of es (target_of entry)"
      "bounded_upsert target_of same es per_file capacity entry = (Recycled, remove_at i es @ [entry])"
  | (rejected) "capacity \<le> length es" "target_count target_of es (target_of entry) \<le> per_file"
      "bounded_upsert target_of same es per_file capacity entry = (RejectedGlobalCapacity, es)"
  | (inserted) "length es < capacity" "target_count target_of es (target_of entry) \<le> per_file"
      "\<not> (\<exists>e \<in> set es. target_of e = target_of entry \<and> same e entry)"
      "bounded_upsert target_of same es per_file capacity entry = (Inserted, es @ [entry])"
proof (cases "position (\<lambda>candidate. target_of candidate = target_of entry \<and> same candidate entry) es")
  case (Some i)
  have res: "bounded_upsert target_of same es per_file capacity entry = (Refreshed, es[i := entry])"
    by (simp add: bounded_upsert_def Some)
  show ?thesis by (rule refreshed [OF _ _ _ res]) (use position_SomeD [OF Some] in simp_all)
next
  case None
  note fresh = this
  show ?thesis
  proof (cases "per_file < target_count target_of es (target_of entry)")
    case True
    obtain i where i: "position (\<lambda>candidate. target_of candidate = target_of entry) es = Some i"
    proof (cases "position (\<lambda>candidate. target_of candidate = target_of entry) es")
      case None
      then have "filter (\<lambda>e. target_of e = target_of entry) es = []" by (simp add: position_None_iff filter_empty_conv)
      with True show ?thesis by simp
    qed (rule that)
    have res: "bounded_upsert target_of same es per_file capacity entry = (Recycled, remove_at i es @ [entry])"
      by (simp add: bounded_upsert_def fresh True oldest_target_entry_index_def i)
    show ?thesis by (rule recycled [OF _ _ True res]) (use position_SomeD [OF i] in simp_all)
  next
    case few: False
    have absent: "\<not> (\<exists>e \<in> set es. target_of e = target_of entry \<and> same e entry)"
      using fresh by (simp add: position_None_iff)
    show ?thesis
    proof (cases "capacity \<le> length es")
      case True
      show ?thesis by (rule rejected) (use few fresh True in \<open>simp_all add: bounded_upsert_def\<close>)
    next
      case False
      show ?thesis by (rule inserted [OF _ _ absent]) (use few fresh False in \<open>simp_all add: bounded_upsert_def\<close>)
    qed
  qed
qed

lemma target_count_remove_at:
  assumes "i < length es"
  shows "target_count f (remove_at i es) t = target_count f es t - (if f (es ! i) = t then 1 else 0)"
proof -
  have "es = take i es @ es ! i # drop (Suc i) es" by (rule id_take_nth_drop [OF assms])
  then have "target_count f es t = target_count f (take i es @ es ! i # drop (Suc i) es) t" by simp
  then show ?thesis by (simp add: remove_at_def)
qed

lemma target_count_update:
  assumes "i < length es" "f (es ! i) = f e"
  shows "target_count f (es[i := e]) t = target_count f es t"
proof -
  have "es = take i es @ es ! i # drop (Suc i) es" by (rule id_take_nth_drop [OF assms(1)])
  then have "target_count f es t = target_count f (take i es @ es ! i # drop (Suc i) es) t" by simp
  with assms show ?thesis by (simp add: upd_conv_take_nth_drop)
qed

lemma bounded_upsert_caps:
  assumes "length es \<le> capacity" "\<And>t. target_count target_of es t \<le> Suc per_file"
  shows "length (snd (bounded_upsert target_of same es per_file capacity entry)) \<le> capacity"
    and "target_count target_of (snd (bounded_upsert target_of same es per_file capacity entry)) t \<le> Suc per_file"
  using assms(1) assms(2) [of t]
  by (cases rule: bounded_upsert_cases [of es target_of entry same per_file capacity];
      auto simp: length_remove_at target_count_update target_count_remove_at)+

text \<open>An executable form of the hexadecimal digits.\<close>

lemma hex_lower_code [code]:
  "hex_lower n w = map (\<lambda>i. hex_digit (unat (take_bit 4 (drop_bit (4 * (n - Suc i)) w)))) [0..<n]"
proof -
  have "unat (take_bit 4 (drop_bit (4 * k) w)) = unat w div 16 ^ k mod 16" for k
  proof -
    have "unat (take_bit 4 (drop_bit (4 * k) w)) = take_bit 4 (drop_bit (4 * k) (unat w))"
      by (simp add: unsigned_take_bit_eq unsigned_drop_bit_eq take_bit_nat_eq_self unsigned_less)
    then show ?thesis by (simp add: drop_bit_eq_div take_bit_eq_mod power_mult)
  qed
  then show ?thesis by (simp add: hex_lower_def)
qed

end
