(* ===== verification/Index_Store.thy ===== *)
theory Index_Store
  imports Index_Sources
begin

text \<open>
  \<^verbatim>\<open>emulebb-index/src/kad_store/mod.rs\<close>: the cache of published keywords, sources and notes, with the operations that
  record publishes and answer searches, and its snapshot (\<^verbatim>\<open>kad_publish_snapshot.rs\<close>). The operations of the code
  mutate the store; here they return it.
\<close>

section \<open>The store\<close>

definition STOCK_MAX_SOURCES_PER_FILE :: nat where "STOCK_MAX_SOURCES_PER_FILE = 1000"
definition STOCK_MAX_NOTES_PER_FILE :: nat where "STOCK_MAX_NOTES_PER_FILE = 150"
definition DEFAULT_MAX_SOURCE_ENTRIES :: nat where "DEFAULT_MAX_SOURCE_ENTRIES = 100000"
definition DEFAULT_MAX_NOTE_ENTRIES :: nat where "DEFAULT_MAX_NOTE_ENTRIES = 60000"

record kad_local_store_config =
  cfg_enabled :: bool
  cfg_keyword_ttl :: duration
  cfg_source_ttl :: duration
  cfg_notes_ttl :: duration
  cfg_keyword_capacity :: nat
  cfg_source_capacity :: nat
  cfg_notes_capacity :: nat
  cfg_source_per_file_capacity :: nat
  cfg_notes_per_file_capacity :: nat

definition kad_local_store_config_default :: kad_local_store_config where
  "kad_local_store_config_default =
     \<lparr> cfg_enabled = False, cfg_keyword_ttl = from_secs 86400, cfg_source_ttl = from_secs (5 * 60 * 60),
       cfg_notes_ttl = from_secs 86400, cfg_keyword_capacity = STOCK_MAX_KEYWORD_ENTRIES,
       cfg_source_capacity = DEFAULT_MAX_SOURCE_ENTRIES, cfg_notes_capacity = DEFAULT_MAX_NOTE_ENTRIES,
       cfg_source_per_file_capacity = STOCK_MAX_SOURCES_PER_FILE, cfg_notes_per_file_capacity = STOCK_MAX_NOTES_PER_FILE \<rparr>"

record kad_local_store =
  ks_config :: kad_local_store_config
  ks_keyword_entries :: "stored_keyword_publish list"
  ks_source_entries :: "stored_source_publish list"
  ks_notes_entries :: "stored_notes_publish list"
  ks_keyword_tracker :: keyword_publish_tracker

definition kad_local_store_new :: "kad_local_store_config \<Rightarrow> kad_local_store" where
  "kad_local_store_new config =
     \<lparr> ks_config = config, ks_keyword_entries = [], ks_source_entries = [], ks_notes_entries = [],
       ks_keyword_tracker = tracker_default \<rparr>"

section \<open>Publishes\<close>

definition reconcile_keyword_tracker :: "kad_local_store \<Rightarrow> kad_local_store" where
  "reconcile_keyword_tracker s =
     s\<lparr> ks_keyword_tracker :=
          tracker_retain_keys (ks_keyword_tracker s) (map (\<lambda>e. (kw_target e, kw_file_hash e)) (ks_keyword_entries s)) \<rparr>"

definition purge_keywords :: "kad_local_store \<Rightarrow> system_time \<Rightarrow> kad_local_store" where
  "purge_keywords s now =
     s\<lparr> ks_keyword_entries := purge_expired kw_observed_at (ks_keyword_entries s) (cfg_keyword_ttl (ks_config s)) now,
        ks_keyword_tracker := tracker_prune_expired (ks_keyword_tracker s) (cfg_keyword_ttl (ks_config s)) now \<rparr>"

definition purge_sources :: "kad_local_store \<Rightarrow> system_time \<Rightarrow> kad_local_store" where
  "purge_sources s now =
     s\<lparr> ks_source_entries := purge_expired src_observed_at (ks_source_entries s) (cfg_source_ttl (ks_config s)) now \<rparr>"

definition purge_notes :: "kad_local_store \<Rightarrow> system_time \<Rightarrow> kad_local_store" where
  "purge_notes s now =
     s\<lparr> ks_notes_entries := purge_expired nt_observed_at (ks_notes_entries s) (cfg_notes_ttl (ks_config s)) now \<rparr>"

definition record_keyword_publish ::
  "node_id \<Rightarrow> ipv4 \<Rightarrow> system_time \<Rightarrow> publish_entry \<Rightarrow> u8 \<times> kad_local_store \<Rightarrow> u8 \<times> kad_local_store" where
  "record_keyword_publish target publisher_ip observed_at entry = (\<lambda>(load, s).
     case stock_keyword_file_size (pe_tags entry) of
       None \<Rightarrow> (load, s)
     | Some sz \<Rightarrow>
         if \<not> has_stock_keyword_filename (pe_tags entry) then (load, s)
         else let (entry_load, should_store) = stock_keyword_publish_decision (ks_keyword_entries s) target (pe_hash entry) in
           if \<not> should_store then (entry_load, s)
           else let dedup_key = keyword_dedup_key target (pe_hash entry) sz in
             (entry_load,
              s\<lparr> ks_keyword_entries :=
                   upsert_entry kw_observed_at kw_dedup_key (ks_keyword_entries s) (cfg_keyword_capacity (ks_config s)) dedup_key
                     \<lparr> kw_observed_at = observed_at, kw_target = target, kw_file_hash = pe_hash entry,
                       kw_tags = stock_stored_keyword_publish_tags (pe_tags entry), kw_dedup_key = dedup_key \<rparr>,
                 ks_keyword_tracker :=
                   tracker_record (ks_keyword_tracker s) target (pe_hash entry) publisher_ip
                     (stock_keyword_first_filename (pe_tags entry)) (stock_aich_publish_hash (pe_tags entry)) observed_at \<rparr>))"

definition record_keyword_publish_batch ::
  "kad_local_store \<Rightarrow> node_id \<Rightarrow> publish_entry list \<Rightarrow> ipv4 \<Rightarrow> system_time \<Rightarrow> u8 \<times> kad_local_store" where
  "record_keyword_publish_batch s target entries publisher_ip observed_at =
     (if \<not> cfg_enabled (ks_config s) then (0, s)
      else let (load, s) = fold (record_keyword_publish target publisher_ip observed_at) entries (0, purge_keywords s observed_at)
           in (load, reconcile_keyword_tracker s))"

definition record_source_publish ::
  "kad_local_store \<Rightarrow> node_id \<Rightarrow> node_id \<Rightarrow> ipv4 \<Rightarrow> u16 \<Rightarrow> tag list \<Rightarrow> system_time \<Rightarrow> u8 option \<times> kad_local_store" where
  "record_source_publish s target publisher_id source_ip source_udp_port tags observed_at =
     (if \<not> cfg_enabled (ks_config s) then (None, s)
      else if \<not> is_stock_source_publish tags then (None, s)
      else if octets source_ip = [0, 0, 0, 0] \<or> source_udp_port = 0 then (None, s)
      else case stock_source_tcp_port tags of
        None \<Rightarrow> (None, s)
      | Some source_tcp_port \<Rightarrow>
          let s = purge_sources s observed_at;
              load = stock_source_publish_load (ks_source_entries s) target (cfg_source_per_file_capacity (ks_config s))
                       source_ip source_tcp_port source_udp_port;
              (disposition, es) =
                upsert_source_entry (ks_source_entries s) (cfg_source_per_file_capacity (ks_config s))
                  (cfg_source_capacity (ks_config s))
                  \<lparr> src_observed_at = observed_at, src_target = target, src_publisher_id = publisher_id, src_ip = source_ip,
                    src_tcp_port = source_tcp_port, src_udp_port = source_udp_port,
                    src_tags = stock_stored_source_publish_tags tags,
                    src_dedup_key = source_dedup_key target source_ip source_tcp_port source_udp_port \<rparr>
          in (Some (disposition_publish_load disposition load), s\<lparr> ks_source_entries := es \<rparr>))"

definition record_notes_publish ::
  "kad_local_store \<Rightarrow> node_id \<Rightarrow> node_id \<Rightarrow> ipv4 \<Rightarrow> tag list \<Rightarrow> system_time \<Rightarrow> u8 option \<times> kad_local_store" where
  "record_notes_publish s target publisher_id publisher_ip tags observed_at =
     (if \<not> cfg_enabled (ks_config s) then (None, s)
      else if octets publisher_ip = [0, 0, 0, 0] \<or> \<not> has_stock_note_tags tags then (None, s)
      else
        let s = purge_notes s observed_at;
            load = stock_notes_publish_load (ks_notes_entries s) target (cfg_notes_per_file_capacity (ks_config s))
                     publisher_id publisher_ip;
            (disposition, es) =
              upsert_notes_entry (ks_notes_entries s) (cfg_notes_per_file_capacity (ks_config s))
                (cfg_notes_capacity (ks_config s))
                \<lparr> nt_observed_at = observed_at, nt_target = target, nt_publisher_id = publisher_id,
                  nt_publisher_ip = publisher_ip, nt_tags = stock_stored_publish_tags tags,
                  nt_dedup_key = notes_dedup_key target publisher_id publisher_ip \<rparr>
        in (Some (disposition_publish_load disposition load), s\<lparr> ks_notes_entries := es \<rparr>))"

section \<open>Searches\<close>

definition keyword_result :: "keyword_publish_tracker \<Rightarrow> stored_keyword_publish \<Rightarrow> search_result_entry" where
  "keyword_result tracker entry = SearchResultEntry (kw_file_hash entry) (keyword_result_tags entry tracker)"

text \<open>The loop over the entries under a budget. It gives the entries found so far and why it stopped.\<close>

fun keyword_search_loop ::
  "restrictive_search \<Rightarrow> node_id \<Rightarrow> nat \<Rightarrow> nat \<Rightarrow> keyword_publish_tracker \<Rightarrow> stored_keyword_publish list
     \<Rightarrow> search_budget \<Rightarrow> nat \<Rightarrow> search_result_entry list \<Rightarrow> stop_reason option \<times> search_result_entry list" where
  "keyword_search_loop search target limit rlimit tracker [] budget matched_offset results = (None, results)"
| "keyword_search_loop search target limit rlimit tracker (entry # es) budget matched_offset results =
     (case examine_candidate budget of
        (Inl reason, budget) \<Rightarrow> (Some reason, results)
      | (Inr _, budget) \<Rightarrow>
          if kw_target entry \<noteq> target
          then keyword_search_loop search target limit rlimit tracker es budget matched_offset results
          else case stock_first_filename (kw_tags entry) of
            None \<Rightarrow> keyword_search_loop search target limit rlimit tracker es budget matched_offset results
          | Some filename \<Rightarrow>
              case restrictive_matches search filename (kw_tags entry) budget of
                (Inl reason, budget) \<Rightarrow> (Some reason, results)
              | (Inr False, budget) \<Rightarrow> keyword_search_loop search target limit rlimit tracker es budget matched_offset results
              | (Inr True, budget) \<Rightarrow>
                  if matched_offset \<noteq> 0
                  then keyword_search_loop search target limit rlimit tracker es budget (matched_offset - 1) results
                  else if length results \<ge> rlimit
                  then ((if limit > rlimit then Some ResultsEmitted else None), results)
                  else case emit_result budget of
                    (Inl reason, budget) \<Rightarrow> (Some reason, results)
                  | (Inr _, budget) \<Rightarrow>
                      keyword_search_loop search target limit rlimit tracker es budget matched_offset
                        (results @ [keyword_result tracker entry]))"

definition keyword_search_response_with_limits ::
  "kad_local_store \<Rightarrow> node_id \<Rightarrow> search_key_req \<Rightarrow> nat \<Rightarrow> system_time \<Rightarrow> search_limits \<Rightarrow> search_res option \<times> kad_local_store" where
  "keyword_search_response_with_limits s sender_id request limit now restrictive_limits =
     (if \<not> cfg_enabled (ks_config s) \<or> limit = 0 then (None, s)
      else case (if sk_start_position request AND 0x8000 \<noteq> 0
                 then map_sum id Some (restrictive_parse (sk_restrictive_payload request) restrictive_limits) else Inr None) of
        Inl reason \<Rightarrow> (None, s)
      | Inr restrictive_search \<Rightarrow>
          let s = reconcile_keyword_tracker (purge_keywords s now);
              offset = unat (sk_start_position request AND 0x7FFF)
          in case restrictive_search of
            None \<Rightarrow>
              (search_response sender_id (sk_target request)
                 (map (keyword_result (ks_keyword_tracker s))
                    (take limit (drop offset (filter (\<lambda>entry. kw_target entry = sk_target request) (ks_keyword_entries s))))), s)
          | Some search \<Rightarrow>
              let budget = budget_new restrictive_limits (rs_parsed_ast_nodes search);
                  (stop_reason, results) =
                    keyword_search_loop search (sk_target request) limit (result_limit budget limit) (ks_keyword_tracker s)
                      (ks_keyword_entries s) budget offset []
              in (search_response sender_id (sk_target request) results, s))"

definition keyword_search_response ::
  "kad_local_store \<Rightarrow> node_id \<Rightarrow> search_key_req \<Rightarrow> nat \<Rightarrow> system_time \<Rightarrow> search_res option \<times> kad_local_store" where
  "keyword_search_response s sender_id request limit now =
     keyword_search_response_with_limits s sender_id request limit now DEFAULT_RESTRICTIVE_SEARCH_LIMITS"

definition source_search_response ::
  "kad_local_store \<Rightarrow> node_id \<Rightarrow> search_source_req \<Rightarrow> nat \<Rightarrow> system_time \<Rightarrow> search_res option \<times> kad_local_store" where
  "source_search_response s sender_id request limit now =
     (if \<not> cfg_enabled (ks_config s) \<or> limit = 0 then (None, s)
      else
        let s = purge_sources s now;
            offset = unat (ss_start_position request AND 0x7FFF)
        in (search_response sender_id (ss_target request)
              (map (\<lambda>entry. SearchResultEntry (source_entry_id (src_publisher_id entry)) (source_result_tags entry))
                 (take limit
                    (filter (\<lambda>entry. stock_source_file_size_matches_request (src_tags entry) (ss_size request))
                       (drop offset (filter (\<lambda>entry. src_target entry = ss_target request) (rev (ks_source_entries s))))))), s))"

definition notes_search_response ::
  "kad_local_store \<Rightarrow> node_id \<Rightarrow> search_notes_req \<Rightarrow> nat \<Rightarrow> system_time \<Rightarrow> search_res option \<times> kad_local_store" where
  "notes_search_response s sender_id request limit now =
     (if \<not> cfg_enabled (ks_config s) \<or> limit = 0 then (None, s)
      else
        let s = purge_notes s now
        in (search_response sender_id (sn_target request)
              (map (\<lambda>entry. SearchResultEntry (Ed2kHash (to_be_bytes (nt_publisher_id entry))) (notes_result_tags entry))
                 (take limit
                    (filter (\<lambda>entry. stock_notes_file_size_matches_request (nt_tags entry) (sn_size request))
                       (filter (\<lambda>entry. nt_target entry = sn_target request) (rev (ks_notes_entries s)))))), s))"

section \<open>Snapshots\<close>

record kad_keyword_publish_snapshot =
  kps_observed_at :: system_time
  kps_target :: node_id
  kps_file_hash :: ed2k_hash
  kps_tags :: "tag list"
  kps_load :: "u8 option"

record kad_source_publish_snapshot =
  sps_observed_at :: system_time
  sps_target :: node_id
  sps_publisher_id :: node_id
  sps_source_ip :: ipv4
  sps_source_tcp_port :: u16
  sps_source_udp_port :: u16
  sps_tags :: "tag list"
  sps_load :: "u8 option"

record kad_note_publish_snapshot =
  nps_observed_at :: system_time
  nps_target :: node_id
  nps_publisher_id :: node_id
  nps_publisher_ip :: ipv4
  nps_tags :: "tag list"
  nps_load :: "u8 option"

record kad_publish_cache_snapshot =
  snap_keyword_publishes :: "kad_keyword_publish_snapshot list"
  snap_source_publishes :: "kad_source_publish_snapshot list"
  snap_note_publishes :: "kad_note_publish_snapshot list"

definition keyword_snapshot :: "stored_keyword_publish \<Rightarrow> kad_keyword_publish_snapshot" where
  "keyword_snapshot entry =
     \<lparr> kps_observed_at = kw_observed_at entry, kps_target = kw_target entry, kps_file_hash = kw_file_hash entry,
       kps_tags = kw_tags entry, kps_load = None \<rparr>"

definition source_snapshot :: "stored_source_publish \<Rightarrow> kad_source_publish_snapshot" where
  "source_snapshot entry =
     \<lparr> sps_observed_at = src_observed_at entry, sps_target = src_target entry, sps_publisher_id = src_publisher_id entry,
       sps_source_ip = src_ip entry, sps_source_tcp_port = src_tcp_port entry, sps_source_udp_port = src_udp_port entry,
       sps_tags = src_tags entry, sps_load = None \<rparr>"

definition note_snapshot :: "stored_notes_publish \<Rightarrow> kad_note_publish_snapshot" where
  "note_snapshot entry =
     \<lparr> nps_observed_at = nt_observed_at entry, nps_target = nt_target entry, nps_publisher_id = nt_publisher_id entry,
       nps_publisher_ip = nt_publisher_ip entry, nps_tags = nt_tags entry, nps_load = None \<rparr>"

definition publish_snapshot :: "kad_local_store \<Rightarrow> system_time \<Rightarrow> kad_publish_cache_snapshot \<times> kad_local_store" where
  "publish_snapshot s now =
     (if \<not> cfg_enabled (ks_config s)
      then (\<lparr> snap_keyword_publishes = [], snap_source_publishes = [], snap_note_publishes = [] \<rparr>, s)
      else let s = purge_notes (purge_sources (reconcile_keyword_tracker (purge_keywords s now)) now) now
           in (\<lparr> snap_keyword_publishes = map keyword_snapshot (ks_keyword_entries s),
                 snap_source_publishes = map source_snapshot (ks_source_entries s),
                 snap_note_publishes = map note_snapshot (ks_notes_entries s) \<rparr>, s))"

definition merge_keyword_publish ::
  "kad_local_store_config \<Rightarrow> system_time \<Rightarrow> kad_keyword_publish_snapshot \<Rightarrow> stored_keyword_publish list \<Rightarrow> stored_keyword_publish list" where
  "merge_keyword_publish config now entry es =
     (if kps_observed_at entry + int (cfg_keyword_ttl config) \<le> now then es
      else case stock_keyword_file_size (kps_tags entry) of
        None \<Rightarrow> es
      | Some sz \<Rightarrow>
          let dedup_key = keyword_dedup_key (kps_target entry) (kps_file_hash entry) sz
          in upsert_entry kw_observed_at kw_dedup_key es (cfg_keyword_capacity config) dedup_key
               \<lparr> kw_observed_at = kps_observed_at entry, kw_target = kps_target entry, kw_file_hash = kps_file_hash entry,
                 kw_tags = stock_stored_keyword_publish_tags (kps_tags entry), kw_dedup_key = dedup_key \<rparr>)"

definition merge_source_publish ::
  "kad_local_store_config \<Rightarrow> system_time \<Rightarrow> kad_source_publish_snapshot \<Rightarrow> stored_source_publish list \<Rightarrow> stored_source_publish list" where
  "merge_source_publish config now entry es =
     (if sps_observed_at entry + int (cfg_source_ttl config) \<le> now \<or> octets (sps_source_ip entry) = [0, 0, 0, 0]
         \<or> sps_source_tcp_port entry = 0 \<or> sps_source_udp_port entry = 0 then es
      else snd (upsert_source_entry es (cfg_source_per_file_capacity config) (cfg_source_capacity config)
        \<lparr> src_observed_at = sps_observed_at entry, src_target = sps_target entry, src_publisher_id = sps_publisher_id entry,
          src_ip = sps_source_ip entry, src_tcp_port = sps_source_tcp_port entry, src_udp_port = sps_source_udp_port entry,
          src_tags = sps_tags entry,
          src_dedup_key = source_dedup_key (sps_target entry) (sps_source_ip entry) (sps_source_tcp_port entry)
            (sps_source_udp_port entry) \<rparr>))"

definition merge_note_publish ::
  "kad_local_store_config \<Rightarrow> system_time \<Rightarrow> kad_note_publish_snapshot \<Rightarrow> stored_notes_publish list \<Rightarrow> stored_notes_publish list" where
  "merge_note_publish config now entry es =
     (if nps_observed_at entry + int (cfg_notes_ttl config) \<le> now \<or> octets (nps_publisher_ip entry) = [0, 0, 0, 0] then es
      else snd (upsert_notes_entry es (cfg_notes_per_file_capacity config) (cfg_notes_capacity config)
        \<lparr> nt_observed_at = nps_observed_at entry, nt_target = nps_target entry, nt_publisher_id = nps_publisher_id entry,
          nt_publisher_ip = nps_publisher_ip entry, nt_tags = nps_tags entry,
          nt_dedup_key = notes_dedup_key (nps_target entry) (nps_publisher_id entry) (nps_publisher_ip entry) \<rparr>))"

definition merge_publish_snapshot :: "kad_local_store \<Rightarrow> kad_publish_cache_snapshot \<Rightarrow> system_time \<Rightarrow> kad_local_store" where
  "merge_publish_snapshot s snapshot now =
     (if \<not> cfg_enabled (ks_config s) then s
      else s\<lparr> ks_keyword_entries := fold (merge_keyword_publish (ks_config s) now) (snap_keyword_publishes snapshot) (ks_keyword_entries s),
              ks_source_entries := fold (merge_source_publish (ks_config s) now) (snap_source_publishes snapshot) (ks_source_entries s),
              ks_notes_entries := fold (merge_note_publish (ks_config s) now) (snap_note_publishes snapshot) (ks_notes_entries s) \<rparr>)"

definition keyword_entry_count :: "kad_local_store \<Rightarrow> nat" where
  "keyword_entry_count s = length (ks_keyword_entries s)"

definition source_entry_count :: "kad_local_store \<Rightarrow> nat" where
  "source_entry_count s = length (ks_source_entries s)"

definition keyword_cache_size :: "tag list \<Rightarrow> u64" where
  "keyword_cache_size tags = (case stock_keyword_file_size tags of Some sz \<Rightarrow> sz | None \<Rightarrow> 0)"

end
