(* ===== verification/Index_Runs.thy ===== *)
theory Index_Runs
  imports Index_Store Op_System
begin

text \<open>
  Runs of the publish cache: every sequence of publishes, searches, snapshots and merges keeps the capacities, the
  identity of the entries and the counts of the publisher tracker.
\<close>

section \<open>The invariant\<close>

definition keyword_entry_ok :: "stored_keyword_publish \<Rightarrow> bool" where
  "keyword_entry_ok e \<longleftrightarrow>
     stock_stored_keyword_publish_tags (kw_tags e) = kw_tags e
     \<and> (case stock_keyword_file_size (kw_tags e) of
          Some sz \<Rightarrow> kw_dedup_key e = keyword_dedup_key (kw_target e) (kw_file_hash e) sz
        | None \<Rightarrow> False)"

definition source_entry_ok :: "stored_source_publish \<Rightarrow> bool" where
  "source_entry_ok e \<longleftrightarrow>
     octets (src_ip e) \<noteq> [0, 0, 0, 0] \<and> src_tcp_port e \<noteq> 0 \<and> src_udp_port e \<noteq> 0
     \<and> src_dedup_key e = source_dedup_key (src_target e) (src_ip e) (src_tcp_port e) (src_udp_port e)"

definition note_entry_ok :: "stored_notes_publish \<Rightarrow> bool" where
  "note_entry_ok e \<longleftrightarrow>
     octets (nt_publisher_ip e) \<noteq> [0, 0, 0, 0]
     \<and> nt_dedup_key e = notes_dedup_key (nt_target e) (nt_publisher_id e) (nt_publisher_ip e)"

definition keywords_ok :: "nat \<Rightarrow> stored_keyword_publish list \<Rightarrow> bool" where
  "keywords_ok capacity es \<longleftrightarrow>
     length es \<le> max 1 capacity \<and> distinct (map kw_dedup_key es) \<and> (\<forall>e \<in> set es. keyword_entry_ok e)"

definition bounded_ok :: "('e \<Rightarrow> node_id) \<Rightarrow> ('e \<Rightarrow> bool) \<Rightarrow> nat \<Rightarrow> nat \<Rightarrow> 'e list \<Rightarrow> bool" where
  "bounded_ok target_of entry_ok per_file capacity es \<longleftrightarrow>
     length es \<le> capacity \<and> (\<forall>t. target_count target_of es t \<le> Suc per_file) \<and> (\<forall>e \<in> set es. entry_ok e)"

definition tracker_bounded :: "nat \<Rightarrow> keyword_publish_tracker \<Rightarrow> bool" where
  "tracker_bounded n t \<longleftrightarrow> tracker_ok t \<and> length (kt_entries t) \<le> n"

definition store_ok :: "kad_local_store_config \<Rightarrow> kad_local_store \<Rightarrow> bool" where
  "store_ok config s \<longleftrightarrow>
     ks_config s = config
     \<and> keywords_ok (cfg_keyword_capacity config) (ks_keyword_entries s)
     \<and> bounded_ok src_target source_entry_ok (cfg_source_per_file_capacity config) (cfg_source_capacity config) (ks_source_entries s)
     \<and> bounded_ok nt_target note_entry_ok (cfg_notes_per_file_capacity config) (cfg_notes_capacity config) (ks_notes_entries s)
     \<and> tracker_bounded (max 1 (cfg_keyword_capacity config)) (ks_keyword_tracker s)"

lemmas store_ok_defs = store_ok_def keywords_ok_def bounded_ok_def tracker_bounded_def

text \<open>Dropping the tags that only answers carry leaves the size as it is.\<close>

lemma size_step_ignores:
  "t_name tag \<noteq> Short FT_FILESIZE \<Longrightarrow> t_name tag \<noteq> Short FT_FILESIZE_HI \<Longrightarrow> stock_size_step b tag p = p"
  by (auto simp: stock_size_step_def split: tag_name.split tag_value.split)

lemma fold_size_filter:
  assumes "\<And>tag. \<not> P tag \<Longrightarrow> t_name tag \<noteq> Short FT_FILESIZE \<and> t_name tag \<noteq> Short FT_FILESIZE_HI"
  shows "fold (stock_size_step b) (filter P tags) p = fold (stock_size_step b) tags p"
  by (induction tags arbitrary: p) (auto dest!: assms simp: size_step_ignores)

lemma stored_size [simp]: "stock_keyword_file_size (stock_stored_keyword_publish_tags tags) = stock_keyword_file_size tags"
  unfolding stock_keyword_file_size_def stock_first_keyword_source_file_size_def stock_first_file_size_impl_def
    stock_stored_keyword_publish_tags_def stock_stored_publish_tags_def filter_filter
  by (subst fold_size_filter)
    (auto simp: FT_FILESIZE_def FT_FILESIZE_HI_def FT_PUBLISHINFO_def FT_KADAICHHASHRESULT_def FT_KADAICHHASHPUB_def)

lemma stored_tags_idem [simp]:
  "stock_stored_keyword_publish_tags (stock_stored_keyword_publish_tags tags) = stock_stored_keyword_publish_tags tags"
  by (auto simp: stock_stored_keyword_publish_tags_def stock_stored_publish_tags_def intro: filter_cong)

lemma new_keyword_ok:
  "stock_keyword_file_size tags = Some sz \<Longrightarrow>
   keyword_entry_ok \<lparr> kw_observed_at = t, kw_target = target, kw_file_hash = h, kw_tags = stock_stored_keyword_publish_tags tags,
     kw_dedup_key = keyword_dedup_key target h sz \<rparr>"
  by (simp add: keyword_entry_ok_def)

section \<open>Every operation keeps it\<close>

lemma keywords_ok_upsert:
  assumes "keywords_ok capacity es" "keyword_entry_ok e" "kw_dedup_key e = key"
  shows "keywords_ok capacity (upsert_entry kw_observed_at kw_dedup_key es capacity key e)"
  using assms upsert_entry_set [of kw_observed_at kw_dedup_key es capacity key e]
    upsert_entry_length [of es capacity kw_observed_at kw_dedup_key key e] upsert_entry_keys [of kw_dedup_key es e key]
  unfolding keywords_ok_def by blast

lemma keywords_ok_purge: "keywords_ok capacity es \<Longrightarrow> keywords_ok capacity (purge_expired kw_observed_at es ttl now)"
  using purge_expired_length [of kw_observed_at es ttl now] unfolding keywords_ok_def
  by (auto simp: purge_expired_def intro: distinct_map_filter order_trans [OF length_filter_le])

lemma bounded_ok_purge: "bounded_ok target_of ok per_file capacity es \<Longrightarrow> bounded_ok target_of ok per_file capacity (purge_expired f es ttl now)"
  using purge_expired_length [of f es ttl now] purge_expired_le [of _ f es ttl now] unfolding bounded_ok_def
  by (fastforce intro: order_trans)

lemma bounded_upsert_set: "set (snd (bounded_upsert target_of same es per_file capacity e)) \<subseteq> insert e (set es)"
  using set_remove_at_subset set_update_subset_insert
  by (cases rule: bounded_upsert_cases [of es target_of e same per_file capacity]) fastforce+

lemma bounded_ok_upsert:
  assumes "bounded_ok target_of ok per_file capacity es" "ok e"
  shows "bounded_ok target_of ok per_file capacity (snd (bounded_upsert target_of same es per_file capacity e))"
  using assms bounded_upsert_caps [where es = es and capacity = capacity and target_of = target_of and per_file = per_file
      and same = same and entry = e] bounded_upsert_set [of target_of same es per_file capacity e]
  unfolding bounded_ok_def by blast

lemma tracked_size:
  assumes "tracker_wf t"
  shows "size (tracked_ips (kt_entries t)) \<le> 100 * length (kt_entries t)"
proof -
  have "size (tracked_ips es) \<le> 100 * length es" if "\<forall>(key, publishers) \<in> set es. length publishers \<le> 100" for es
    using that by (induction es) auto
  with assms show ?thesis by (auto simp: tracker_wf_def STOCK_MAX_KEYWORD_PUBLISHERS_def)
qed

lemma tracker_bounded_size: "tracker_bounded n t \<Longrightarrow> size (tracked_ips (kt_entries t)) \<le> 100 * n"
  using tracked_size [of t] by (auto simp: tracker_bounded_def tracker_ok_def)

lemma length_alist_update: "length (AList.update k d es) \<le> Suc (length es)"
  by (induction es) auto

lemma tracker_bounded_record:
  assumes "tracker_bounded n t" "100 * n < 2 ^ 32 - 1"
  shows "tracker_bounded (Suc n) (tracker_record t target h ip name aich now)"
proof -
  have "length (kt_entries (tracker_record t target h ip name aich now)) \<le> Suc (length (kt_entries t))"
    by (auto simp: tracker_record_def Let_def length_alist_update split: option.split prod.split)
  then show ?thesis
    using assms tracker_record_ok [OF _ _ refl, of t] tracker_bounded_size [OF assms(1)] by (auto simp: tracker_bounded_def)
qed

lemma tracker_bounded_prune: "tracker_bounded n t \<Longrightarrow> 100 * n < 2 ^ 32 \<Longrightarrow> tracker_bounded n (tracker_prune_expired t ttl now)"
  using tracker_prune_ok(1) [of t ttl now] tracker_bounded_size [of n t]
  by (auto simp: tracker_bounded_def tracker_prune_expired_def)

lemma tracker_bounded_retain:
  assumes "tracker_bounded n t" "100 * n < 2 ^ 32"
  shows "tracker_bounded (length live) (tracker_retain_keys t live)"
proof -
  let ?kept = "map fst (filter (\<lambda>(key, _). key \<in> set live) (kt_entries t))"
  have "distinct ?kept" using assms(1) by (auto simp: tracker_bounded_def tracker_ok_def tracker_wf_def intro: distinct_map_filter)
  then have "length ?kept = card (set ?kept)" by (rule distinct_card [symmetric])
  also have "\<dots> \<le> card (set live)" by (rule card_mono) auto
  also have "\<dots> \<le> length live" by (rule card_length)
  finally show ?thesis
    using tracker_retain_ok(1) [of t live] tracker_bounded_size [OF assms(1)] assms
    by (auto simp: tracker_bounded_def tracker_retain_keys_def)
qed

text \<open>Capacities for which no count of publisher addresses can reach \<open>2 ^ 32\<close>, with a batch of at most \<open>2 ^ 16 - 1\<close> entries.\<close>

definition config_sane :: "kad_local_store_config \<Rightarrow> bool" where
  "config_sane config \<longleftrightarrow> cfg_keyword_capacity config \<le> 2 ^ 25"

lemma purge_keywords_ok: "config_sane config \<Longrightarrow> store_ok config s \<Longrightarrow> store_ok config (purge_keywords s now)"
  by (auto simp: store_ok_def purge_keywords_def config_sane_def intro!: keywords_ok_purge tracker_bounded_prune)

lemma purge_sources_ok: "store_ok config s \<Longrightarrow> store_ok config (purge_sources s now)"
  by (auto simp: store_ok_def purge_sources_def intro: bounded_ok_purge)

lemma purge_notes_ok: "store_ok config s \<Longrightarrow> store_ok config (purge_notes s now)"
  by (auto simp: store_ok_def purge_notes_def intro: bounded_ok_purge)

text \<open>While a batch is recorded, the tracker may hold keys of entries that were evicted again.\<close>

definition batch_ok :: "kad_local_store_config \<Rightarrow> nat \<Rightarrow> kad_local_store \<Rightarrow> bool" where
  "batch_ok config k s \<longleftrightarrow>
     store_ok config (s\<lparr> ks_keyword_tracker := tracker_default \<rparr>)
     \<and> tracker_bounded (max 1 (cfg_keyword_capacity config) + k) (ks_keyword_tracker s)"

lemma tracker_default_ok: "tracker_bounded n tracker_default"
  by (auto simp: tracker_bounded_def tracker_ok_def tracker_wf_def tracker_default_def counts_exact_def)

lemma store_ok_batch: "store_ok config s \<Longrightarrow> batch_ok config 0 s"
  by (simp add: batch_ok_def store_ok_def tracker_default_ok)

lemma tracker_bounded_mono: "tracker_bounded n t \<Longrightarrow> n \<le> m \<Longrightarrow> tracker_bounded m t"
  by (simp add: tracker_bounded_def)

lemma reconcile_ok:
  assumes "batch_ok config k s" "config_sane config" "k \<le> 65535"
  shows "store_ok config (reconcile_keyword_tracker s)"
proof -
  have room: "100 * (max 1 (cfg_keyword_capacity config) + k) < 2 ^ 32" using assms(2,3) by (simp add: config_sane_def)
  have "tracker_bounded (max 1 (cfg_keyword_capacity config) + k) (ks_keyword_tracker s)" using assms(1) by (simp add: batch_ok_def)
  from tracker_bounded_retain [OF this room, of "map (\<lambda>e. (kw_target e, kw_file_hash e)) (ks_keyword_entries s)"]
  have "tracker_bounded (length (ks_keyword_entries s)) (ks_keyword_tracker (reconcile_keyword_tracker s))"
    by (simp add: reconcile_keyword_tracker_def)
  with assms(1) show ?thesis
    by (auto simp: batch_ok_def store_ok_def keywords_ok_def reconcile_keyword_tracker_def intro: tracker_bounded_mono)
qed

lemma record_keyword_publish_ok:
  assumes "batch_ok config k s" "config_sane config" "k < 65535"
  shows "batch_ok config (Suc k) (snd (record_keyword_publish target ip now e (load, s)))"
proof (cases "snd (record_keyword_publish target ip now e (load, s)) = s")
  case True
  with assms(1) show ?thesis by (auto simp: batch_ok_def intro: tracker_bounded_mono)
next
  case False
  then obtain sz where sz: "stock_keyword_file_size (pe_tags e) = Some sz"
    and s': "snd (record_keyword_publish target ip now e (load, s)) =
      s\<lparr> ks_keyword_entries := upsert_entry kw_observed_at kw_dedup_key (ks_keyword_entries s) (cfg_keyword_capacity (ks_config s))
            (keyword_dedup_key target (pe_hash e) sz)
            \<lparr> kw_observed_at = now, kw_target = target, kw_file_hash = pe_hash e,
              kw_tags = stock_stored_keyword_publish_tags (pe_tags e), kw_dedup_key = keyword_dedup_key target (pe_hash e) sz \<rparr>,
         ks_keyword_tracker := tracker_record (ks_keyword_tracker s) target (pe_hash e) ip
            (stock_keyword_first_filename (pe_tags e)) (stock_aich_publish_hash (pe_tags e)) now \<rparr>"
    by (auto simp: record_keyword_publish_def Let_def split: option.splits if_splits prod.splits)
  have room: "100 * (max 1 (cfg_keyword_capacity config) + k) < 2 ^ 32 - 1" using assms(2,3) by (simp add: config_sane_def)
  show ?thesis
    unfolding s' batch_ok_def
    using assms(1) keywords_ok_upsert [OF _ new_keyword_ok [OF sz]] tracker_bounded_record [OF _ room]
    by (simp add: batch_ok_def store_ok_def)
qed

lemma record_batch_ok:
  assumes "batch_ok config k s" "config_sane config" "k + length entries \<le> 65535"
  shows "batch_ok config (k + length entries) (snd (fold (record_keyword_publish target ip now) entries (load, s)))"
  using assms
proof (induction entries arbitrary: k load s)
  case (Cons e entries)
  obtain load' s' where r: "record_keyword_publish target ip now e (load, s) = (load', s')" by fastforce
  with record_keyword_publish_ok [OF Cons.prems(1,2), of target ip now e load] Cons.prems(3)
  have "batch_ok config (Suc k) s'" by simp
  from Cons.IH [OF this Cons.prems(2)] Cons.prems(3) r show ?case by simp
qed simp

lemma record_keyword_publish_batch_ok:
  assumes "store_ok config s" "config_sane config" "length entries \<le> 65535"
  shows "store_ok config (snd (record_keyword_publish_batch s target entries ip now))"
proof (cases "cfg_enabled (ks_config s)")
  case True
  from record_batch_ok [OF store_ok_batch [OF purge_keywords_ok [OF assms(2,1)]] assms(2), of entries] assms(3)
  have "batch_ok config (length entries) (snd (fold (record_keyword_publish target ip now) entries (0, purge_keywords s now)))"
    by simp
  from reconcile_ok [OF this assms(2,3)] True show ?thesis by (simp add: record_keyword_publish_batch_def split_beta)
qed (simp add: record_keyword_publish_batch_def assms(1))

lemma find_map_Some: "find_map f xs = Some y \<Longrightarrow> \<exists>x \<in> set xs. f x = Some y"
  by (induction xs) (auto split: option.splits)

lemma source_tcp_port_nonzero: "stock_source_tcp_port tags = Some tcp \<Longrightarrow> tcp \<noteq> 0"
  by (auto simp: stock_source_tcp_port_def source_tcp_port_of_def filter_option_def
      dest!: find_map_Some split: if_splits option.splits)

lemma record_source_publish_ok:
  assumes "store_ok config s"
  shows "store_ok config (snd (record_source_publish s target publisher ip udp tags now))"
proof (cases "snd (record_source_publish s target publisher ip udp tags now) = s")
  case False
  then obtain tcp where tcp: "stock_source_tcp_port tags = Some tcp" and ok: "octets ip \<noteq> [0, 0, 0, 0]" "udp \<noteq> 0"
    and s': "snd (record_source_publish s target publisher ip udp tags now) =
      (purge_sources s now)\<lparr> ks_source_entries := snd (upsert_source_entry (ks_source_entries (purge_sources s now))
         (cfg_source_per_file_capacity (ks_config (purge_sources s now))) (cfg_source_capacity (ks_config (purge_sources s now)))
         \<lparr> src_observed_at = now, src_target = target, src_publisher_id = publisher, src_ip = ip, src_tcp_port = tcp,
           src_udp_port = udp, src_tags = stock_stored_source_publish_tags tags,
           src_dedup_key = source_dedup_key target ip tcp udp \<rparr>) \<rparr>"
    by (auto simp: record_source_publish_def Let_def split_beta split: option.splits if_splits)
  have "tcp \<noteq> 0" using tcp by (rule source_tcp_port_nonzero)
  then show ?thesis
    using purge_sources_ok [OF assms, of now] ok unfolding s'
    by (simp add: store_ok_def upsert_source_bounded bounded_ok_upsert source_entry_ok_def)
qed (simp add: assms)

lemma record_notes_publish_ok:
  assumes "store_ok config s"
  shows "store_ok config (snd (record_notes_publish s target publisher ip tags now))"
proof (cases "snd (record_notes_publish s target publisher ip tags now) = s")
  case False
  then have ok: "octets ip \<noteq> [0, 0, 0, 0]"
    and s': "snd (record_notes_publish s target publisher ip tags now) =
      (purge_notes s now)\<lparr> ks_notes_entries := snd (upsert_notes_entry (ks_notes_entries (purge_notes s now))
         (cfg_notes_per_file_capacity (ks_config (purge_notes s now))) (cfg_notes_capacity (ks_config (purge_notes s now)))
         \<lparr> nt_observed_at = now, nt_target = target, nt_publisher_id = publisher, nt_publisher_ip = ip,
           nt_tags = stock_stored_publish_tags tags, nt_dedup_key = notes_dedup_key target publisher ip \<rparr>) \<rparr>"
    by (auto simp: record_notes_publish_def Let_def split_beta split: if_splits)
  then show ?thesis
    using purge_notes_ok [OF assms, of now] unfolding s'
    by (simp add: store_ok_def upsert_notes_bounded bounded_ok_upsert note_entry_ok_def)
qed (simp add: assms)

lemma reconcile_purged_ok:
  "config_sane config \<Longrightarrow> store_ok config s \<Longrightarrow> store_ok config (reconcile_keyword_tracker (purge_keywords s now))"
  by (rule reconcile_ok [OF store_ok_batch [OF purge_keywords_ok]]) simp_all

lemma keyword_search_store:
  "snd (keyword_search_response_with_limits s sender request limit now limits) \<in> {s, reconcile_keyword_tracker (purge_keywords s now)}"
  by (auto simp: keyword_search_response_with_limits_def Let_def split_beta split: sum.split option.split)

lemma keyword_search_ok:
  "config_sane config \<Longrightarrow> store_ok config s \<Longrightarrow> store_ok config (snd (keyword_search_response_with_limits s sender request limit now limits))"
  using keyword_search_store [of s sender request limit now limits] reconcile_purged_ok [of config s now] by auto

lemma source_search_ok: "store_ok config s \<Longrightarrow> store_ok config (snd (source_search_response s sender srequest limit now))"
  by (auto simp: source_search_response_def Let_def intro: purge_sources_ok)

lemma notes_search_ok: "store_ok config s \<Longrightarrow> store_ok config (snd (notes_search_response s sender nrequest limit now))"
  by (auto simp: notes_search_response_def Let_def intro: purge_notes_ok)

lemma publish_snapshot_ok: "config_sane config \<Longrightarrow> store_ok config s \<Longrightarrow> store_ok config (snd (publish_snapshot s now))"
  by (auto simp: publish_snapshot_def Let_def intro!: purge_notes_ok purge_sources_ok reconcile_purged_ok)

lemma fold_keeps: "(\<And>x s. P s \<Longrightarrow> P (f x s)) \<Longrightarrow> P s \<Longrightarrow> P (fold f xs s)"
  by (induction xs arbitrary: s) auto

lemma merge_publish_snapshot_ok:
  assumes "store_ok config s"
  shows "store_ok config (merge_publish_snapshot s snapshot now)"
proof -
  have k: "keywords_ok (cfg_keyword_capacity config) (merge_keyword_publish config now e es)"
    if "keywords_ok (cfg_keyword_capacity config) es" for e es
    using that by (auto simp: merge_keyword_publish_def Let_def new_keyword_ok intro!: keywords_ok_upsert split: option.split)
  have s: "bounded_ok src_target source_entry_ok (cfg_source_per_file_capacity config) (cfg_source_capacity config)
      (merge_source_publish config now e es)"
    if "bounded_ok src_target source_entry_ok (cfg_source_per_file_capacity config) (cfg_source_capacity config) es" for e es
    using that by (auto simp: merge_source_publish_def upsert_source_bounded source_entry_ok_def intro!: bounded_ok_upsert)
  have n: "bounded_ok nt_target note_entry_ok (cfg_notes_per_file_capacity config) (cfg_notes_capacity config)
      (merge_note_publish config now e es)"
    if "bounded_ok nt_target note_entry_ok (cfg_notes_per_file_capacity config) (cfg_notes_capacity config) es" for e es
    using that by (auto simp: merge_note_publish_def upsert_notes_bounded note_entry_ok_def intro!: bounded_ok_upsert)
  note folds = fold_keeps [of "keywords_ok _", OF k] fold_keeps [of "bounded_ok src_target _ _ _", OF s]
    fold_keeps [of "bounded_ok nt_target _ _ _", OF n]
  show ?thesis using assms by (simp add: merge_publish_snapshot_def store_ok_def folds)
qed

section \<open>Runs\<close>

datatype index_op =
    RecordKeywords node_id "publish_entry list" ipv4 system_time
  | RecordSource node_id node_id ipv4 u16 "tag list" system_time
  | RecordNotes node_id node_id ipv4 "tag list" system_time
  | SearchKeywords node_id search_key_req nat system_time
  | SearchSources node_id search_source_req nat system_time
  | SearchNotes node_id search_notes_req nat system_time
  | TakeSnapshot system_time
  | MergeSnapshot kad_publish_cache_snapshot system_time

fun index_step :: "index_op \<Rightarrow> kad_local_store \<Rightarrow> kad_local_store" where
  "index_step (RecordKeywords target es ip now) s = snd (record_keyword_publish_batch s target es ip now)"
| "index_step (RecordSource target publisher ip udp tags now) s = snd (record_source_publish s target publisher ip udp tags now)"
| "index_step (RecordNotes target publisher ip tags now) s = snd (record_notes_publish s target publisher ip tags now)"
| "index_step (SearchKeywords sender request limit now) s = snd (keyword_search_response s sender request limit now)"
| "index_step (SearchSources sender request limit now) s = snd (source_search_response s sender request limit now)"
| "index_step (SearchNotes sender request limit now) s = snd (notes_search_response s sender request limit now)"
| "index_step (TakeSnapshot now) s = snd (publish_snapshot s now)"
| "index_step (MergeSnapshot snapshot now) s = merge_publish_snapshot s snapshot now"

text \<open>The count of a publish packet has 16 bits.\<close>

fun index_op_allowed :: "kad_local_store \<Rightarrow> index_op \<Rightarrow> bool" where
  "index_op_allowed s (RecordKeywords target es ip now) \<longleftrightarrow> length es \<le> 65535"
| "index_op_allowed s _ \<longleftrightarrow> True"

lemma index_step_ok:
  assumes "config_sane config" "store_ok config s" "index_op_allowed s op"
  shows "store_ok config (index_step op s)"
  using assms
  by (cases op) (simp_all add: keyword_search_response_def record_keyword_publish_batch_ok record_source_publish_ok
      record_notes_publish_ok keyword_search_ok source_search_ok notes_search_ok publish_snapshot_ok merge_publish_snapshot_ok)

interpretation index_system: op_system index_step index_op_allowed "\<lambda>s. config_sane config \<and> store_ok config s" for config
  by unfold_locales (simp add: index_step_ok)

lemma new_store_ok: "store_ok config (kad_local_store_new config)"
  by (auto simp: store_ok_defs kad_local_store_new_def tracker_default_ok [unfolded tracker_bounded_def])

lemma index_run_ok:
  assumes "config_sane config" "allowed_run index_op_allowed index_step (kad_local_store_new config) ops"
  shows "store_ok config (fold index_step ops (kad_local_store_new config))"
  using index_system.run_keeps [OF _ assms(2), of config] assms(1) new_store_ok by blast

section \<open>Properties of runs\<close>

lemma keyword_identity_distinct:
  assumes "keywords_ok capacity es"
  shows "distinct (map (\<lambda>e. (kw_target e, kw_file_hash e, stock_keyword_file_size (kw_tags e))) es)"
proof -
  have same: "kw_dedup_key x = kw_dedup_key y"
    if "x \<in> set es" "y \<in> set es"
      "(kw_target x, kw_file_hash x, stock_keyword_file_size (kw_tags x)) = (kw_target y, kw_file_hash y, stock_keyword_file_size (kw_tags y))"
    for x y
  proof -
    have "keyword_entry_ok x" "keyword_entry_ok y" using assms that(1,2) by (simp_all add: keywords_ok_def)
    with that(3) show ?thesis by (simp add: keyword_entry_ok_def split: option.splits)
  qed
  have d: "distinct es" "inj_on kw_dedup_key (set es)" using assms by (simp_all add: keywords_ok_def distinct_map)
  have "inj_on (\<lambda>e. (kw_target e, kw_file_hash e, stock_keyword_file_size (kw_tags e))) (set es)"
    by (rule inj_onI) (rule inj_onD [OF d(2) same])
  with d(1) show ?thesis by (simp add: distinct_map)
qed

lemma load_exact:
  assumes "n \<le> Suc cap"
  shows "unat (word_of_nat (n * 100 div max cap 1) :: u8) = n * 100 div max cap 1" "n * 100 div max cap 1 \<le> 100 + 100 div max cap 1"
proof -
  have "n * 100 div max cap 1 \<le> 100 + 100 div max cap 1"
  proof (cases "cap = 0")
    case False
    have "n * 100 div cap \<le> (100 + cap * 100) div cap" using assms by (intro div_le_mono) simp
    also have "\<dots> = 100 + 100 div cap" using False by simp
    finally show ?thesis using False by simp
  qed (use assms in simp)
  then show le: "n * 100 div max cap 1 \<le> 100 + 100 div max cap 1" .
  have "100 div max cap 1 \<le> (100 :: nat)" by (rule div_le_dividend)
  with le have "n * 100 div max cap 1 < 256" by linarith
  then show "unat (word_of_nat (n * 100 div max cap 1) :: u8) = n * 100 div max cap 1"
    by (simp add: unsigned_of_nat take_bit_nat_eq_self)
qed

text \<open>C5: In every run of the publish cache, with batches of at most 65535 entries, the stores stay within their
  capacities: keyword entries have pairwise distinct target, file and size and are at most as many as configured
  (one, for a capacity of zero), and no file has more than one source or note above its limit.\<close>

theorem index_runs_bounded:
  assumes "cfg_keyword_capacity config \<le> 2 ^ 25" "allowed_run index_op_allowed index_step (kad_local_store_new config) ops"
  shows "let s = fold index_step ops (kad_local_store_new config) in
      keyword_entry_count s \<le> max 1 (cfg_keyword_capacity config)
      \<and> distinct (map (\<lambda>e. (kw_target e, kw_file_hash e, stock_keyword_file_size (kw_tags e))) (ks_keyword_entries s))
      \<and> source_entry_count s \<le> cfg_source_capacity config
      \<and> length (ks_notes_entries s) \<le> cfg_notes_capacity config
      \<and> length (filter (\<lambda>e. src_target e = target) (ks_source_entries s)) \<le> cfg_source_per_file_capacity config + 1
      \<and> length (filter (\<lambda>e. nt_target e = target) (ks_notes_entries s)) \<le> cfg_notes_per_file_capacity config + 1"
proof -
  let ?s = "fold index_step ops (kad_local_store_new config)"
  have ok: "store_ok config ?s" using assms by (intro index_run_ok) (simp_all add: config_sane_def)
  then have "distinct (map (\<lambda>e. (kw_target e, kw_file_hash e, stock_keyword_file_size (kw_tags e))) (ks_keyword_entries ?s))"
    by (auto simp: store_ok_def intro: keyword_identity_distinct)
  with ok show ?thesis
    by (simp add: Let_def store_ok_def keywords_ok_def bounded_ok_def keyword_entry_count_def source_entry_count_def)
qed

definition example_config :: kad_local_store_config where
  "example_config =
     \<lparr> cfg_enabled = True, cfg_keyword_ttl = 50, cfg_source_ttl = 50, cfg_notes_ttl = 50, cfg_keyword_capacity = 2,
       cfg_source_capacity = 3, cfg_notes_capacity = 3, cfg_source_per_file_capacity = 1, cfg_notes_per_file_capacity = 1 \<rparr>"

definition example_source_tags :: "tag list" where
  "example_source_tags = [new_short FT_SOURCETYPE (VU8 1), new_short FT_SOURCEPORT (VU16 7)]"

definition example_source_op :: "u8 \<Rightarrow> u16 \<Rightarrow> system_time \<Rightarrow> index_op" where
  "example_source_op host udp now = RecordSource id_ZERO id_ZERO (Ipv4 1 2 3 host) udp example_source_tags now"

definition example_run :: "index_op list" where
  "example_run =
     [example_source_op 4 1 0, example_source_op 5 2 1, example_source_op 6 3 2,
      RecordNotes id_ZERO id_ZERO (Ipv4 1 2 3 4) example_tags 3]"

lemma example_config_caps:
  "cfg_keyword_capacity example_config \<le> 2 ^ 25" "cfg_source_per_file_capacity example_config = 1"
  by (simp_all add: example_config_def)

lemma example_run_allowed: "allowed_run index_op_allowed index_step s example_run"
  by (simp add: example_run_def example_source_op_def)

text \<open>Three sources of one file, of which the limit of one keeps two, and a note.\<close>

theorem index_runs_bounded_witness:
  "let s = fold index_step example_run (kad_local_store_new example_config) in
     length (ks_notes_entries s) = 1 \<and> source_entry_count s = 2
     \<and> length (filter (\<lambda>e. src_target e = id_ZERO) (ks_source_entries s)) \<le> 2"
proof -
  have "length (ks_notes_entries (fold index_step example_run (kad_local_store_new example_config))) = 1"
    "source_entry_count (fold index_step example_run (kad_local_store_new example_config)) = 2" by code_simp+
  with index_runs_bounded [OF _ example_run_allowed, of example_config id_ZERO] show ?thesis
    by (simp add: example_config_def Let_def)
qed

text \<open>C38: In every run of the publish cache the tracker's counter of a /24 network is the number of associations of a
  tracked keyword entry with a publisher address of that network (absent at zero), although it is only ever changed
  by increments and decrements. No entry has more than 100 publishers, and no more entries are tracked than the
  keyword capacity.\<close>

theorem index_runs_count_publishers:
  assumes "cfg_keyword_capacity config \<le> 2 ^ 25" "allowed_run index_op_allowed index_step (kad_local_store_new config) ops"
  shows "let t = ks_keyword_tracker (fold index_step ops (kad_local_store_new config));
             n = size (filter_mset (\<lambda>ip. ip_subnet24 ip = subnet)
                   (mset (concat (map (\<lambda>(key, publishers). map fst publishers) (kt_entries t)))))
         in kt_global_subnet_counts t subnet = (if n = 0 then None else Some (word_of_nat n)) \<and> n < 2 ^ 32
            \<and> distinct (map fst (kt_entries t)) \<and> length (kt_entries t) \<le> max 1 (cfg_keyword_capacity config)
            \<and> list_all (\<lambda>(key, publishers). distinct (map fst publishers) \<and> length publishers \<le> 100) (kt_entries t)"
proof -
  let ?t = "ks_keyword_tracker (fold index_step ops (kad_local_store_new config))"
  from index_run_ok [OF _ assms(2)] assms(1) have b: "tracker_bounded (max 1 (cfg_keyword_capacity config)) ?t"
    by (simp add: config_sane_def store_ok_def)
  let ?n = "in_subnet_count (tracked_ips (kt_entries ?t)) subnet"
  have small: "?n < 2 ^ 32"
    using in_subnet_count_le [of "tracked_ips (kt_entries ?t)" subnet] tracker_bounded_size [OF b] assms(1) by simp
  have exact: "kt_global_subnet_counts ?t subnet = (if ?n = 0 then None else Some (word_of_nat ?n))"
    using b unfolding tracker_bounded_def tracker_ok_def counts_exact_def by blast
  show ?thesis
    unfolding Let_def in_subnet_count_def [symmetric] tracked_ips_def [symmetric]
    using small exact b by (simp add: tracker_bounded_def tracker_ok_def tracker_wf_def list_all_iff STOCK_MAX_KEYWORD_PUBLISHERS_def)
qed

definition example_keyword_run :: "index_op list" where
  "example_keyword_run = [RecordKeywords id_ZERO [PublishEntry (Ed2kHash (wire_bytes id_ZERO)) example_tags] (Ipv4 1 2 3 4) 3]"

theorem index_runs_count_publishers_witness:
  "let t = ks_keyword_tracker (fold index_step example_keyword_run (kad_local_store_new example_config))
   in kt_global_subnet_counts t (1, 2, 3) = Some 1 \<and> length (kt_entries t) = 1"
proof -
  have run: "allowed_run index_op_allowed index_step (kad_local_store_new example_config) example_keyword_run"
    by (simp add: example_keyword_run_def)
  have tags: "stock_keyword_file_size example_tags = Some 9" "has_stock_keyword_filename example_tags" by code_simp+
  have entries: "map (\<lambda>(key, publishers). map fst publishers)
      (kt_entries (ks_keyword_tracker (fold index_step example_keyword_run (kad_local_store_new example_config)))) = [[Ipv4 1 2 3 4]]"
    by (simp add: example_keyword_run_def record_keyword_publish_batch_def kad_local_store_new_def example_config_def
        purge_keywords_def record_keyword_publish_def tags stock_keyword_publish_decision_def keyword_source_count_def
        purge_expired_def tracker_default_def tracker_prune_expired_def tracker_record_def reconcile_keyword_tracker_def
        tracker_retain_keys_def upsert_entry_def STOCK_MAX_KEYWORD_PUBLISHERS_def)
  have "length (kt_entries (ks_keyword_tracker (fold index_step example_keyword_run (kad_local_store_new example_config)))) = 1"
    using arg_cong [OF entries, of length] by simp
  moreover note index_runs_count_publishers [OF example_config_caps(1) run, of "(1, 2, 3)", unfolded Let_def entries]
  ultimately show ?thesis by (simp add: ip_subnet24_def)
qed

text \<open>In every run the load that a source or note publish is answered with is the exact percentage of the file's
  limit: the narrowing to eight bits loses nothing, and the percentage is at most 100 for limits above 100.\<close>

theorem publish_loads_exact:
  assumes "cfg_keyword_capacity config \<le> 2 ^ 25" "allowed_run index_op_allowed index_step (kad_local_store_new config) ops"
  shows "let s = fold index_step ops (kad_local_store_new config);
             sources = length (filter (\<lambda>e. src_target e = target) (ks_source_entries s));
             notes = length (filter (\<lambda>e. nt_target e = target) (ks_notes_entries s));
             source_cap = cfg_source_per_file_capacity config; notes_cap = cfg_notes_per_file_capacity config
         in unat (stock_source_publish_load (ks_source_entries s) target source_cap ip tcp udp)
              = (if sources = 0 then 1
                 else if source_cap < sources \<and> \<not> source_replacement_matches (ks_source_entries s) target ip tcp udp then 100
                 else sources * 100 div max source_cap 1)
            \<and> unat (stock_notes_publish_load (ks_notes_entries s) target notes_cap publisher ip)
              = (if notes = 0 then 1
                 else if notes_cap < notes \<and> \<not> notes_replacement_matches (ks_notes_entries s) target publisher ip then 100
                 else notes * 100 div max notes_cap 1)
            \<and> sources * 100 div max source_cap 1 \<le> 100 + 100 div max source_cap 1
            \<and> notes * 100 div max notes_cap 1 \<le> 100 + 100 div max notes_cap 1"
proof -
  let ?s = "fold index_step ops (kad_local_store_new config)"
  from index_run_ok [OF _ assms(2)] assms(1)
  have "target_count src_target (ks_source_entries ?s) target \<le> Suc (cfg_source_per_file_capacity config)"
    "target_count nt_target (ks_notes_entries ?s) target \<le> Suc (cfg_notes_per_file_capacity config)"
    by (simp_all add: config_sane_def store_ok_def bounded_ok_def)
  from load_exact [OF this(1)] load_exact [OF this(2)] show ?thesis
    by (simp add: Let_def stock_source_publish_load_def stock_notes_publish_load_def)
qed

theorem publish_loads_exact_witness:
  "unat (stock_source_publish_load (ks_source_entries (fold index_step example_run (kad_local_store_new example_config)))
     id_ZERO 1 (Ipv4 1 2 3 6) 7 3) = 200"
proof -
  let ?s = "fold index_step example_run (kad_local_store_new example_config)"
  have n: "length (filter (\<lambda>e. src_target e = id_ZERO) (ks_source_entries ?s)) = 2" by code_simp
  have "source_replacement_matches (ks_source_entries ?s) id_ZERO (Ipv4 1 2 3 6) 7 3" by code_simp
  with publish_loads_exact [OF example_config_caps(1) example_run_allowed, of id_ZERO "Ipv4 1 2 3 6" 7 3 id_ZERO,
      unfolded Let_def n example_config_caps(2)]
  show ?thesis by simp
qed

end
