(* ===== verification/Index_Search.thy ===== *)
theory Index_Search
  imports Index_Runs
begin

text \<open>
  What searches of the publish cache answer: a keyword search finds the entries that the reference matcher of the
  protocol crate accepts, up to its work limits, and a published source is found.
\<close>

section \<open>What a keyword search finds\<close>

definition wanted :: "node_id \<Rightarrow> bytes \<Rightarrow> stored_keyword_publish \<Rightarrow> bool" where
  "wanted target payload e \<longleftrightarrow>
     kw_target e = target
     \<and> (case stock_first_filename (kw_tags e) of
          None \<Rightarrow> False
        | Some filename \<Rightarrow> matches_restrictive_keyword_payload filename (kw_tags e) payload)"

definition total_tags :: "stored_keyword_publish list \<Rightarrow> nat" where
  "total_tags es = sum_list (map (\<lambda>e. length (kw_tags e)) es)"

text \<open>The work that is left suffices to examine the given entries.\<close>

definition work_left :: "restrictive_search \<Rightarrow> stored_keyword_publish list \<Rightarrow> search_budget \<Rightarrow> bool" where
  "work_left search es b \<longleftrightarrow>
     candidate_entries (budget_work b) + length es \<le> lim_candidate_entries (budget_limits b)
     \<and> compared b + rs_parsed_ast_nodes search * total_tags es \<le> compare_limit b"

lemma total_tags_Cons [simp]: "total_tags (e # es) = length (kw_tags e) + total_tags es" "total_tags [] = 0"
  by (simp_all add: total_tags_def)

text \<open>One round of the loop: it stops for want of work, or it goes on with a budget that still suffices for the rest.\<close>

lemma keyword_search_round [consumes 1, case_names stopped on]:
  fixes limit rlimit off :: nat and target :: node_id and tracker :: keyword_publish_tracker
  assumes "restrictive_parse payload limits = Inr search"
  defines "loop \<equiv> keyword_search_loop search target limit rlimit tracker"
  obtains (stopped) reason where "loop (e # es) b off results = (Some reason, results)" "\<not> work_left search (e # es) b"
  | (on) c where "results_emitted (budget_work c) = results_emitted (budget_work b)" "budget_limits c = budget_limits b"
      "work_left search (e # es) b \<Longrightarrow> work_left search es c"
      "loop (e # es) b off results =
         (if \<not> wanted target payload e then loop es c off results
          else if off \<noteq> 0 then loop es c (off - 1) results
          else if length results \<ge> rlimit then ((if limit > rlimit then Some ResultsEmitted else None), results)
          else case emit_result c of (Inl reason, d) \<Rightarrow> (Some reason, results)
            | (Inr _, d) \<Rightarrow> loop es d off (results @ [keyword_result tracker e]))"
proof (cases "lim_candidate_entries (budget_limits b) \<le> candidate_entries (budget_work b)")
  case True
  show ?thesis by (rule stopped [of CandidateEntries]) (use True in \<open>simp_all add: loop_def examine_candidate_def work_left_def\<close>)
next
  case False
  define c where "c = b\<lparr> budget_work := (budget_work b)\<lparr> candidate_entries := candidate_entries (budget_work b) + 1 \<rparr> \<rparr>"
  have ex: "examine_candidate b = (Inr (), c)" using False by (simp add: examine_candidate_def c_def)
  show ?thesis
  proof (cases "kw_target e = target \<and> stock_first_filename (kw_tags e) \<noteq> None")
    case False
    then have "loop (e # es) b off results = loop es c off results" "\<not> wanted target payload e"
      by (auto simp: loop_def ex wanted_def)
    then show ?thesis by (intro on [of c]) (simp_all add: work_left_def c_def algebra_simps)
  next
    case True
    then obtain f where f: "kw_target e = target" "stock_first_filename (kw_tags e) = Some f" by blast
    then have w: "wanted target payload e = matches_restrictive_keyword_payload f (kw_tags e) payload" by (simp add: wanted_def)
    show ?thesis
    proof (rule computesE [OF restrictive_matches_computes [OF assms(1), of f "kw_tags e"], of c])
      fix k assume k: "restrictive_matches search f (kw_tags e) c = (Inl ComparedTagValues, spend k c)"
        "compare_limit c < compared c + rs_parsed_ast_nodes search * length (kw_tags e)"
      show ?thesis
        by (rule stopped [of ComparedTagValues])
          (use k in \<open>simp_all add: loop_def ex f work_left_def c_def algebra_simps\<close>)
    next
      fix k assume k: "k \<le> rs_parsed_ast_nodes search * length (kw_tags e)"
        "restrictive_matches search f (kw_tags e) c = (Inr (matches_restrictive_keyword_payload f (kw_tags e) payload), spend k c)"
      show ?thesis
        by (rule on [of "spend k c", unfolded loop_def])
          (use k in \<open>simp_all add: loop_def ex f w work_left_def c_def spend_def algebra_simps split: bool.split\<close>)
    qed
  qed
qed

lemma keyword_search_loop_finds:
  assumes "restrictive_parse payload limits = Inr search"
    and "results_emitted (budget_work b) = length results" "rlimit \<le> lim_results_emitted (budget_limits b)"
    and "length results \<le> rlimit"
  shows "\<exists>n \<le> rlimit - length results.
      snd (keyword_search_loop search target limit rlimit tracker es b off results)
        = results @ map (keyword_result tracker) (take n (drop off (filter (wanted target payload) es)))
      \<and> (work_left search es b \<longrightarrow> n = rlimit - length results)"
  using assms(2-)
proof (induction es arbitrary: b off results)
  case Nil
  then show ?case by (intro exI [of _ "rlimit - length results"]) simp
next
  case (Cons e es)
  let ?loop = "keyword_search_loop search target limit rlimit tracker"
  from assms(1) show ?case
  proof (cases rule: keyword_search_round [where target = target and limit = limit and rlimit = rlimit and tracker = tracker
        and e = e and es = es and b = b and off = off and results = results])
    case (stopped reason)
    then show ?thesis by (intro exI [of _ 0]) simp
  next
    case (on c)
    note c = on(1) [unfolded Cons.prems(1)] Cons.prems(2) [folded on(2)]
    consider "\<not> wanted target payload e" | "wanted target payload e" "off \<noteq> 0"
      | "wanted target payload e" "off = 0" "rlimit \<le> length results" | "wanted target payload e" "off = 0" "length results < rlimit"
      by linarith
    then show ?thesis
    proof cases
      case 1
      then show ?thesis unfolding on(4) using Cons.IH [OF c Cons.prems(3), of off] on(3) by auto
    next
      case 2
      then have "drop off (filter (wanted target payload) (e # es)) = drop (off - 1) (filter (wanted target payload) es)"
        by (cases off) simp_all
      then show ?thesis unfolding on(4) using 2 Cons.IH [OF c Cons.prems(3), of "off - 1"] on(3) by auto
    next
      case 3
      then show ?thesis unfolding on(4) by (intro exI [of _ 0]) simp
    next
      case 4
      define d where "d = c\<lparr> budget_work := (budget_work c)\<lparr> results_emitted := results_emitted (budget_work c) + 1 \<rparr> \<rparr>"
      have em: "emit_result c = (Inr (), d)" using c 4 by (simp add: emit_result_def d_def)
      have d: "results_emitted (budget_work d) = length (results @ [keyword_result tracker e])"
        "rlimit \<le> lim_results_emitted (budget_limits d)" "length (results @ [keyword_result tracker e]) \<le> rlimit"
        using c 4 by (simp_all add: d_def)
      have left: "work_left search (e # es) b \<Longrightarrow> work_left search es d" using on(3) by (simp add: work_left_def d_def)
      from Cons.IH [OF d, of off] obtain n where "n \<le> rlimit - length (results @ [keyword_result tracker e])"
        "snd (?loop es d off (results @ [keyword_result tracker e]))
           = (results @ [keyword_result tracker e]) @ map (keyword_result tracker) (take n (drop off (filter (wanted target payload) es)))"
        "work_left search es d \<longrightarrow> n = rlimit - length (results @ [keyword_result tracker e])" by blast
      with 4 left em show ?thesis unfolding on(4) by (intro exI [of _ "Suc n"]) auto
    qed
  qed
qed

section \<open>Properties of searches\<close>

definition keyword_matches :: "search_key_req \<Rightarrow> stored_keyword_publish \<Rightarrow> bool" where
  "keyword_matches request e \<longleftrightarrow>
     (if sk_start_position request AND 0x8000 \<noteq> 0 then wanted (sk_target request) (sk_restrictive_payload request) e
      else kw_target e = sk_target request)"

lemma restrictive_parse_succeeds:
  assumes "parse_search_term 0 payload = Inr (t, rest)" "term_nodes t \<le> lim_parsed_ast_nodes limits"
  shows "\<exists>search. restrictive_parse payload limits = Inr search \<and> rs_parsed_ast_nodes search = term_nodes t"
  using assms parse_search_term_agrees [of "lim_parsed_ast_nodes limits" 0 0 payload]
  by (auto simp: restrictive_parse_def split: sum.splits)

lemma keyword_loop_response:
  assumes "restrictive_parse payload limits = Inr search"
  shows "\<exists>n \<le> min limit (lim_results_emitted limits).
      snd (keyword_search_loop search target limit (result_limit (budget_new limits k) limit) tracker es (budget_new limits k) off [])
        = map (keyword_result tracker) (take n (drop off (filter (wanted target payload) es)))
      \<and> (length es \<le> lim_candidate_entries limits \<and> rs_parsed_ast_nodes search * total_tags es \<le> lim_compared_tag_values limits
          \<longrightarrow> n = min limit (lim_results_emitted limits))"
proof -
  have "result_limit (budget_new limits k) limit = min limit (lim_results_emitted limits)"
    by (simp add: result_limit_def budget_new_def)
  with keyword_search_loop_finds [OF assms, of "budget_new limits k" "[]" "min limit (lim_results_emitted limits)" target limit tracker es off]
  show ?thesis by (simp add: budget_new_def work_left_def)
qed

text \<open>C39: A keyword search answers with the live entries of its target that the reference matcher accepts, in the
  order of the store and after skipping the requested number of them. Without an expression it gives as many as asked
  for. With one it gives at most 300, and all of the first 300 unless a limit on its work is exceeded: 64 terms, 4096
  entries in the store, or 32768 comparisons of a term with a tag.\<close>

theorem keyword_search_exact:
  fixes s :: kad_local_store and request :: search_key_req and now :: system_time
  assumes "cfg_enabled (ks_config s)" "0 < limit"
  defines "live \<equiv> purge_expired kw_observed_at (ks_keyword_entries s) (cfg_keyword_ttl (ks_config s)) now"
    and "tracker \<equiv> ks_keyword_tracker (reconcile_keyword_tracker (purge_keywords s now))"
    and "off \<equiv> unat (sk_start_position request AND 0x7FFF)"
  shows "\<exists>n \<le> limit.
      fst (keyword_search_response s sender request limit now)
        = search_response sender (sk_target request)
            (map (keyword_result tracker) (take n (drop off (filter (keyword_matches request) live))))
      \<and> (sk_start_position request AND 0x8000 = 0 \<longrightarrow> n = limit)
      \<and> (\<forall>t rest. sk_start_position request AND 0x8000 \<noteq> 0
            \<and> parse_search_term 0 (sk_restrictive_payload request) = Inr (t, rest) \<and> term_nodes t \<le> 64
            \<and> length live \<le> 4096 \<and> term_nodes t * total_tags live \<le> 32768 \<longrightarrow> n = min limit 300)"
proof -
  have entries: "ks_keyword_entries (reconcile_keyword_tracker (purge_keywords s now)) = live"
    by (simp add: reconcile_keyword_tracker_def purge_keywords_def live_def)
  note def = keyword_search_response_def keyword_search_response_with_limits_def
  let ?limits = DEFAULT_RESTRICTIVE_SEARCH_LIMITS
  note limits = DEFAULT_RESTRICTIVE_SEARCH_LIMITS_def
  show ?thesis
  proof (cases "sk_start_position request AND 0x8000 = 0")
    case True
    then have "fst (keyword_search_response s sender request limit now) = search_response sender (sk_target request)
        (map (keyword_result tracker) (take limit (drop off (filter (keyword_matches request) live))))"
      using assms(1,2) by (simp add: def Let_def entries off_def tracker_def keyword_matches_def [abs_def])
    with True show ?thesis by auto
  next
    case False
    show ?thesis
    proof (cases "restrictive_parse (sk_restrictive_payload request) ?limits")
      case (Inl e)
      then have "fst (keyword_search_response s sender request limit now) = None" using False by (simp add: def)
      moreover have "\<not> (parse_search_term 0 (sk_restrictive_payload request) = Inr (t, rest) \<and> term_nodes t \<le> 64)" for t rest
        using restrictive_parse_succeeds [of "sk_restrictive_payload request" t rest ?limits] Inl by (auto simp: limits)
      ultimately show ?thesis using False by (intro exI [of _ 0]) (auto simp: search_response_def)
    next
      case (Inr search)
      have nodes: "rs_parsed_ast_nodes search = term_nodes t"
        if "parse_search_term 0 (sk_restrictive_payload request) = Inr (t, rest)" for t rest
        using restrictive_parse_Inr [OF Inr] that by auto
      have matches: "filter (keyword_matches request) live = filter (wanted (sk_target request) (sk_restrictive_payload request)) live"
        using False by (simp add: keyword_matches_def [abs_def])
      let ?b = "budget_new ?limits (rs_parsed_ast_nodes search)"
      have response: "fst (keyword_search_response s sender request limit now) = search_response sender (sk_target request)
          (snd (keyword_search_loop search (sk_target request) limit (result_limit ?b limit) tracker live ?b off []))"
        using assms(1,2) False Inr by (simp add: def Let_def entries off_def tracker_def split_beta)
      have work: "lim_results_emitted ?limits = 300" "lim_candidate_entries ?limits = 4096" "lim_compared_tag_values ?limits = 32768"
        by (simp_all add: limits)
      obtain n where "n \<le> min limit 300" "snd (keyword_search_loop search (sk_target request) limit (result_limit ?b limit) tracker live ?b off [])
          = map (keyword_result tracker) (take n (drop off (filter (wanted (sk_target request) (sk_restrictive_payload request)) live)))"
        "length live \<le> 4096 \<and> rs_parsed_ast_nodes search * total_tags live \<le> 32768 \<longrightarrow> n = min limit 300"
        using keyword_loop_response [OF Inr, of limit "sk_target request" "rs_parsed_ast_nodes search" tracker live off, unfolded work] by blast
      then show ?thesis using False nodes response by (intro exI [of _ n]) (auto simp: matches)
    qed
  qed
qed

definition example_entry :: "tag list \<Rightarrow> stored_keyword_publish" where
  "example_entry tags =
     \<lparr> kw_observed_at = 0, kw_target = id_ZERO, kw_file_hash = Ed2kHash (wire_bytes id_ZERO), kw_tags = tags, kw_dedup_key = [] \<rparr>"

definition example_store :: kad_local_store where
  "example_store =
     (kad_local_store_new example_config)\<lparr> ks_keyword_entries := [example_entry [tag_filename [0x6F], tag_filesize 9], example_entry example_tags] \<rparr>"

definition example_request :: search_key_req where
  "example_request = SearchKeyReq id_ZERO 0x8000 example_payload"

text \<open>Of two entries, the expression \<^verbatim>\<open>"Ka" AND size > 5\<close> finds the second.\<close>

theorem keyword_search_exact_witness:
  "map_option (\<lambda>r. map se_entry_id (sr_results r)) (fst (keyword_search_response example_store id_ZERO example_request 10 5))
     = Some [Ed2kHash (wire_bytes id_ZERO)]"
proof -
  let ?live = "purge_expired kw_observed_at (ks_keyword_entries example_store) (cfg_keyword_ttl (ks_config example_store)) 5"
  have found: "filter (keyword_matches example_request) ?live = [example_entry example_tags]" by code_simp
  have "case parse_search_term 0 example_payload of Inr (t, rest) \<Rightarrow> term_nodes t = 3 | Inl _ \<Rightarrow> False" by code_simp
  then obtain t rest where t: "parse_search_term 0 (sk_restrictive_payload example_request) = Inr (t, rest)" "term_nodes t = 3"
    by (auto simp: example_request_def split: sum.splits)
  have small: "length ?live = 2" "total_tags ?live = 4" by code_simp+
  have head: "cfg_enabled (ks_config example_store)" "sk_start_position example_request AND 0x8000 \<noteq> 0"
    "unat (sk_start_position example_request AND 0x7FFF) = 0" by code_simp+
  from keyword_search_exact [OF head(1), of 10 id_ZERO example_request 5] t small head(2) found
  show ?thesis by (auto simp: head(3) search_response_def keyword_result_def example_entry_def)
qed

section \<open>Published sources are found\<close>






end
