(* ===== verification/Index_Snapshot.thy ===== *)
theory Index_Snapshot
  imports Index_Search
begin

text \<open>
  \<^verbatim>\<open>emulebb-index/src/kad_publish_snapshot.rs\<close> and the records of \<^verbatim>\<open>emulebb-metadata/src/kad_publish_model.rs\<close>: a
  snapshot of the publish cache in the form that the metadata database stores. The range of times that \<^verbatim>\<open>chrono\<close>
  represents is the argument \<open>ms_ok\<close>; the textual form of IPv4 addresses is that of the standard library. The lemmas
  show that a snapshot is read back from its stored form, and that merging it into a new cache restores the cache.
\<close>

section \<open>Addresses as text\<close>

definition is_ascii_digit :: "u8 \<Rightarrow> bool" where
  "is_ascii_digit c \<longleftrightarrow> 0x30 \<le> c \<and> c \<le> 0x39"

definition digits_value :: "bytes \<Rightarrow> nat" where
  "digits_value ds = foldl (\<lambda>acc c. acc * 10 + unat (c - 0x30)) 0 ds"

definition read_octet :: "bytes \<Rightarrow> (u8 \<times> bytes) option" where
  "read_octet s =
     (let ds = takeWhile is_ascii_digit s in
      if length ds > 3 \<or> ds = [] \<or> (hd ds = 0x30 \<and> length ds > 1) \<or> digits_value ds > 255 then None
      else Some (word_of_nat (digits_value ds), dropWhile is_ascii_digit s))"

definition read_dot_octet :: "bytes \<Rightarrow> (u8 \<times> bytes) option" where
  "read_dot_octet s = (case s of [] \<Rightarrow> None | c # rest \<Rightarrow> if c = 0x2E then read_octet rest else None)"

definition ipv4_from_str :: "bytes \<Rightarrow> ipv4 option" where
  "ipv4_from_str s =
     (if length s > 15 then None
      else case read_octet s of None \<Rightarrow> None | Some (a, s) \<Rightarrow>
        (case read_dot_octet s of None \<Rightarrow> None | Some (b, s) \<Rightarrow>
          (case read_dot_octet s of None \<Rightarrow> None | Some (c, s) \<Rightarrow>
            (case read_dot_octet s of None \<Rightarrow> None | Some (d, s) \<Rightarrow> if s = [] then Some (Ipv4 a b c d) else None))))"

section \<open>Stored records\<close>

record metadata_kad_keyword_publish =
  mk_size_bytes :: u64
  mk_target_node_id :: bytes
  mk_file_hash :: bytes
  mk_raw_tags :: bytes
  mk_load :: "u8 option"
  mk_observed_at_ms :: int

record metadata_kad_source_publish =
  ms_target_node_id :: bytes
  ms_publisher_id :: bytes
  ms_file_hash :: bytes
  ms_source_ip :: bytes
  ms_source_tcp_port :: u16
  ms_source_udp_port :: u16
  ms_raw_tags :: bytes
  ms_load :: "u8 option"
  ms_observed_at_ms :: int

record metadata_kad_note_publish =
  mn_target_node_id :: bytes
  mn_publisher_id :: bytes
  mn_publisher_ip :: bytes
  mn_file_hash :: "bytes option"
  mn_raw_tags :: bytes
  mn_load :: "u8 option"
  mn_observed_at_ms :: int

record metadata_kad_publish_cache =
  mc_keyword_publishes :: "metadata_kad_keyword_publish list"
  mc_source_publishes :: "metadata_kad_source_publish list"
  mc_note_publishes :: "metadata_kad_note_publish list"

datatype snapshot_error =
    TagListTooLong
  | TagEncoding binrw_error
  | TagCountMissing
  | InvalidTagPayload binrw_error
  | TrailingTagBytes
  | KeywordIdentityDiffers
  | InvalidTimestamp int
  | InvalidIdentifier
  | InvalidAddress
  | ParsePanicked

section \<open>Writing\<close>

fun collect_results :: "('a \<Rightarrow> 'e + 'b) \<Rightarrow> 'a list \<Rightarrow> 'e + 'b list" where
  "collect_results f [] = Inr []"
| "collect_results f (x # xs) = try_bind (f x) (\<lambda>y. try_bind (collect_results f xs) (\<lambda>ys. Inr (y # ys)))"

definition encode_tags :: "tag list \<Rightarrow> snapshot_error + bytes" where
  "encode_tags tags =
     (if length tags > 65535 then Inl TagListTooLong
      else try_bind (map_err TagEncoding (write_all write_tag tags)) (\<lambda>bs.
        Inr (to_le 2 (word_of_nat (length tags) :: u16) @ bs)))"

definition target_file_hash :: "node_id \<Rightarrow> ed2k_hash" where
  "target_file_hash target = Ed2kHash (to_be_bytes target)"

definition timestamp_millis :: "system_time \<Rightarrow> int" where
  "timestamp_millis t = t div 1000000"

definition metadata_keyword_publish :: "kad_keyword_publish_snapshot \<Rightarrow> snapshot_error + metadata_kad_keyword_publish" where
  "metadata_keyword_publish p =
     try_bind (encode_tags (kps_tags p)) (\<lambda>raw_tags.
       Inr \<lparr> mk_size_bytes = keyword_cache_size (kps_tags p), mk_target_node_id = node_display (kps_target p),
             mk_file_hash = hash_display (kps_file_hash p), mk_raw_tags = raw_tags, mk_load = kps_load p,
             mk_observed_at_ms = timestamp_millis (kps_observed_at p) \<rparr>)"

definition metadata_source_publish :: "kad_source_publish_snapshot \<Rightarrow> snapshot_error + metadata_kad_source_publish" where
  "metadata_source_publish p =
     try_bind (encode_tags (sps_tags p)) (\<lambda>raw_tags.
       Inr \<lparr> ms_target_node_id = node_display (sps_target p), ms_publisher_id = node_display (sps_publisher_id p),
             ms_file_hash = hash_display (target_file_hash (sps_target p)), ms_source_ip = ipv4_display (sps_source_ip p),
             ms_source_tcp_port = sps_source_tcp_port p, ms_source_udp_port = sps_source_udp_port p, ms_raw_tags = raw_tags,
             ms_load = sps_load p, ms_observed_at_ms = timestamp_millis (sps_observed_at p) \<rparr>)"

definition metadata_note_publish :: "kad_note_publish_snapshot \<Rightarrow> snapshot_error + metadata_kad_note_publish" where
  "metadata_note_publish p =
     try_bind (encode_tags (nps_tags p)) (\<lambda>raw_tags.
       Inr \<lparr> mn_target_node_id = node_display (nps_target p), mn_publisher_id = node_display (nps_publisher_id p),
             mn_publisher_ip = ipv4_display (nps_publisher_ip p),
             mn_file_hash = Some (hash_display (target_file_hash (nps_target p))), mn_raw_tags = raw_tags,
             mn_load = nps_load p, mn_observed_at_ms = timestamp_millis (nps_observed_at p) \<rparr>)"

definition metadata_from_publish_snapshot :: "kad_publish_cache_snapshot \<Rightarrow> snapshot_error + metadata_kad_publish_cache" where
  "metadata_from_publish_snapshot snapshot =
     try_bind (collect_results metadata_keyword_publish (snap_keyword_publishes snapshot)) (\<lambda>keywords.
     try_bind (collect_results metadata_source_publish (snap_source_publishes snapshot)) (\<lambda>sources.
     try_bind (collect_results metadata_note_publish (snap_note_publishes snapshot)) (\<lambda>notes.
       Inr \<lparr> mc_keyword_publishes = keywords, mc_source_publishes = sources, mc_note_publishes = notes \<rparr>)))"

section \<open>Reading\<close>

definition decode_tags :: "(bytes \<Rightarrow> bytes) \<Rightarrow> bytes \<Rightarrow> snapshot_error + tag list" where
  "decode_tags legacy raw =
     (case read_u16 raw of
        Inl _ \<Rightarrow> Inl TagCountMissing
      | Inr (tag_count, rest) \<Rightarrow>
          (case read_times (read_tag legacy) (unat tag_count) rest of
             Inl e \<Rightarrow> Inl (InvalidTagPayload e)
           | Inr (tags, rest) \<Rightarrow> if rest \<noteq> [] then Inl TrailingTagBytes else Inr tags))"

definition timestamp_ms :: "(int \<Rightarrow> bool) \<Rightarrow> int \<Rightarrow> snapshot_error + system_time" where
  "timestamp_ms ms_ok v = (if ms_ok v then Inr (v * 1000000) else Inl (InvalidTimestamp v))"

definition parse_id :: "'a parse_outcome \<Rightarrow> snapshot_error + 'a" where
  "parse_id r = (case r of ParseOk x \<Rightarrow> Inr x | parse_outcome.InvalidNodeId \<Rightarrow> Inl InvalidIdentifier | Panic \<Rightarrow> Inl ParsePanicked)"

definition parse_ip :: "bytes \<Rightarrow> snapshot_error + ipv4" where
  "parse_ip s = (case ipv4_from_str s of Some ip \<Rightarrow> Inr ip | None \<Rightarrow> Inl InvalidAddress)"

definition keyword_publish_from_metadata ::
  "(bytes \<Rightarrow> bytes) \<Rightarrow> (int \<Rightarrow> bool) \<Rightarrow> metadata_kad_keyword_publish \<Rightarrow> snapshot_error + kad_keyword_publish_snapshot" where
  "keyword_publish_from_metadata legacy ms_ok p =
     try_bind (decode_tags legacy (mk_raw_tags p)) (\<lambda>tags.
       if mk_size_bytes p \<noteq> keyword_cache_size tags then Inl KeywordIdentityDiffers
       else try_bind (timestamp_ms ms_ok (mk_observed_at_ms p)) (\<lambda>observed_at.
         try_bind (parse_id (node_from_str (mk_target_node_id p))) (\<lambda>target.
         try_bind (parse_id (hash_from_str (mk_file_hash p))) (\<lambda>file_hash.
           Inr \<lparr> kps_observed_at = observed_at, kps_target = target, kps_file_hash = file_hash, kps_tags = tags,
                 kps_load = mk_load p \<rparr>))))"

definition source_publish_from_metadata ::
  "(bytes \<Rightarrow> bytes) \<Rightarrow> (int \<Rightarrow> bool) \<Rightarrow> metadata_kad_source_publish \<Rightarrow> snapshot_error + kad_source_publish_snapshot" where
  "source_publish_from_metadata legacy ms_ok p =
     try_bind (timestamp_ms ms_ok (ms_observed_at_ms p)) (\<lambda>observed_at.
     try_bind (parse_id (node_from_str (ms_target_node_id p))) (\<lambda>target.
     try_bind (parse_id (node_from_str (ms_publisher_id p))) (\<lambda>publisher_id.
     try_bind (parse_ip (ms_source_ip p)) (\<lambda>source_ip.
     try_bind (decode_tags legacy (ms_raw_tags p)) (\<lambda>tags.
       Inr \<lparr> sps_observed_at = observed_at, sps_target = target, sps_publisher_id = publisher_id, sps_source_ip = source_ip,
             sps_source_tcp_port = ms_source_tcp_port p, sps_source_udp_port = ms_source_udp_port p, sps_tags = tags,
             sps_load = ms_load p \<rparr>)))))"

definition note_publish_from_metadata ::
  "(bytes \<Rightarrow> bytes) \<Rightarrow> (int \<Rightarrow> bool) \<Rightarrow> metadata_kad_note_publish \<Rightarrow> snapshot_error + kad_note_publish_snapshot" where
  "note_publish_from_metadata legacy ms_ok p =
     try_bind (timestamp_ms ms_ok (mn_observed_at_ms p)) (\<lambda>observed_at.
     try_bind (parse_id (node_from_str (mn_target_node_id p))) (\<lambda>target.
     try_bind (parse_id (node_from_str (mn_publisher_id p))) (\<lambda>publisher_id.
     try_bind (parse_ip (mn_publisher_ip p)) (\<lambda>publisher_ip.
     try_bind (decode_tags legacy (mn_raw_tags p)) (\<lambda>tags.
       Inr \<lparr> nps_observed_at = observed_at, nps_target = target, nps_publisher_id = publisher_id,
             nps_publisher_ip = publisher_ip, nps_tags = tags, nps_load = mn_load p \<rparr>)))))"

definition publish_snapshot_from_metadata ::
  "(bytes \<Rightarrow> bytes) \<Rightarrow> (int \<Rightarrow> bool) \<Rightarrow> metadata_kad_publish_cache \<Rightarrow> snapshot_error + kad_publish_cache_snapshot" where
  "publish_snapshot_from_metadata legacy ms_ok metadata =
     try_bind (collect_results (keyword_publish_from_metadata legacy ms_ok) (mc_keyword_publishes metadata)) (\<lambda>keywords.
     try_bind (collect_results (source_publish_from_metadata legacy ms_ok) (mc_source_publishes metadata)) (\<lambda>sources.
     try_bind (collect_results (note_publish_from_metadata legacy ms_ok) (mc_note_publishes metadata)) (\<lambda>notes.
       Inr \<lparr> snap_keyword_publishes = keywords, snap_source_publishes = sources, snap_note_publishes = notes \<rparr>)))"

section \<open>Addresses are read back\<close>

lemma decimal_digits: "list_all is_ascii_digit (decimal n)"
proof (induction n rule: decimal.induct)
  case (1 n)
  have "n mod 10 < 10" by simp
  then have "is_ascii_digit (0x30 + word_of_nat (n mod 10))"
    by (simp add: is_ascii_digit_def word_le_nat_alt unat_word_ariths unat_of_nat take_bit_nat_eq_self)
  with 1 show ?case by (subst decimal.simps) auto
qed

lemma digit_value: "d < 10 \<Longrightarrow> unat (word_of_nat d :: u8) = d"
  by (simp add: unat_of_nat take_bit_nat_eq_self)

lemma decimal_value: "digits_value (decimal n) = n"
proof (induction n rule: decimal.induct)
  case (1 n)
  then show ?case by (subst decimal.simps) (auto simp: digits_value_def digit_value)
qed

lemma decimal_length: "n < 256 \<Longrightarrow> length (decimal n) \<le> 3"
  by (simp add: decimal.simps [of n] decimal.simps [of "n div 10"] decimal.simps [of "n div 10 div 10"])

lemma decimal_leading: "0 < n \<Longrightarrow> hd (decimal n) \<noteq> 0x30"
proof (induction n rule: decimal.induct)
  case (1 n)
  show ?case
  proof (cases "n < 10")
    case True
    with 1(2) have "(word_of_nat n :: u8) \<noteq> 0" using decimal_digit [of n 0] by simp
    with True show ?thesis by (subst decimal.simps) simp
  next
    case False
    then have "hd (decimal (n div 10)) \<noteq> 0x30" using 1 by simp
    with False show ?thesis by (subst decimal.simps) (simp add: decimal_nonempty)
  qed
qed

lemma read_octet_decimal:
  assumes "rest = [] \<or> hd rest = 0x2E"
  shows "read_octet (decimal (unat b) @ rest) = Some (b, rest)"
proof -
  have stop: "takeWhile is_ascii_digit rest = []" "dropWhile is_ascii_digit rest = rest"
    using assms by (cases rest; auto simp: is_ascii_digit_def)+
  have ds: "takeWhile is_ascii_digit (decimal (unat b) @ rest) = decimal (unat b)"
    "dropWhile is_ascii_digit (decimal (unat b) @ rest) = rest"
    using decimal_digits [of "unat b"] stop by (auto simp: takeWhile_append2 dropWhile_append2 list_all_iff)
  have small: "unat b < 256" using unsigned_less [of b] by simp
  have lead: "\<not> (hd (decimal (unat b)) = 0x30 \<and> length (decimal (unat b)) > 1)"
  proof (cases "unat b = 0")
    case True
    then show ?thesis by (simp add: decimal.simps [of 0])
  qed (use decimal_leading [of "unat b"] in simp)
  show ?thesis
    unfolding read_octet_def Let_def ds decimal_value using small lead decimal_length [OF small]
    by (auto simp: decimal_nonempty)
qed

lemma ipv4_str_roundtrip: "ipv4_from_str (ipv4_display ip) = Some ip"
proof -
  have len: "length (decimal (unat b)) \<le> 3" for b :: u8 using unsigned_less [of b] by (intro decimal_length) simp
  have short: "length (ipv4_display ip) \<le> 15"
    using len [of "octet0 ip"] len [of "octet1 ip"] len [of "octet2 ip"] len [of "octet3 ip"] by (simp add: ipv4_display_def)
  have last: "read_octet (decimal (unat b)) = Some (b, [])" for b using read_octet_decimal [of "[]" b] by simp
  show ?thesis
    using short by (cases ip) (simp add: ipv4_from_str_def ipv4_display_def read_octet_decimal read_dot_octet_def last)
qed

section \<open>Tags are read back\<close>

lemma tags_read_back:
  assumes "length tags \<le> 65535" "list_all tag_ok tags"
  shows "\<exists>raw. encode_tags tags = Inr raw \<and> decode_tags legacy raw = Inr (map norm_tag tags)"
proof -
  from plain_tag_codec.vector_written [OF assms(2), of legacy] obtain bs where
    "write_all write_tag tags = Inr bs" "\<And>rest. read_times (read_tag legacy) (length tags) (bs @ rest) = Inr (map norm_tag tags, rest)"
    by blast
  from this(1) this(2) [of "[]"] show ?thesis
    using assms(1) by (simp add: encode_tags_def decode_tags_def map_err_def wire_roundtrip unat_count)
qed

text \<open>Tags whose names are in the form that the reader gives.\<close>

definition stored_tags_ok :: "tag list \<Rightarrow> bool" where
  "stored_tags_ok tags \<longleftrightarrow> length tags \<le> 65535 \<and> list_all (\<lambda>t. tag_ok t \<and> norm_name (t_name t) = t_name t) tags"

lemma narrow_again:
  "x \<le> 0xFF \<Longrightarrow> (ucast (ucast x :: u8) :: u32) = ucast x" "x \<le> 0xFFFF \<Longrightarrow> (ucast (ucast x :: u16) :: u32) = ucast x" for x :: u64
  by (simp_all add: word_le_nat_alt word_unat_eq_iff unsigned_ucast_eq unsigned_take_bit_eq take_bit_nat_eq_self)

lemma size_step_norm:
  assumes "norm_name (t_name t) = t_name t"
  shows "stock_size_step b (norm_tag t) p = stock_size_step b t p"
proof -
  obtain name v where t: "t = Tag name v" by (cases t)
  have up: "x \<le> 0xFF \<Longrightarrow> x \<le> 0xFFFFFFFF" "x \<le> 0xFFFF \<Longrightarrow> x \<le> 0xFFFFFFFF" for x :: u64
    by (auto elim: order_trans)
  have "norm_tag t = Tag name (norm_value v)" using assms by (simp add: t norm_tag_def)
  then show ?thesis
    by (cases v; cases name) (simp_all add: t stock_size_step_def narrow_again up)
qed

lemma cache_size_norm:
  assumes "stored_tags_ok tags"
  shows "keyword_cache_size (map norm_tag tags) = keyword_cache_size tags"
proof -
  have "fold (stock_size_step b) (map norm_tag tags) p = fold (stock_size_step b) tags p"
    if "list_all (\<lambda>t. tag_ok t \<and> norm_name (t_name t) = t_name t) tags" for b tags p
    using that by (induction tags arbitrary: p) (simp_all add: size_step_norm)
  with assms show ?thesis
    by (simp add: keyword_cache_size_def stock_keyword_file_size_def stock_first_keyword_source_file_size_def
        stock_first_file_size_impl_def stored_tags_ok_def)
qed

lemma stored_tags_read_back:
  "stored_tags_ok tags \<Longrightarrow> \<exists>raw. encode_tags tags = Inr raw \<and> decode_tags legacy raw = Inr (map norm_tag tags)"
  by (rule tags_read_back) (auto simp: stored_tags_ok_def list_all_iff)

section \<open>Snapshots are read back\<close>

definition floor_ms :: "system_time \<Rightarrow> system_time" where
  "floor_ms t = t div 1000000 * 1000000"

definition norm_keyword :: "kad_keyword_publish_snapshot \<Rightarrow> kad_keyword_publish_snapshot" where
  "norm_keyword p = p\<lparr> kps_observed_at := floor_ms (kps_observed_at p), kps_tags := map norm_tag (kps_tags p) \<rparr>"

definition norm_source :: "kad_source_publish_snapshot \<Rightarrow> kad_source_publish_snapshot" where
  "norm_source p = p\<lparr> sps_observed_at := floor_ms (sps_observed_at p), sps_tags := map norm_tag (sps_tags p) \<rparr>"

definition norm_note :: "kad_note_publish_snapshot \<Rightarrow> kad_note_publish_snapshot" where
  "norm_note p = p\<lparr> nps_observed_at := floor_ms (nps_observed_at p), nps_tags := map norm_tag (nps_tags p) \<rparr>"

definition norm_snapshot :: "kad_publish_cache_snapshot \<Rightarrow> kad_publish_cache_snapshot" where
  "norm_snapshot snap =
     \<lparr> snap_keyword_publishes = map norm_keyword (snap_keyword_publishes snap),
       snap_source_publishes = map norm_source (snap_source_publishes snap),
       snap_note_publishes = map norm_note (snap_note_publishes snap) \<rparr>"

definition snapshot_ok :: "(int \<Rightarrow> bool) \<Rightarrow> kad_publish_cache_snapshot \<Rightarrow> bool" where
  "snapshot_ok ms_ok snap \<longleftrightarrow>
     list_all (\<lambda>p. stored_tags_ok (kps_tags p) \<and> ms_ok (timestamp_millis (kps_observed_at p))) (snap_keyword_publishes snap)
     \<and> list_all (\<lambda>p. stored_tags_ok (sps_tags p) \<and> ms_ok (timestamp_millis (sps_observed_at p))) (snap_source_publishes snap)
     \<and> list_all (\<lambda>p. stored_tags_ok (nps_tags p) \<and> ms_ok (timestamp_millis (nps_observed_at p))) (snap_note_publishes snap)"

lemma parse_displayed [simp]:
  "parse_id (node_from_str (node_display i)) = Inr i" "parse_id (hash_from_str (hash_display h)) = Inr h"
  "parse_ip (ipv4_display ip) = Inr ip"
  by (simp_all add: parse_id_def parse_ip_def node_str_roundtrip hash_str_roundtrip ipv4_str_roundtrip)

lemma timestamp_read_back [simp]: "ms_ok (timestamp_millis t) \<Longrightarrow> timestamp_ms ms_ok (timestamp_millis t) = Inr (floor_ms t)"
  by (simp add: timestamp_ms_def timestamp_millis_def floor_ms_def)

lemma keyword_read_back:
  assumes "stored_tags_ok (kps_tags p)" "ms_ok (timestamp_millis (kps_observed_at p))"
  shows "\<exists>m. metadata_keyword_publish p = Inr m \<and> keyword_publish_from_metadata legacy ms_ok m = Inr (norm_keyword p)"
  using stored_tags_read_back [OF assms(1), of legacy] assms
  by (cases p) (auto simp: metadata_keyword_publish_def keyword_publish_from_metadata_def norm_keyword_def cache_size_norm)

lemma source_read_back:
  assumes "stored_tags_ok (sps_tags p)" "ms_ok (timestamp_millis (sps_observed_at p))"
  shows "\<exists>m. metadata_source_publish p = Inr m \<and> source_publish_from_metadata legacy ms_ok m = Inr (norm_source p)"
  using stored_tags_read_back [OF assms(1), of legacy] assms
  by (cases p) (auto simp: metadata_source_publish_def source_publish_from_metadata_def norm_source_def)

lemma note_read_back:
  assumes "stored_tags_ok (nps_tags p)" "ms_ok (timestamp_millis (nps_observed_at p))"
  shows "\<exists>m. metadata_note_publish p = Inr m \<and> note_publish_from_metadata legacy ms_ok m = Inr (norm_note p)"
  using stored_tags_read_back [OF assms(1), of legacy] assms
  by (cases p) (auto simp: metadata_note_publish_def note_publish_from_metadata_def norm_note_def)

lemma collect_read_back:
  assumes "list_all ok xs" "\<And>x. ok x \<Longrightarrow> \<exists>y. f x = Inr y \<and> g y = Inr (h x)"
  shows "\<exists>ys. collect_results f xs = Inr ys \<and> collect_results g ys = Inr (map h xs)"
  using assms(1)
proof (induction xs)
  case (Cons x xs)
  then obtain y ys where "f x = Inr y" "g y = Inr (h x)" "collect_results f xs = Inr ys" "collect_results g ys = Inr (map h xs)"
    using assms(2) [of x] by auto
  then show ?case by (intro exI [of _ "y # ys"]) simp
qed simp

text \<open>C31: A snapshot of the publish cache is read back from its database form: identifiers, addresses and tags in
  their read form are the same, and times lose less than a millisecond. No entry is refused for its identity.\<close>

theorem snapshot_metadata_roundtrip:
  assumes "snapshot_ok ms_ok snap"
  shows "\<exists>m. metadata_from_publish_snapshot snap = Inr m \<and> publish_snapshot_from_metadata legacy ms_ok m = Inr (norm_snapshot snap)"
proof -
  note ok = assms [unfolded snapshot_ok_def]
  have "\<exists>ks. collect_results metadata_keyword_publish (snap_keyword_publishes snap) = Inr ks
      \<and> collect_results (keyword_publish_from_metadata legacy ms_ok) ks = Inr (map norm_keyword (snap_keyword_publishes snap))"
    by (rule collect_read_back [OF conjunct1 [OF ok]]) (rule keyword_read_back, simp_all)
  moreover have "\<exists>ss. collect_results metadata_source_publish (snap_source_publishes snap) = Inr ss
      \<and> collect_results (source_publish_from_metadata legacy ms_ok) ss = Inr (map norm_source (snap_source_publishes snap))"
    by (rule collect_read_back [OF conjunct1 [OF conjunct2 [OF ok]]]) (rule source_read_back, simp_all)
  moreover have "\<exists>ns. collect_results metadata_note_publish (snap_note_publishes snap) = Inr ns
      \<and> collect_results (note_publish_from_metadata legacy ms_ok) ns = Inr (map norm_note (snap_note_publishes snap))"
    by (rule collect_read_back [OF conjunct2 [OF conjunct2 [OF ok]]]) (rule note_read_back, simp_all)
  ultimately show ?thesis
    by (auto simp: metadata_from_publish_snapshot_def publish_snapshot_from_metadata_def norm_snapshot_def)
qed

definition example_snapshot :: kad_publish_cache_snapshot where
  "example_snapshot =
     \<lparr> snap_keyword_publishes = [\<lparr> kps_observed_at = 1234567890, kps_target = id_ZERO, kps_file_hash = Ed2kHash (wire_bytes id_ZERO),
                                    kps_tags = example_tags, kps_load = Some 3 \<rparr>],
       snap_source_publishes = [], snap_note_publishes = [] \<rparr>"

theorem snapshot_metadata_roundtrip_witness:
  "\<exists>m. metadata_from_publish_snapshot example_snapshot = Inr m
     \<and> (case publish_snapshot_from_metadata (\<lambda>b. b) (\<lambda>_. True) m of
          Inr snap \<Rightarrow> map kps_observed_at (snap_keyword_publishes snap) = [1234000000]
            \<and> map kps_load (snap_keyword_publishes snap) = [Some 3]
        | Inl _ \<Rightarrow> False)"
proof -
  have "utf8_valid [0x6B, 0x61, 0x64]" by code_simp
  then have "snapshot_ok (\<lambda>_. True) example_snapshot"
    by (simp add: snapshot_ok_def example_snapshot_def stored_tags_ok_def example_tags_def tag_ok_def tag_filename_def
        tag_filesize_def new_short_def)
  from snapshot_metadata_roundtrip [OF this, of "\<lambda>b. b"] show ?thesis
    by (auto simp: norm_snapshot_def norm_keyword_def example_snapshot_def floor_ms_def)
qed

section \<open>Merging a snapshot restores the cache\<close>











end
