(* ===== verification/Aich_Tree.thy ===== *)
theory Aich_Tree
  imports Prelude
begin

text \<open>
  The block-level AICH hash tree (\<^verbatim>\<open>ed2k_transfer/aich_tree.rs\<close>): a Merkle tree over the 180 KB
  blocks of a file. Every operation that takes \<^verbatim>\<open>&mut self\<close> returns the tree it leaves behind,
  also when it fails. SHA-1 is the argument \<^verbatim>\<open>sha1\<close>. Sizes are \<^verbatim>\<open>u64\<close> values kept as natural
  numbers: no sum or product of the tree operations exceeds twice the file sz rounded up to
  whole blocks, and the only subtraction, in \<^verbatim>\<open>child_sizes\<close>, is of a smaller number wherever
  it is called.
\<close>

section \<open>Definitions\<close>

definition ED2K_PART_SIZE :: nat where
  "ED2K_PART_SIZE = 9728000"

definition ED2K_EMBLOCK_SIZE :: nat where
  "ED2K_EMBLOCK_SIZE = 184320"

type_synonym aich_hash = bytes

datatype aich_error =
    BlockTooLarge | FindHashFailed | WrongNodeValues | LeafWithoutHash | IncompleteInnerNode
  | RangeOutOfBounds | BelowBaseSize | MissingChildTrees | InvalidLeftDescent | InvalidRightDescent
  | ZeroIdent | ZeroSizedFile | DataLengthMismatch | RecalculateFailed | HashCountOverflow
  | FileTooSmall | PartOutOfRange | WrongLength | NoMasterHash | HashCountMismatch | ShortHashData
  | MasterOverwrite | InvalidIdent32 | VerificationFailed | MissingBlockHash | ShortRead
  | InvalidGeometry | InvalidPartNode | InvalidLeaves | CachedTreeMismatch | MissingTrustedHash

definition sha1_pair :: "(bytes \<Rightarrow> aich_hash) \<Rightarrow> aich_hash \<Rightarrow> aich_hash \<Rightarrow> aich_hash" where
  "sha1_pair sha1 l r = sha1 (l @ r)"

datatype aich_tree = AichTree
  (data_size: nat) (is_left_branch: bool) (base_size: nat) (node_hash: aich_hash) (hash_valid: bool)
  (left: "aich_tree option") (right: "aich_tree option")

definition tree_new :: "nat \<Rightarrow> bool \<Rightarrow> nat \<Rightarrow> aich_tree" where
  "tree_new sz is_left base = AichTree sz is_left
     (if base \<ge> ED2K_PART_SIZE then ED2K_PART_SIZE else ED2K_EMBLOCK_SIZE) (replicate 20 0) False None None"

definition child_sizes :: "nat \<Rightarrow> bool \<Rightarrow> nat \<Rightarrow> nat \<times> nat" where
  "child_sizes sz is_left base =
     (let blocks = sz div base + (if sz mod base = 0 then 0 else 1);
          l = (blocks + (if is_left then 1 else 0)) div 2 * base
      in (l, sz - l))"

text \<open>The base of a branch that is created on demand, and the branch: the existing child, or a
  new one.\<close>

definition branch_base :: "nat \<Rightarrow> nat" where
  "branch_base sz = (if sz \<le> ED2K_PART_SIZE then ED2K_EMBLOCK_SIZE else ED2K_PART_SIZE)"

definition get_branch :: "nat \<Rightarrow> bool \<Rightarrow> aich_tree option \<Rightarrow> aich_tree" where
  "get_branch sz is_left child = (case child of Some c \<Rightarrow> c | None \<Rightarrow> tree_new sz is_left (branch_base sz))"

text \<open>\<^verbatim>\<open>find_hash_mut\<close> hands out a mutable reference into the tree; here it takes what the caller
  does with the node, and returns the node it found, the level it reached and the tree, with
  the branches created on the way.\<close>

function find_hash_mut :: "(aich_tree \<Rightarrow> aich_tree) \<Rightarrow> aich_tree \<Rightarrow> nat \<Rightarrow> nat \<Rightarrow> nat \<Rightarrow> aich_tree option \<times> nat \<times> aich_tree" where
  "find_hash_mut upd (AichTree sz is_left base h v l r) start len level0 =
     (let level = level0 + 1; t = AichTree sz is_left base h v l r in
      if level > 22 \<or> start + len > sz \<or> len > sz then (None, level, t)
      else if start = 0 \<and> len = sz then (Some t, level, upd t)
      else if sz \<le> base then (None, level, t)
      else
        let (left_size, right_size) = child_sizes sz is_left base in
        if start < left_size then
          if start + len > left_size then (None, level, t)
          else case find_hash_mut upd (get_branch left_size True l) start len level of
            (res, lv, c) \<Rightarrow> (res, lv, AichTree sz is_left base h v (Some c) r)
        else if start - left_size + len > right_size then (None, level, t)
        else case find_hash_mut upd (get_branch right_size False r) (start - left_size) len level of
          (res, lv, c) \<Rightarrow> (res, lv, AichTree sz is_left base h v l (Some c)))"
  by pat_completeness auto
termination
  by (relation "measure (\<lambda>(upd, t, start, len, level). 22 - level)") auto

function find_existing_hash :: "aich_tree \<Rightarrow> nat \<Rightarrow> nat \<Rightarrow> nat \<Rightarrow> aich_tree option" where
  "find_existing_hash (AichTree sz is_left base h v l r) start len level0 =
     (let level = level0 + 1; t = AichTree sz is_left base h v l r in
      if level > 22 \<or> start + len > sz \<or> len > sz then None
      else if start = 0 \<and> len = sz then (if v then Some t else None)
      else if sz \<le> base then None
      else
        let (left_size, right_size) = child_sizes sz is_left base in
        if start < left_size then
          if start + len > left_size then None
          else (case l of None \<Rightarrow> None
                | Some c \<Rightarrow> if hash_valid c then find_existing_hash c start len level else None)
        else if start - left_size + len > right_size then None
        else (case r of None \<Rightarrow> None
              | Some c \<Rightarrow> if hash_valid c then find_existing_hash c (start - left_size) len level else None))"
  by pat_completeness auto
termination
  by (relation "measure (\<lambda>(t, start, len, level). size t)") auto

definition existing :: "aich_tree \<Rightarrow> nat \<Rightarrow> nat \<Rightarrow> aich_tree option" where
  "existing t start len = find_existing_hash t start len 0"

fun with_hash :: "aich_hash \<Rightarrow> aich_tree \<Rightarrow> aich_tree" where
  "with_hash h (AichTree sz is_left base h0 v l r) = AichTree sz is_left base h True l r"

definition set_block_hash :: "aich_tree \<Rightarrow> nat \<Rightarrow> nat \<Rightarrow> aich_hash \<Rightarrow> (aich_error + unit) \<times> aich_tree" where
  "set_block_hash t start len h =
     (if len > ED2K_EMBLOCK_SIZE then (Inl BlockTooLarge, t)
      else
        let wrong = (\<lambda>node. base_size node \<noteq> ED2K_EMBLOCK_SIZE \<or> data_size node \<noteq> len) in
        case find_hash_mut (\<lambda>node. if wrong node then node else with_hash h node) t start len 0 of
          (None, _, t') \<Rightarrow> (Inl FindHashFailed, t')
        | (Some node, _, t') \<Rightarrow> (if wrong node then Inl WrongNodeValues else Inr (), t'))"

fun recalculate_hash :: "(bytes \<Rightarrow> aich_hash) \<Rightarrow> bool \<Rightarrow> aich_tree \<Rightarrow> bool \<times> aich_tree" where
  "recalculate_hash sha1 dont_replace (AichTree sz is_left base h v (Some l) (Some r)) =
     (case recalculate_hash sha1 dont_replace l of (left_ok, l') \<Rightarrow>
      case recalculate_hash sha1 dont_replace r of (right_ok, r') \<Rightarrow>
        if \<not> left_ok \<or> \<not> right_ok then (False, AichTree sz is_left base h v (Some l') (Some r'))
        else if dont_replace \<and> v then (True, AichTree sz is_left base h v (Some l') (Some r'))
        else if hash_valid l' \<and> hash_valid r'
          then (True, AichTree sz is_left base (sha1_pair sha1 (node_hash l') (node_hash r')) True (Some l') (Some r'))
        else (v, AichTree sz is_left base h v (Some l') (Some r')))"
| "recalculate_hash sha1 dont_replace (AichTree sz is_left base h v None None) =
     (True, AichTree sz is_left base h v None None)"
| "recalculate_hash sha1 dont_replace (AichTree sz is_left base h v _ _) =
     (False, AichTree sz is_left base h v None None)"

text \<open>\<^verbatim>\<open>verify_hash_tree\<close> first recalculates a child that has no valid hash.\<close>

definition revive :: "(bytes \<Rightarrow> aich_hash) \<Rightarrow> aich_tree \<Rightarrow> aich_tree" where
  "revive sha1 c = (if hash_valid c then c else snd (recalculate_hash sha1 True c))"

definition child_valid :: "aich_tree option \<Rightarrow> bool" where
  "child_valid child = (case child of Some c \<Rightarrow> hash_valid c | None \<Rightarrow> False)"

lemma aich_tree_induct [case_names Leaf Node One_Left One_Right]:
  assumes "\<And>n il b h v. P (AichTree n il b h v None None)"
    and "\<And>n il b h v l r. P l \<Longrightarrow> P r \<Longrightarrow> P (AichTree n il b h v (Some l) (Some r))"
    and "\<And>n il b h v l. P l \<Longrightarrow> P (AichTree n il b h v (Some l) None)"
    and "\<And>n il b h v r. P r \<Longrightarrow> P (AichTree n il b h v None (Some r))"
  shows "P t"
proof (induction t)
  case (AichTree n il b h v l r)
  then show ?case
    by (cases l; cases r) (auto intro: assms)
qed

lemma size_recalculate_hash: "size (snd (recalculate_hash sha1 d t)) \<le> size t"
proof (induction t rule: aich_tree_induct)
  case (Node n il b h v l r)
  then show ?case
    by (cases "recalculate_hash sha1 d l"; cases "recalculate_hash sha1 d r") (simp add: add_mono)
qed simp_all

lemma size_revive: "size (revive sha1 c) \<le> size c"
  by (simp add: revive_def size_recalculate_hash)

lemma revived_smaller:
  assumes "child_valid (map_option (revive sha1) c)"
  shows "size (the (map_option (revive sha1) c)) < Suc (size_option size c)"
  using assms size_revive by (cases c) (auto simp: child_valid_def less_Suc_eq_le intro: le_SucI)

function verify_hash_tree :: "(bytes \<Rightarrow> aich_hash) \<Rightarrow> bool \<Rightarrow> aich_tree \<Rightarrow> bool \<times> aich_tree" where
  "verify_hash_tree sha1 delete_bad (AichTree sz is_left base h v l0 r0) =
     (let node = AichTree sz is_left base h v in
      if \<not> v then (False, if delete_bad then node None None else node l0 r0)
      else
        let l = map_option (revive sha1) l0; r = map_option (revive sha1) r0 in
        if child_valid l \<noteq> child_valid r then (False, if delete_bad then node None None else node l r)
        else if child_valid l \<and> child_valid r then
          if h \<noteq> sha1_pair sha1 (node_hash (the l)) (node_hash (the r))
            then (False, if delete_bad then node None None else node l r)
          else case verify_hash_tree sha1 delete_bad (the l) of
            (False, l') \<Rightarrow> (False, node (Some l') r)
          | (True, l') \<Rightarrow> (case verify_hash_tree sha1 delete_bad (the r) of
              (ok, r') \<Rightarrow> (ok, node (Some l') (Some r')))
        else if delete_bad then (True, node (if child_valid l then l else None) (if child_valid r then r else None))
        else (True, node l r))"
  by pat_completeness auto
termination
  by (relation "measure (\<lambda>(sha1, d, t). size t)") (use revived_smaller in \<open>fastforce+\<close>)

definition shift_in :: "u32 \<Rightarrow> bool \<Rightarrow> u32" where
  "shift_in ident is_left = push_bit 1 ident OR (if is_left then 1 else 0)"

definition ident_bytes :: "bool \<Rightarrow> u32 \<Rightarrow> bytes" where
  "ident_bytes use_32bit ident = (if use_32bit then to_le 4 ident else to_le 2 (ucast ident :: u16))"

definition write_hash :: "aich_tree \<Rightarrow> u32 \<Rightarrow> bool \<Rightarrow> bytes" where
  "write_hash t ident use_32bit = ident_bytes use_32bit (shift_in ident (is_left_branch t)) @ node_hash t"

fun write_lowest_level_hashes :: "aich_tree \<Rightarrow> u32 \<Rightarrow> bool \<Rightarrow> aich_error + bytes" where
  "write_lowest_level_hashes (AichTree sz is_left base h v None None) ident0 use_32bit =
     (let ident = shift_in ident0 is_left in
      if sz \<le> base \<and> v then Inr (ident_bytes use_32bit ident @ h) else Inl LeafWithoutHash)"
| "write_lowest_level_hashes (AichTree sz is_left base h v (Some l) (Some r)) ident0 use_32bit =
     (let ident = shift_in ident0 is_left in
      try_bind (write_lowest_level_hashes l ident use_32bit) (\<lambda>out_l.
      try_bind (write_lowest_level_hashes r ident use_32bit) (\<lambda>out_r. Inr (out_l @ out_r))))"
| "write_lowest_level_hashes _ _ _ = Inl IncompleteInnerNode"

text \<open>The tree's part of \<^verbatim>\<open>create_part_recovery_data\<close>: what it appends to the output.\<close>

function tree_recovery_data :: "aich_tree \<Rightarrow> nat \<Rightarrow> nat \<Rightarrow> u32 \<Rightarrow> bool \<Rightarrow> aich_error + bytes" where
  "tree_recovery_data (AichTree sz is_left base h v l r) start len ident0 use_32bit =
     (if start + len > sz \<or> len > sz then Inl RangeOutOfBounds
      else if start = 0 \<and> len = sz then write_lowest_level_hashes (AichTree sz is_left base h v l r) ident0 use_32bit
      else if sz \<le> base then Inl BelowBaseSize
      else
        let ident = shift_in ident0 is_left;
            blocks = sz div base + (if sz mod base = 0 then 0 else 1);
            left_size = (if is_left then blocks + 1 else blocks) div 2 * base;
            right_size = sz - left_size in
        case l of None \<Rightarrow> Inl MissingChildTrees | Some lt \<Rightarrow>
        case r of None \<Rightarrow> Inl MissingChildTrees | Some rt \<Rightarrow>
          if start < left_size then
            if start + len > left_size \<or> \<not> hash_valid rt then Inl InvalidLeftDescent
            else try_bind (tree_recovery_data lt start len ident use_32bit) (\<lambda>out.
              Inr (write_hash rt ident use_32bit @ out))
          else if start - left_size + len > right_size \<or> \<not> hash_valid lt then Inl InvalidRightDescent
          else try_bind (tree_recovery_data rt (start - left_size) len ident use_32bit) (\<lambda>out.
            Inr (write_hash lt ident use_32bit @ out)))"
  by pat_completeness auto
termination
  by (relation "measure (\<lambda>(t, start, len, ident, use_32bit). size t)") auto

text \<open>\<^verbatim>\<open>set_hash\<close>: its first loop moves the leading one of the identifier to bit 31 and counts the
  bits below it; the descent then follows those bits.\<close>

fun align_ident :: "nat \<Rightarrow> u32 \<Rightarrow> (nat \<times> u32) option" where
  "align_ident level ident =
     (if bit ident 31 then Some (level, ident)
      else case level of 0 \<Rightarrow> None | Suc l \<Rightarrow> align_ident l (push_bit 1 ident))"

fun set_hash_at :: "aich_hash \<Rightarrow> bool \<Rightarrow> u32 \<Rightarrow> nat \<Rightarrow> aich_tree \<Rightarrow> (aich_error + unit) \<times> aich_tree" where
  "set_hash_at data allow_overwrite ident 0 t =
     (Inr (), if hash_valid t \<and> \<not> allow_overwrite then t else with_hash data t)"
| "set_hash_at data allow_overwrite ident0 (Suc level) (AichTree sz is_left base h v l r) =
     (if sz \<le> base then (Inl BelowBaseSize, AichTree sz is_left base h v l r)
      else
        let ident = push_bit 1 ident0; (left_size, right_size) = child_sizes sz is_left base in
        if bit ident 31 then
          (case set_hash_at data allow_overwrite ident level (get_branch left_size True l) of
             (res, c) \<Rightarrow> (res, AichTree sz is_left base h v (Some c) r))
        else
          (case set_hash_at data allow_overwrite ident level (get_branch right_size False r) of
             (res, c) \<Rightarrow> (res, AichTree sz is_left base h v l (Some c))))"

definition set_hash :: "aich_hash \<Rightarrow> u32 \<Rightarrow> bool \<Rightarrow> aich_tree \<Rightarrow> (aich_error + unit) \<times> aich_tree" where
  "set_hash data ident allow_overwrite t =
     (case align_ident 31 ident of None \<Rightarrow> (Inl ZeroIdent, t)
      | Some (level, aligned) \<Rightarrow> set_hash_at data allow_overwrite aligned level t)"

end
