(* ===== verification/Aich_Recovery.thy ===== *)
theory Aich_Recovery
  imports Aich_Tree
begin

text \<open>
  The recovery hash set of a file (\<^verbatim>\<open>ed2k_transfer/aich_recovery.rs\<close>) and the part geometry of
  \<^verbatim>\<open>ed2k_transfer/hashset.rs\<close>: a sharer builds the tree of its file and emits the hashes that
  prove the blocks of one part; a downloader with a trusted master hash reads and verifies
  them, and sorts the blocks of its damaged part into good and corrupt ones.
\<close>

section \<open>Definitions\<close>

definition HASHSIZE :: nat where
  "HASHSIZE = 20"

definition div_ceil :: "nat \<Rightarrow> nat \<Rightarrow> nat" where
  "div_ceil n d = n div d + (if n mod d = 0 then 0 else 1)"

definition part_count :: "nat \<Rightarrow> nat" where
  "part_count file_size = div_ceil file_size ED2K_PART_SIZE"

text \<open>The subtraction is on \<^verbatim>\<open>u64\<close> and unchecked: for a part beyond the end of the file it wraps
  around (a build with overflow checks panics there).\<close>

definition part_size :: "nat \<Rightarrow> nat \<Rightarrow> nat" where
  "part_size file_size part =
     min ((file_size + (2 ^ 64 - part * ED2K_PART_SIZE mod 2 ^ 64)) mod 2 ^ 64) ED2K_PART_SIZE"

text \<open>The blocks that the loops \<^verbatim>\<open>while pos < p_size\<close> visit, by position and length.\<close>

function blocks_from :: "nat \<Rightarrow> nat \<Rightarrow> (nat \<times> nat) list" where
  "blocks_from pos p_size =
     (if pos < p_size then
        let block = min (p_size - pos) ED2K_EMBLOCK_SIZE in (pos, block) # blocks_from (pos + block) p_size
      else [])"
  by pat_completeness auto
termination
  by (relation "measure (\<lambda>(pos, p_size). p_size - pos)") (auto simp: ED2K_EMBLOCK_SIZE_def)

declare blocks_from.simps [simp del]

text \<open>A loop whose body may fail and changes a state.\<close>

fun try_each :: "('a \<Rightarrow> 's \<Rightarrow> ('e + unit) \<times> 's) \<Rightarrow> 'a list \<Rightarrow> 's \<Rightarrow> ('e + unit) \<times> 's" where
  "try_each f [] s = (Inr (), s)"
| "try_each f (x # xs) s = (case f x s of (Inl e, s') \<Rightarrow> (Inl e, s') | (Inr u, s') \<Rightarrow> try_each f xs s')"

definition slice :: "bytes \<Rightarrow> nat \<Rightarrow> nat \<Rightarrow> bytes" where
  "slice data start len = take len (drop start data)"

record aich_recovery_hash_set =
  rs_root :: aich_tree
  rs_file_size :: nat

definition hash_set_new :: "nat \<Rightarrow> aich_recovery_hash_set" where
  "hash_set_new file_size =
     (let base = (if file_size \<le> ED2K_PART_SIZE then ED2K_EMBLOCK_SIZE else ED2K_PART_SIZE)
      in \<lparr> rs_root = tree_new file_size True base, rs_file_size = file_size \<rparr>)"

definition master_hash :: "aich_recovery_hash_set \<Rightarrow> aich_hash" where
  "master_hash s = node_hash (rs_root s)"

definition master_hash_valid :: "aich_recovery_hash_set \<Rightarrow> bool" where
  "master_hash_valid s = hash_valid (rs_root s)"

definition set_master_hash :: "aich_hash \<Rightarrow> aich_recovery_hash_set \<Rightarrow> aich_recovery_hash_set" where
  "set_master_hash h s = s\<lparr> rs_root := with_hash h (rs_root s) \<rparr>"

record aich_part_spec =
  ps_size :: nat
  ps_is_left_branch :: bool

text \<open>\<^verbatim>\<open>collect_aich_part_specs\<close>: the parts in file order with the side of their node.\<close>

function collect_aich_part_specs :: "nat \<Rightarrow> bool \<Rightarrow> aich_part_spec list" where
  "collect_aich_part_specs sz is_left =
     (if sz \<le> ED2K_PART_SIZE then [\<lparr> ps_size = sz, ps_is_left_branch = is_left \<rparr>]
      else
        let parts = div_ceil sz ED2K_PART_SIZE;
            left_size = (parts + (if is_left then 1 else 0)) div 2 * ED2K_PART_SIZE
        in collect_aich_part_specs left_size True @ collect_aich_part_specs (sz - left_size) False)"
  by pat_completeness auto

lemma div_ceil_bounds:
  assumes "b < n" "0 < b"
  shows "2 \<le> div_ceil n b" "n \<le> div_ceil n b * b" "(div_ceil n b - 1) * b < n"
proof -
  have n: "n = n div b * b + n mod b" and m: "n mod b < b" and q: "1 \<le> n div b"
    using assms by (simp_all add: div_greater_zero_iff Suc_leI)
  show "2 \<le> div_ceil n b"
  proof (cases "n mod b = 0")
    case True
    then have "n div b \<noteq> 1" using n assms by auto
    with q True show ?thesis by (simp add: div_ceil_def)
  qed (use q in \<open>simp add: div_ceil_def\<close>)
  have "n \<le> n div b * b + b" "n mod b = 0 \<Longrightarrow> n \<le> n div b * b" using n m by linarith+
  then show "n \<le> div_ceil n b * b" by (simp add: div_ceil_def)
  show "(div_ceil n b - 1) * b < n"
  proof (cases "n mod b = 0")
    case True
    then have "n div b * b = n" using n by simp
    with True assms show ?thesis by (simp add: div_ceil_def diff_mult_distrib)
  next
    case False
    then have "n div b * b < n" using n by linarith
    with False show ?thesis by (simp add: div_ceil_def)
  qed
qed

lemma split_sizes:
  assumes "b < n" "0 < b"
  shows "0 < (div_ceil n b + of_bool il) div 2 * b" "(div_ceil n b + of_bool il) div 2 * b < n"
proof -
  note k = div_ceil_bounds [OF assms]
  show "0 < (div_ceil n b + of_bool il) div 2 * b"
    using assms k by (simp add: div_greater_zero_iff)
  have "(div_ceil n b + of_bool il) div 2 \<le> div_ceil n b - 1" using k(1) by (cases il) auto
  then have "(div_ceil n b + of_bool il) div 2 * b \<le> (div_ceil n b - 1) * b" by (rule mult_le_mono1)
  then show "(div_ceil n b + of_bool il) div 2 * b < n" using k(3) by (rule le_less_trans)
qed

termination collect_aich_part_specs
proof (relation "measure fst", goal_cases)
  case (2 sz is_left parts left_size)
  then show ?case using split_sizes(2) [of ED2K_PART_SIZE sz is_left]
    by (simp add: ED2K_PART_SIZE_def of_bool_def)
next
  case (3 sz is_left parts left_size)
  then show ?case using split_sizes(1) [of ED2K_PART_SIZE sz is_left]
    by (simp add: ED2K_PART_SIZE_def of_bool_def)
qed simp

declare collect_aich_part_specs.simps [simp del]

definition aich_part_specs_for_size :: "nat \<Rightarrow> aich_part_spec list" where
  "aich_part_specs_for_size file_size = collect_aich_part_specs file_size True"

fun as_chunks20 :: "nat \<Rightarrow> bytes \<Rightarrow> bytes list" where
  "as_chunks20 0 bs = []"
| "as_chunks20 (Suc n) bs = take 20 bs # as_chunks20 n (drop 20 bs)"

definition from_cached_part ::
  "(bytes \<Rightarrow> aich_hash) \<Rightarrow> nat \<Rightarrow> aich_hash \<Rightarrow> aich_hash list \<Rightarrow> u16 \<Rightarrow> bytes \<Rightarrow> aich_error + aich_recovery_hash_set" where
  "from_cached_part sha1 file_size master roots part packed =
     (let specs = aich_part_specs_for_size file_size; p = unat part in
      if length roots \<noteq> length specs \<or> \<not> p < length specs then Inl InvalidGeometry
      else case try_each (\<lambda>(index, spec, h) t.
          case find_hash_mut (with_hash h) t (index * ED2K_PART_SIZE) (ps_size spec) 0 of
            (None, _, t') \<Rightarrow> (Inl InvalidPartNode, t') | (Some _, _, t') \<Rightarrow> (Inr (), t'))
        (zip [0..<length specs] (zip specs roots)) (rs_root (hash_set_new file_size)) of
        (Inl e, _) \<Rightarrow> Inl e
      | (Inr _, t1) \<Rightarrow>
        let len = ps_size (specs ! p) in
        if length packed \<noteq> div_ceil len ED2K_EMBLOCK_SIZE * 20 then Inl InvalidLeaves
        else case try_each (\<lambda>(block, h) t.
            let offset = block * ED2K_EMBLOCK_SIZE
            in set_block_hash t (p * ED2K_PART_SIZE + offset) (min (len - offset) ED2K_EMBLOCK_SIZE) h)
          (zip [0..<length packed div 20] (as_chunks20 (length packed div 20) packed)) t1 of
          (Inl e, _) \<Rightarrow> Inl e
        | (Inr _, t2) \<Rightarrow>
          (case recalculate_hash sha1 False t2 of (ok, t3) \<Rightarrow>
             if ok \<and> node_hash t3 = master then Inr \<lparr> rs_root = t3, rs_file_size = file_size \<rparr>
             else Inl CachedTreeMismatch))"

definition file_blocks :: "nat \<Rightarrow> (nat \<times> nat) list" where
  "file_blocks file_size = concat (map (\<lambda>part.
     map (\<lambda>(pos, block). (part * ED2K_PART_SIZE + pos, block)) (blocks_from 0 (part_size file_size part)))
     [0..<part_count file_size])"

definition build_from_data ::
  "(bytes \<Rightarrow> aich_hash) \<Rightarrow> bytes \<Rightarrow> aich_recovery_hash_set \<Rightarrow> (aich_error + unit) \<times> aich_recovery_hash_set" where
  "build_from_data sha1 file_data s =
     (if rs_file_size s = 0 then (Inl ZeroSizedFile, s)
      else if length file_data \<noteq> rs_file_size s then (Inl DataLengthMismatch, s)
      else case try_each (\<lambda>(start, block) t. set_block_hash t start block (sha1 (slice file_data start block)))
          (file_blocks (rs_file_size s)) (rs_root s) of
        (Inl e, t) \<Rightarrow> (Inl e, s\<lparr> rs_root := t \<rparr>)
      | (Inr _, t) \<Rightarrow> (case recalculate_hash sha1 False t of
          (ok, t') \<Rightarrow> (if ok then Inr () else Inl RecalculateFailed, s\<lparr> rs_root := t' \<rparr>)))"

definition recovery_hash_count :: "nat \<Rightarrow> aich_recovery_hash_set \<Rightarrow> (aich_error + u16) \<times> aich_recovery_hash_set" where
  "recovery_hash_count part s =
     (let p_size = part_size (rs_file_size s) part in
      case find_hash_mut (\<lambda>n. n) (rs_root s) (part * ED2K_PART_SIZE) p_size 0 of
        (_, level, t) \<Rightarrow>
          let blocks = p_size div ED2K_EMBLOCK_SIZE + (if p_size mod ED2K_EMBLOCK_SIZE = 0 then 0 else 1);
              count = level - 1 + blocks
          in (if count < 2 ^ 16 then Inr (of_nat count) else Inl HashCountOverflow, s\<lparr> rs_root := t \<rparr>))"

definition create_part_recovery_data ::
  "nat \<Rightarrow> aich_recovery_hash_set \<Rightarrow> (aich_error + bytes) \<times> aich_recovery_hash_set" where
  "create_part_recovery_data part s =
     (if data_size (rs_root s) \<le> ED2K_EMBLOCK_SIZE then (Inl FileTooSmall, s)
      else if part * ED2K_PART_SIZE \<ge> rs_file_size s then (Inl PartOutOfRange, s)
      else case recovery_hash_count part s of
        (Inl e, s') \<Rightarrow> (Inl e, s')
      | (Inr hashes_to_write, s') \<Rightarrow>
        let p_size = part_size (rs_file_size s) part;
            use_32bit = (rs_file_size s > 2 ^ 32 - 1);
            ident_size = (if use_32bit then 4 else 2);
            out = (if use_32bit then to_le 2 (0 :: u16) else []) @ to_le 2 hashes_to_write
        in case tree_recovery_data (rs_root s') (part * ED2K_PART_SIZE) p_size 0 use_32bit of
            Inl e \<Rightarrow> (Inl e, s')
          | Inr body \<Rightarrow>
            if length body \<noteq> unat hashes_to_write * (HASHSIZE + ident_size) then (Inl WrongLength, s')
            else (Inr (out @ body @ (if use_32bit then [] else to_le 2 (0 :: u16))), s'))"

text \<open>The little-endian reader over a recovery body.\<close>

definition reader_u16 :: "bytes \<Rightarrow> aich_error + u16 \<times> bytes" where
  "reader_u16 bs = (if length bs < 2 then Inl ShortRead else Inr (from_le (take 2 bs), drop 2 bs))"

definition reader_u32 :: "bytes \<Rightarrow> aich_error + u32 \<times> bytes" where
  "reader_u32 bs = (if length bs < 4 then Inl ShortRead else Inr (from_le (take 4 bs), drop 4 bs))"

definition reader_hash :: "bytes \<Rightarrow> aich_error + aich_hash \<times> bytes" where
  "reader_hash bs = (if length bs < HASHSIZE then Inl ShortRead else Inr (take HASHSIZE bs, drop HASHSIZE bs))"

text \<open>The two loops that read identified hashes, with 16-bit and with 32-bit identifiers.\<close>

definition read_ident :: "bool \<Rightarrow> bytes \<Rightarrow> aich_error + u32 \<times> bytes" where
  "read_ident use_32bit bs =
     (if use_32bit then reader_u32 bs
      else try_bind (reader_u16 bs) (\<lambda>(ident, rest). Inr (ucast ident, rest)))"

fun read_hashes :: "bool \<Rightarrow> nat \<Rightarrow> bytes \<Rightarrow> aich_tree \<Rightarrow> (aich_error + unit) \<times> aich_tree" where
  "read_hashes use_32bit 0 bs t = (Inr (), t)"
| "read_hashes use_32bit (Suc n) bs t =
     (case read_ident use_32bit bs of Inl e \<Rightarrow> (Inl e, t)
      | Inr (ident, bs1) \<Rightarrow> (case reader_hash bs1 of Inl e \<Rightarrow> (Inl e, t)
        | Inr (h, bs2) \<Rightarrow>
          if ident = 1 then (Inl (if use_32bit then InvalidIdent32 else MasterOverwrite), t)
          else if use_32bit \<and> ident > 0x400000 then (Inl InvalidIdent32, t)
          else (case set_hash h ident False t of
              (Inl e, t') \<Rightarrow> (Inl e, t')
            | (Inr _, t') \<Rightarrow> read_hashes use_32bit n bs2 t')))"

definition read_body :: "nat \<Rightarrow> bytes \<Rightarrow> aich_tree \<Rightarrow> (aich_error + unit) \<times> aich_tree" where
  "read_body hashes_to_read body t =
     (case reader_u16 body of Inl e \<Rightarrow> (Inl e, t)
      | Inr (n16, bs) \<Rightarrow>
        let available16 = unat n16 in
        if available16 \<noteq> 0 \<and> available16 \<noteq> hashes_to_read then (Inl HashCountMismatch, t)
        else if available16 \<noteq> 0 then
          if length bs < available16 * (HASHSIZE + 2) then (Inl ShortHashData, t)
          else read_hashes False available16 bs t
        else case reader_u16 bs of Inl e \<Rightarrow> (Inl e, t)
          | Inr (n32, bs') \<Rightarrow>
            let available32 = unat n32 in
            if available32 \<noteq> hashes_to_read then (Inl HashCountMismatch, t)
            else if length bs' < available32 * (HASHSIZE + 4) then (Inl ShortHashData, t)
            else read_hashes True available32 bs' t)"

definition read_recovery_data ::
  "(bytes \<Rightarrow> aich_hash) \<Rightarrow> nat \<Rightarrow> bytes \<Rightarrow> aich_recovery_hash_set \<Rightarrow> (aich_error + unit) \<times> aich_recovery_hash_set" where
  "read_recovery_data sha1 part body s =
     (if \<not> hash_valid (rs_root s) then (Inl NoMasterHash, s)
      else
        let p_start = part * ED2K_PART_SIZE; p_size = part_size (rs_file_size s) part in
        case find_hash_mut (\<lambda>n. n) (rs_root s) p_start p_size 0 of (_, level, t0) \<Rightarrow>
        let blocks = p_size div ED2K_EMBLOCK_SIZE + (if p_size mod ED2K_EMBLOCK_SIZE = 0 then 0 else 1) in
        case read_body (level - 1 + blocks) body t0 of
          (Inl e, t1) \<Rightarrow> (Inl e, s\<lparr> rs_root := t1 \<rparr>)
        | (Inr _, t1) \<Rightarrow>
          (case verify_hash_tree sha1 True t1 of (ok, t2) \<Rightarrow>
            (if \<not> ok then Inl VerificationFailed
             else if list_ex (\<lambda>(pos, block). existing t2 (p_start + pos) block = None) (blocks_from 0 p_size)
               then Inl MissingBlockHash
             else Inr (), s\<lparr> rs_root := t2 \<rparr>)))"

fun collect_block_hashes :: "aich_tree \<Rightarrow> nat \<Rightarrow> (nat \<times> nat) list \<Rightarrow> aich_error + aich_hash list" where
  "collect_block_hashes t p_start [] = Inr []"
| "collect_block_hashes t p_start ((pos, block) # bs) =
     (case existing t (p_start + pos) block of None \<Rightarrow> Inl MissingBlockHash
      | Some node \<Rightarrow> try_bind (collect_block_hashes t p_start bs) (\<lambda>hs. Inr (node_hash node # hs)))"

definition part_block_hashes :: "nat \<Rightarrow> aich_recovery_hash_set \<Rightarrow> aich_error + aich_hash list" where
  "part_block_hashes part s = collect_block_hashes (rs_root s) (part * ED2K_PART_SIZE)
     (blocks_from 0 (part_size (rs_file_size s) part))"

definition trusted_part_block_hashes_from_recovery ::
  "(bytes \<Rightarrow> aich_hash) \<Rightarrow> nat \<Rightarrow> aich_hash \<Rightarrow> nat \<Rightarrow> bytes \<Rightarrow> aich_error + aich_hash list" where
  "trusted_part_block_hashes_from_recovery sha1 file_size master part recovery_body =
     (case read_recovery_data sha1 part recovery_body (set_master_hash master (hash_set_new file_size)) of
        (Inl e, _) \<Rightarrow> Inl e
      | (Inr _, s) \<Rightarrow> part_block_hashes part s)"

record aich_recovery_outcome =
  recovered_ranges :: "(nat \<times> nat) list"
  corrupt_ranges :: "(nat \<times> nat) list"

definition recovered_bytes :: "aich_recovery_outcome \<Rightarrow> nat" where
  "recovered_bytes out = sum_list (map (\<lambda>(s, e). e - s) (recovered_ranges out))"

fun part_recovery_loop ::
  "(bytes \<Rightarrow> aich_hash) \<Rightarrow> nat \<Rightarrow> bytes \<Rightarrow> (nat \<times> nat) list \<Rightarrow> aich_hash list \<Rightarrow> aich_error + aich_recovery_outcome" where
  "part_recovery_loop sha1 p_start part_data [] trusted = Inr \<lparr> recovered_ranges = [], corrupt_ranges = [] \<rparr>"
| "part_recovery_loop sha1 p_start part_data (_ # _) [] = Inl MissingTrustedHash"
| "part_recovery_loop sha1 p_start part_data ((pos, block) # bs) (h # trusted) =
     (let our = sha1 (slice part_data pos block); abs = (p_start + pos, p_start + pos + block) in
      try_bind (part_recovery_loop sha1 p_start part_data bs trusted) (\<lambda>out.
        Inr (if our = h then out\<lparr> recovered_ranges := abs # recovered_ranges out \<rparr>
             else out\<lparr> corrupt_ranges := abs # corrupt_ranges out \<rparr>)))"

definition compute_part_recovery ::
  "(bytes \<Rightarrow> aich_hash) \<Rightarrow> nat \<Rightarrow> nat \<Rightarrow> bytes \<Rightarrow> aich_hash list \<Rightarrow> aich_error + aich_recovery_outcome" where
  "compute_part_recovery sha1 file_size part part_data trusted =
     (if length part_data \<noteq> part_size file_size part then Inl DataLengthMismatch
      else part_recovery_loop sha1 (part * ED2K_PART_SIZE) part_data (blocks_from 0 (part_size file_size part)) trusted)"

end
