(* ===== verification/Aich_Merkle.thy ===== *)
theory Aich_Merkle
  imports Aich_Recovery
begin

text \<open>
  The reference Merkle tree of a file and its geometry: where the blocks of a file lie in the
  tree, how deep it is, and that \<^verbatim>\<open>build_from_data\<close> computes exactly this tree.
\<close>

section \<open>Splitting a range\<close>

definition left_size :: "nat \<Rightarrow> bool \<Rightarrow> nat" where
  "left_size n il = (div_ceil n (branch_base n) + of_bool il) div 2 * branch_base n"

lemma sizes_pos [simp]: "0 < ED2K_EMBLOCK_SIZE" "0 < ED2K_PART_SIZE" "0 < branch_base n"
  "ED2K_EMBLOCK_SIZE < ED2K_PART_SIZE" "ED2K_EMBLOCK_SIZE \<noteq> ED2K_PART_SIZE" "\<not> ED2K_PART_SIZE \<le> ED2K_EMBLOCK_SIZE"
  by (simp_all add: ED2K_EMBLOCK_SIZE_def ED2K_PART_SIZE_def branch_base_def)

lemma child_sizes_branch [simp]: "child_sizes n il (branch_base n) = (left_size n il, n - left_size n il)"
  by (simp add: child_sizes_def left_size_def div_ceil_def Let_def)

lemma left_size_bounds:
  assumes "branch_base n < n"
  shows "0 < left_size n il" "left_size n il < n"
  using split_sizes [OF assms] by (simp_all add: left_size_def)

lemma leaf_base: "n \<le> branch_base n \<Longrightarrow> branch_base n = ED2K_EMBLOCK_SIZE"
  by (auto simp: branch_base_def split: if_splits)

lemma leaf_small: "n \<le> branch_base n \<Longrightarrow> n \<le> ED2K_EMBLOCK_SIZE"
  using leaf_base [of n] by simp

lemma tree_new_branch: "tree_new n il (branch_base n) = AichTree n il (branch_base n) (replicate 20 0) False None None"
  by (simp add: tree_new_def branch_base_def)

lemma split_induct [case_names Leaf Split]:
  assumes leaf: "\<And>off n il. n \<le> branch_base n \<Longrightarrow> P off n il"
    and split: "\<And>off n il. branch_base n < n \<Longrightarrow> P off (left_size n il) True \<Longrightarrow>
      P (off + left_size n il) (n - left_size n il) False \<Longrightarrow> P off n il"
  shows "P off n il"
proof (induction n arbitrary: off il rule: less_induct)
  case (less n off il)
  show ?case
  proof (cases "n \<le> branch_base n")
    case False
    then have "branch_base n < n" by simp
    moreover from this have "P off (left_size n il) True" "P (off + left_size n il) (n - left_size n il) False"
      using left_size_bounds [of n il] by (auto intro: less.IH)
    ultimately show ?thesis by (rule split)
  qed (rule leaf)
qed

lemma size_induct [case_names Leaf Split]:
  assumes "\<And>n il. n \<le> branch_base n \<Longrightarrow> P n il"
    and "\<And>n il. branch_base n < n \<Longrightarrow> P (left_size n il) True \<Longrightarrow> P (n - left_size n il) False \<Longrightarrow> P n il"
  shows "P n il"
  by (rule split_induct [of "\<lambda>off :: nat. P" 0 n il]) (rule assms; assumption)+

section \<open>The reference tree\<close>

function full_tree :: "(bytes \<Rightarrow> aich_hash) \<Rightarrow> bytes \<Rightarrow> nat \<Rightarrow> nat \<Rightarrow> bool \<Rightarrow> aich_tree" where
  "full_tree sha1 data off n il =
     (if n \<le> branch_base n then AichTree n il (branch_base n) (sha1 (slice data off n)) True None None
      else
        let l = full_tree sha1 data off (left_size n il) True;
            r = full_tree sha1 data (off + left_size n il) (n - left_size n il) False
        in AichTree n il (branch_base n) (sha1_pair sha1 (node_hash l) (node_hash r)) True (Some l) (Some r))"
  by pat_completeness auto
termination
  by (relation "measure (\<lambda>(sha1, data, off, n, il). n)") (auto simp: left_size_bounds)

text \<open>Before the inner hashes are computed only the leaves carry a hash.\<close>

function lowest_tree :: "(bytes \<Rightarrow> aich_hash) \<Rightarrow> bytes \<Rightarrow> nat \<Rightarrow> nat \<Rightarrow> bool \<Rightarrow> aich_tree" where
  "lowest_tree sha1 data off n il =
     (if n \<le> branch_base n then AichTree n il (branch_base n) (sha1 (slice data off n)) True None None
      else AichTree n il (branch_base n) (replicate 20 0) False
        (Some (lowest_tree sha1 data off (left_size n il) True))
        (Some (lowest_tree sha1 data (off + left_size n il) (n - left_size n il) False)))"
  by pat_completeness auto
termination
  by (relation "measure (\<lambda>(sha1, data, off, n, il). n)") (auto simp: left_size_bounds)

text \<open>The leaves in file order, relative to the start of the range, and the height.\<close>

function leaf_ranges :: "nat \<Rightarrow> bool \<Rightarrow> (nat \<times> nat) list" where
  "leaf_ranges n il =
     (if n \<le> branch_base n then [(0, n)]
      else leaf_ranges (left_size n il) True @
        map (\<lambda>(s, k). (left_size n il + s, k)) (leaf_ranges (n - left_size n il) False))"
  by pat_completeness auto
termination
  by (relation "measure fst") (auto simp: left_size_bounds)

function height :: "nat \<Rightarrow> bool \<Rightarrow> nat" where
  "height n il =
     (if n \<le> branch_base n then 0
      else Suc (max (height (left_size n il) True) (height (n - left_size n il) False)))"
  by pat_completeness auto
termination
  by (relation "measure fst") (auto simp: left_size_bounds)

declare full_tree.simps [simp del] lowest_tree.simps [simp del] leaf_ranges.simps [simp del] height.simps [simp del]

lemma full_tree_simps [simp]:
  "data_size (full_tree sha1 data off n il) = n" "is_left_branch (full_tree sha1 data off n il) = il"
  "base_size (full_tree sha1 data off n il) = branch_base n" "hash_valid (full_tree sha1 data off n il)"
  by (simp_all add: full_tree.simps [of _ _ _ n] Let_def)

lemma recalculate_lowest: "recalculate_hash sha1 d (lowest_tree sha1 data off n il) = (True, full_tree sha1 data off n il)"
proof (induction off n il rule: split_induct)
  case (Leaf off n il)
  then show ?case by (simp add: lowest_tree.simps [of _ _ _ n] full_tree.simps [of _ _ _ n])
next
  case (Split off n il)
  then show ?case by (simp add: lowest_tree.simps [of _ _ _ n] full_tree.simps [of _ _ _ n] Let_def)
qed

lemma leaf_ranges_bounds:
  "0 < n \<Longrightarrow> (s, k) \<in> set (leaf_ranges n il) \<Longrightarrow> s + k \<le> n \<and> 0 < k \<and> k \<le> ED2K_EMBLOCK_SIZE"
proof (induction n il arbitrary: s rule: size_induct)
  case (Leaf n il)
  then show ?case using leaf_base [of n] by (simp add: leaf_ranges.simps [of n])
next
  case (Split n il)
  then show ?case using left_size_bounds [of n il] by (fastforce simp: leaf_ranges.simps [of n])
qed

lemma leaf_ranges_not_Nil [simp]: "leaf_ranges n il \<noteq> []"
proof (induction n il rule: size_induct)
  case (Leaf n il)
  then show ?case by (simp add: leaf_ranges.simps [of n])
next
  case (Split n il)
  then show ?case by (simp add: leaf_ranges.simps [of n])
qed


section \<open>The blocks of a file in the tree\<close>

text \<open>A range cut into chunks of one size, the last one shorter.\<close>

definition chunks :: "nat \<Rightarrow> nat \<Rightarrow> (nat \<times> nat) list" where
  "chunks c n = map (\<lambda>i. (i * c, min (n - i * c) c)) [0..<div_ceil n c]"

lemma div_ceil_mult [simp]: "0 < c \<Longrightarrow> div_ceil (m * c) c = m"
  by (simp add: div_ceil_def)

lemma div_ceil_add: "0 < c \<Longrightarrow> div_ceil (m * c + r) c = m + div_ceil r c"
  by (simp add: div_ceil_def)

lemma div_ceil_small: "0 < n \<Longrightarrow> n \<le> c \<Longrightarrow> div_ceil n c = 1"
  by (cases "n = c") (auto simp: div_ceil_def)

lemma div_ceil_index: "i < div_ceil n c \<Longrightarrow> i * c < n"
proof -
  assume i: "i < div_ceil n c"
  have n: "n = n div c * c + n mod c" by simp
  show ?thesis
  proof (cases "i < n div c")
    case True
    then have "0 < c" by (cases c) auto
    with True have "i * c < n div c * c" by simp
    with n show ?thesis by linarith
  next
    case False
    with i have "i = n div c" "n mod c \<noteq> 0" by (auto simp: div_ceil_def split: if_splits)
    with n show ?thesis by (metis less_add_same_cancel1 neq0_conv)
  qed
qed

lemma chunks_single: "0 < n \<Longrightarrow> n \<le> c \<Longrightarrow> chunks c n = [(0, n)]"
  by (simp add: chunks_def div_ceil_small)

lemma chunks_split:
  assumes "0 < c"
  shows "chunks c (m * c + r) = chunks c (m * c) @ map (\<lambda>(p, s). (m * c + p, s)) (chunks c r)"
proof -
  have "map (\<lambda>i. (i * c, min (m * c + r - i * c) c)) [0..<m] = map (\<lambda>i. (i * c, min (m * c - i * c) c)) [0..<m]"
  proof (rule map_cong [OF refl])
    fix i assume "i \<in> set [0..<m]"
    then have "1 * c \<le> (m - i) * c" by (intro mult_le_mono1) simp
    then have "c \<le> m * c - i * c" by (simp add: diff_mult_distrib)
    then show "(i * c, min (m * c + r - i * c) c) = (i * c, min (m * c - i * c) c)" by simp
  qed
  moreover have "[0..<m + k] = [0..<m] @ map (\<lambda>i. m + i) [0..<k]" for k :: nat
    by (rule nth_equalityI) (auto simp: nth_append)
  ultimately show ?thesis
    using assms by (simp add: chunks_def div_ceil_add add_mult_distrib o_def)
qed

lemma chunks_bounds: "(s, k) \<in> set (chunks c n) \<Longrightarrow> s + k \<le> n \<and> k \<le> c \<and> (0 < c \<longrightarrow> 0 < k)"
  by (auto simp: chunks_def min_def dest!: div_ceil_index)

lemma blocks_from_chunks: "blocks_from pos n = map (\<lambda>(p, s). (pos + p, s)) (chunks ED2K_EMBLOCK_SIZE (n - pos))"
proof (induction pos n rule: blocks_from.induct)
  case (1 pos n)
  let ?c = ED2K_EMBLOCK_SIZE
  show ?case
  proof (cases "n \<le> pos")
    case True
    then show ?thesis by (simp add: blocks_from.simps [of pos] chunks_def div_ceil_def)
  next
    case outer: False
    show ?thesis
    proof (cases "n - pos \<le> ?c")
      case True
      with outer show ?thesis by (simp add: blocks_from.simps [of pos] blocks_from.simps [of n] chunks_single)
    next
      case False
      then have "chunks ?c (n - pos) = (0, ?c) # map (\<lambda>(p, s). (?c + p, s)) (chunks ?c (n - (pos + ?c)))"
        using chunks_split [of ?c 1 "n - (pos + ?c)"] by (simp add: chunks_single)
      with 1 outer False show ?thesis
        by (simp add: blocks_from.simps [of pos] o_def case_prod_unfold add.assoc)
    qed
  qed
qed

lemma left_size_multiple: obtains m where "left_size n il = m * branch_base n"
  by (auto simp: left_size_def)

lemma chunks_left:
  assumes "branch_base n < n"
  shows "chunks (branch_base n) n = chunks (branch_base n) (left_size n il) @
    map (\<lambda>(p, s). (left_size n il + p, s)) (chunks (branch_base n) (n - left_size n il))"
proof -
  obtain m where m: "left_size n il = m * branch_base n" by (rule left_size_multiple)
  then have "n = m * branch_base n + (n - left_size n il)" using left_size_bounds [OF assms, of il] by simp
  then show ?thesis using chunks_split [of "branch_base n" m "n - left_size n il"] m by simp
qed

lemma leaf_ranges_part: "0 < n \<Longrightarrow> n \<le> ED2K_PART_SIZE \<Longrightarrow> leaf_ranges n il = chunks ED2K_EMBLOCK_SIZE n"
proof (induction n il rule: size_induct)
  case (Leaf n il)
  then show ?case using leaf_small [of n] by (simp add: leaf_ranges.simps [of n] chunks_single)
next
  case (Split n il)
  then have "branch_base n = ED2K_EMBLOCK_SIZE" by (simp add: branch_base_def)
  with Split left_size_bounds [of n il] chunks_left [of n il] show ?case
    by (simp add: leaf_ranges.simps [of n])
qed

lemma leaf_ranges_file:
  "0 < n \<Longrightarrow> leaf_ranges n il =
     concat (map (\<lambda>(p, s). map (\<lambda>(x, k). (p + x, k)) (chunks ED2K_EMBLOCK_SIZE s)) (chunks ED2K_PART_SIZE n))"
proof (induction n il rule: size_induct)
  case (Leaf n il)
  then have "n \<le> ED2K_PART_SIZE" using leaf_small [of n] by (meson less_imp_le_nat order_trans sizes_pos(4))
  with Leaf show ?case by (simp add: leaf_ranges_part chunks_single)
next
  case (Split n il)
  show ?case
  proof (cases "n \<le> ED2K_PART_SIZE")
    case True
    with Split show ?thesis by (simp add: leaf_ranges_part chunks_single)
  next
    case False
    then have "branch_base n = ED2K_PART_SIZE" by (simp add: branch_base_def)
    with Split left_size_bounds [of n il] chunks_left [of n il] show ?thesis
      by (simp add: leaf_ranges.simps [of n] map_concat o_def case_prod_unfold add.assoc)
  qed
qed

lemma wrapped_diff:
  fixes a x m :: nat
  assumes "x \<le> a" "a < m"
  shows "(a + (m - x mod m)) mod m = a - x"
proof -
  have "x mod m = x" using assms by simp
  then have "a + (m - x mod m) = (a - x) + m" using assms by linarith
  then have "(a + (m - x mod m)) mod m = (a - x) mod m" by (simp only: mod_add_self2)
  also have "\<dots> = a - x" using assms by simp
  finally show ?thesis .
qed

lemma part_size_in_file:
  "file_size < 2 ^ 64 \<Longrightarrow> part * ED2K_PART_SIZE \<le> file_size \<Longrightarrow>
   part_size file_size part = min (file_size - part * ED2K_PART_SIZE) ED2K_PART_SIZE"
  unfolding part_size_def by (subst wrapped_diff) simp_all

lemma parts_are_chunks:
  assumes "file_size < 2 ^ 64"
  shows "map (\<lambda>part. (part * ED2K_PART_SIZE, part_size file_size part)) [0..<part_count file_size] =
    chunks ED2K_PART_SIZE file_size"
  unfolding chunks_def part_count_def
  using assms by (intro map_cong) (auto simp: part_size_in_file less_imp_le_nat dest!: div_ceil_index)

lemma file_blocks_leaves:
  assumes "0 < file_size" "file_size < 2 ^ 64"
  shows "file_blocks file_size = leaf_ranges file_size True"
  using assms parts_are_chunks [OF assms(2), symmetric]
  by (simp add: leaf_ranges_file file_blocks_def o_def blocks_from_chunks)

lemma split_counts:
  assumes n: "branch_base n < n" and k: "div_ceil n (branch_base n) \<le> 2 ^ d"
  obtains d' where "d = Suc d'" "div_ceil (left_size n il) (branch_base n) \<le> 2 ^ d'"
    "div_ceil (n - left_size n il) (branch_base n) \<le> 2 ^ d'"
proof -
  let ?c = "branch_base n" and ?k = "div_ceil n (branch_base n)"
  define m where "m = (?k + of_bool il) div 2"
  have m: "left_size n il = m * ?c" by (simp add: left_size_def m_def)
  then have "?k = m + div_ceil (n - left_size n il) ?c"
    using left_size_bounds [OF n, of il] div_ceil_add [of ?c m "n - left_size n il"] by simp
  moreover have "2 \<le> ?k" using div_ceil_bounds(1) [OF n] by simp
  moreover from this k obtain d' where d: "d = Suc d'" by (cases d) auto
  ultimately show ?thesis
    using k m by (intro that [of d']) (cases il; simp add: m_def)+
qed

lemma height_part:
  "0 < n \<Longrightarrow> n \<le> ED2K_PART_SIZE \<Longrightarrow> div_ceil n ED2K_EMBLOCK_SIZE \<le> 2 ^ d \<Longrightarrow> height n il \<le> d"
proof (induction n il arbitrary: d rule: size_induct)
  case (Leaf n il)
  then show ?case by (simp add: height.simps [of n])
next
  case (Split n il)
  then have c: "branch_base n = ED2K_EMBLOCK_SIZE" by (simp add: branch_base_def)
  with Split obtain d' where "d = Suc d'" "div_ceil (left_size n il) ED2K_EMBLOCK_SIZE \<le> 2 ^ d'"
    "div_ceil (n - left_size n il) ED2K_EMBLOCK_SIZE \<le> 2 ^ d'"
    by (metis split_counts)
  with Split left_size_bounds [of n il] show ?case by (simp add: height.simps [of n])
qed

lemma part_block_count: "n \<le> ED2K_PART_SIZE \<Longrightarrow> div_ceil n ED2K_EMBLOCK_SIZE \<le> 53"
  using div_ceil_index [of "div_ceil n ED2K_EMBLOCK_SIZE - 1" n ED2K_EMBLOCK_SIZE]
  by (cases "div_ceil n ED2K_EMBLOCK_SIZE") (auto simp: ED2K_PART_SIZE_def ED2K_EMBLOCK_SIZE_def)

lemma height_file: "0 < n \<Longrightarrow> div_ceil n ED2K_PART_SIZE \<le> 2 ^ d \<Longrightarrow> height n il \<le> 6 + d"
proof (induction n il arbitrary: d rule: size_induct)
  case (Leaf n il)
  then show ?case by (simp add: height.simps [of n])
next
  case (Split n il)
  show ?case
  proof (cases "n \<le> ED2K_PART_SIZE")
    case True
    then have "height n il \<le> 6" using Split part_block_count [of n] by (intro height_part) auto
    then show ?thesis by simp
  next
    case False
    then have c: "branch_base n = ED2K_PART_SIZE" by (simp add: branch_base_def)
    with Split obtain d' where "d = Suc d'" "div_ceil (left_size n il) ED2K_PART_SIZE \<le> 2 ^ d'"
      "div_ceil (n - left_size n il) ED2K_PART_SIZE \<le> 2 ^ d'"
      by (metis split_counts)
    with Split left_size_bounds [of n il] show ?thesis by (simp add: height.simps [of n])
  qed
qed

section \<open>Steps of the descents\<close>

lemma find_here: "level < 22 \<Longrightarrow> find_hash_mut upd (AichTree n il b h v l r) 0 n level =
    (Some (AichTree n il b h v l r), Suc level, upd (AichTree n il b h v l r))"
  by (simp add: Let_def)

lemma find_left:
  assumes "level < 22" "branch_base n < n" "start < left_size n il" "start + len \<le> left_size n il"
  shows "find_hash_mut upd (AichTree n il (branch_base n) h v l r) start len level =
    (case find_hash_mut upd (get_branch (left_size n il) True l) start len (Suc level) of
       (res, lv, c) \<Rightarrow> (res, lv, AichTree n il (branch_base n) h v (Some c) r))"
  using assms left_size_bounds [of n il] by (simp add: Let_def)

lemma find_right:
  assumes "level < 22" "branch_base n < n" "start + len \<le> n - left_size n il"
  shows "find_hash_mut upd (AichTree n il (branch_base n) h v l r) (left_size n il + start) len level =
    (case find_hash_mut upd (get_branch (n - left_size n il) False r) start len (Suc level) of
       (res, lv, c) \<Rightarrow> (res, lv, AichTree n il (branch_base n) h v l (Some c)))"
proof -
  have "left_size n il + start + len \<le> n" "len \<le> n" "0 < left_size n il"
    using assms left_size_bounds [of n il] by linarith+
  with assms show ?thesis by (simp add: Let_def)
qed

lemma get_branch_simps [simp]:
  "get_branch n il (Some c) = c"
  "get_branch n il None = AichTree n il (branch_base n) (replicate 20 0) False None None"
  by (simp_all add: get_branch_def tree_new_branch)

declare find_hash_mut.simps [simp del] find_existing_hash.simps [simp del]

lemma try_each_append:
  "try_each f (xs @ ys) s = (case try_each f xs s of (Inl e, s') \<Rightarrow> (Inl e, s') | (Inr u, s') \<Rightarrow> try_each f ys s')"
  by (induction xs arbitrary: s) (auto split: prod.splits sum.splits)

lemma try_each_map: "try_each f (map g xs) s = try_each (\<lambda>x. f (g x)) xs s"
  by (induction xs arbitrary: s) (auto split: prod.splits sum.splits)

lemma try_each_cong [fundef_cong]:
  "xs = ys \<Longrightarrow> s = t \<Longrightarrow> (\<And>x u. x \<in> set ys \<Longrightarrow> f x u = g x u) \<Longrightarrow> try_each f xs s = try_each g ys t"
proof (induction ys arbitrary: xs s t)
  case (Cons y ys)
  then show ?case by (auto split: prod.splits sum.splits)
qed simp

text \<open>A loop whose body works on one branch of a node, creating it first, is the loop on that
  branch.\<close>

lemma try_each_branch:
  assumes "xs \<noteq> []"
    and step: "\<And>x c. x \<in> set xs \<Longrightarrow> f x (K c) = map_prod id (\<lambda>c'. K (Some c')) (g x (get_branch n il c))"
  shows "try_each f xs (K c) = map_prod id (\<lambda>c'. K (Some c')) (try_each g xs (get_branch n il c))"
  using assms
proof (induction xs arbitrary: c)
  case (Cons x xs)
  obtain res c' where g: "g x (get_branch n il c) = (res, c')" by fastforce
  then have f: "f x (K c) = (res, K (Some c'))" using Cons.prems by simp
  show ?case
  proof (cases "xs = []")
    case True
    with f g show ?thesis by (cases res) simp_all
  next
    case False
    with f g Cons show ?thesis by (cases res) simp_all
  qed
qed simp

lemma try_each_halves:
  assumes "xs \<noteq> []" "ys \<noteq> []"
    and l: "\<And>x c r. x \<in> set xs \<Longrightarrow> f x (N c r) = map_prod id (\<lambda>c'. N (Some c') r) (gl x (get_branch nl True c))"
    and r: "\<And>x l c. x \<in> set ys \<Longrightarrow> f x (N l c) = map_prod id (\<lambda>c'. N l (Some c')) (gr x (get_branch nr False c))"
    and "try_each gl xs (get_branch nl True lc) = (Inr (), l')" "try_each gr ys (get_branch nr False rc) = (Inr (), r')"
  shows "try_each f (xs @ ys) (N lc rc) = (Inr (), N (Some l') (Some r'))"
    "try_each f (ys @ xs) (N lc rc) = (Inr (), N (Some l') (Some r'))"
proof -
  have "try_each f xs (N lc r) = (Inr (), N (Some l') r)" for r
    using try_each_branch [of xs f "\<lambda>c. N c r" gl nl True lc] assms by simp
  moreover have "try_each f ys (N l rc) = (Inr (), N l (Some r'))" for l
    using try_each_branch [of ys f "N l" gr nr False rc] assms by simp
  ultimately show "try_each f (xs @ ys) (N lc rc) = (Inr (), N (Some l') (Some r'))"
    "try_each f (ys @ xs) (N lc rc) = (Inr (), N (Some l') (Some r'))"
    by (simp_all add: try_each_append)
qed

section \<open>Building the tree\<close>

text \<open>\<^verbatim>\<open>set_block_hash\<close>, started at some level.\<close>

definition set_block_at :: "nat \<Rightarrow> nat \<Rightarrow> nat \<Rightarrow> aich_hash \<Rightarrow> aich_tree \<Rightarrow> (aich_error + unit) \<times> aich_tree" where
  "set_block_at level start len h t =
     (let wrong = (\<lambda>node. base_size node \<noteq> ED2K_EMBLOCK_SIZE \<or> data_size node \<noteq> len) in
      case find_hash_mut (\<lambda>node. if wrong node then node else with_hash h node) t start len level of
        (None, _, t') \<Rightarrow> (Inl FindHashFailed, t')
      | (Some node, _, t') \<Rightarrow> (if wrong node then Inl WrongNodeValues else Inr (), t'))"

lemma set_block_hash_at: "len \<le> ED2K_EMBLOCK_SIZE \<Longrightarrow> set_block_hash t start len h = set_block_at 0 start len h t"
  by (simp add: set_block_hash_def set_block_at_def)

lemma set_block_at_left:
  assumes "level < 22" "branch_base n < n" "0 < len" "start + len \<le> left_size n il"
  shows "set_block_at level start len h (AichTree n il (branch_base n) h0 v l r) =
    map_prod id (\<lambda>c. AichTree n il (branch_base n) h0 v (Some c) r)
      (set_block_at (Suc level) start len h (get_branch (left_size n il) True l))"
  using assms by (simp add: set_block_at_def find_left split: prod.splits option.splits)

lemma set_block_at_right:
  assumes "level < 22" "branch_base n < n" "start + len \<le> n - left_size n il"
  shows "set_block_at level (left_size n il + start) len h (AichTree n il (branch_base n) h0 v l r) =
    map_prod id (\<lambda>c. AichTree n il (branch_base n) h0 v l (Some c))
      (set_block_at (Suc level) start len h (get_branch (n - left_size n il) False r))"
  using assms by (simp add: set_block_at_def find_right split: prod.splits option.splits)

definition set_leaves :: "(bytes \<Rightarrow> aich_hash) \<Rightarrow> bytes \<Rightarrow> nat \<Rightarrow> nat \<Rightarrow> (nat \<times> nat) list \<Rightarrow> aich_tree \<Rightarrow> (aich_error + unit) \<times> aich_tree" where
  "set_leaves sha1 data off level = try_each (\<lambda>(s, k). set_block_at level s k (sha1 (slice data (off + s) k)))"

lemma set_leaves_halves:
  assumes "level < 22" "branch_base n < n"
    and l: "set_leaves sha1 data off (Suc level) (leaf_ranges (left_size n il) True) (get_branch (left_size n il) True None) = (Inr (), l)"
    and r: "set_leaves sha1 data (off + left_size n il) (Suc level) (leaf_ranges (n - left_size n il) False)
        (get_branch (n - left_size n il) False None) = (Inr (), r)"
  shows "set_leaves sha1 data off level (leaf_ranges n il) (AichTree n il (branch_base n) h v None None) =
    (Inr (), AichTree n il (branch_base n) h v (Some l) (Some r))"
proof -
  let ?f = "\<lambda>off level (s, k). set_block_at level s k (sha1 (slice data (off + s) k))"
  note b = left_size_bounds [OF assms(2), of il]
  have "try_each (?f off level) (leaf_ranges (left_size n il) True @ map (\<lambda>(s, k). (left_size n il + s, k)) (leaf_ranges (n - left_size n il) False))
      (AichTree n il (branch_base n) h v None None) = (Inr (), AichTree n il (branch_base n) h v (Some l) (Some r))"
  proof (rule try_each_halves(1) [where nl = "left_size n il" and nr = "n - left_size n il" and gl = "?f off (Suc level)"
      and gr = "\<lambda>(s, k). set_block_at (Suc level) (s - left_size n il) k (sha1 (slice data (off + s) k))"])
    show "try_each (?f off (Suc level)) (leaf_ranges (left_size n il) True) (get_branch (left_size n il) True None) = (Inr (), l)"
      using l by (simp add: set_leaves_def del: get_branch_simps)
  qed (use r b assms(1,2) leaf_ranges_bounds in
      \<open>auto simp: set_leaves_def try_each_map case_prod_unfold add.assoc set_block_at_left set_block_at_right\<close>)
  then show ?thesis using assms(2) by (simp add: leaf_ranges.simps [of n] set_leaves_def)
qed

lemma set_blocks_lowest:
  "0 < n \<Longrightarrow> level + height n il < 22 \<Longrightarrow>
   set_leaves sha1 data off level (leaf_ranges n il) (get_branch n il None) = (Inr (), lowest_tree sha1 data off n il)"
proof (induction off n il arbitrary: level rule: split_induct)
  case (Leaf off n il)
  then show ?case
    using leaf_base [of n]
    by (simp add: leaf_ranges.simps [of n] lowest_tree.simps [of _ _ _ n] set_leaves_def set_block_at_def find_here)
next
  case (Split off n il)
  note b = left_size_bounds [OF Split.hyps, of il]
  have "level < 22" "Suc level + height (left_size n il) True < 22" "Suc level + height (n - left_size n il) False < 22"
    using Split by (simp_all add: height.simps [of n])
  then show ?case
    using set_leaves_halves [of level n sha1 data off il] Split b by (simp add: lowest_tree.simps [of _ _ _ n])
qed

text \<open>The largest file whose tree stays within the 22 levels of the descents: 32768 parts, some
  318 GB. eMule refuses files beyond 256 GB.\<close>

definition tree_fits :: "nat \<Rightarrow> bool" where
  "tree_fits file_size \<longleftrightarrow> 0 < file_size \<and> file_size \<le> 32768 * ED2K_PART_SIZE"

lemma tree_fits_facts:
  assumes "tree_fits n"
  shows "0 < n" "n < 2 ^ 64" "height n il < 22" "n < 2 ^ 32 \<Longrightarrow> height n il < 16"
proof -
  have count: "div_ceil n ED2K_PART_SIZE \<le> k" if "n \<le> k * ED2K_PART_SIZE" for k
    using div_ceil_index [of k n ED2K_PART_SIZE] that by (meson leD linorder_le_less_linear)
  show n: "0 < n" "n < 2 ^ 64" using assms by (simp_all add: tree_fits_def ED2K_PART_SIZE_def)
  show "height n il < 22"
    using height_file [of n 15 il] count [of 32768] assms n by (simp add: tree_fits_def)
  show "height n il < 16" if "n < 2 ^ 32"
    using height_file [of n 9 il] count [of 512] that n by (simp add: ED2K_PART_SIZE_def)
qed

lemma hash_set_new_root: "hash_set_new n = \<lparr> rs_root = get_branch n True None, rs_file_size = n \<rparr>"
  by (simp add: hash_set_new_def get_branch_def branch_base_def Let_def)

lemma build_full:
  assumes "tree_fits n" "length data = n"
  shows "build_from_data sha1 data (hash_set_new n) = (Inr (), \<lparr> rs_root = full_tree sha1 data 0 n True, rs_file_size = n \<rparr>)"
proof -
  note n = tree_fits_facts [OF assms(1)]
  have "try_each (\<lambda>(s, k) t. set_block_hash t s k (sha1 (slice data s k))) (leaf_ranges n True) (get_branch n True None) =
      set_leaves sha1 data 0 0 (leaf_ranges n True) (get_branch n True None)"
    unfolding set_leaves_def using leaf_ranges_bounds [OF n(1)] by (intro try_each_cong) (auto simp: set_block_hash_at)
  then show ?thesis
    using set_blocks_lowest [of n 0 True sha1 data 0] n assms(2)
    by (simp add: build_from_data_def hash_set_new_root file_blocks_leaves recalculate_lowest)
qed

end
