(* ===== verification/Aich_Proof.thy ===== *)
theory Aich_Proof
  imports Aich_Merkle
begin

text \<open>
  Recovery data as Merkle proofs. A path from the root names a node of the tree; the recovery
  data of a part are the hashes of the siblings along its path and of its blocks, each under the
  identifier that spells its path. The theory shows that what \<^verbatim>\<open>create_part_recovery_data\<close> writes
  is read back by \<^verbatim>\<open>read_recovery_data\<close> to the true block hashes (completeness), and that any
  body that \<^verbatim>\<open>read_recovery_data\<close> accepts yields the true block hashes or exhibits a collision of
  the hash function (soundness).
\<close>

section \<open>Paths\<close>

text \<open>\<open>True\<close> goes to the left child, as a one bit of an identifier does.\<close>

fun valid_path :: "nat \<Rightarrow> bool \<Rightarrow> bool list \<Rightarrow> bool" where
  "valid_path n il [] = True"
| "valid_path n il (True # p) = (branch_base n < n \<and> valid_path (left_size n il) True p)"
| "valid_path n il (False # p) = (branch_base n < n \<and> valid_path (n - left_size n il) False p)"

fun path_range :: "nat \<Rightarrow> bool \<Rightarrow> bool list \<Rightarrow> nat \<times> nat" where
  "path_range n il [] = (0, n)"
| "path_range n il (True # p) = path_range (left_size n il) True p"
| "path_range n il (False # p) = (case path_range (n - left_size n il) False p of (s, k) \<Rightarrow> (left_size n il + s, k))"

lemma path_range_bounds:
  "0 < n \<Longrightarrow> valid_path n il p \<Longrightarrow> path_range n il p = (s, k) \<Longrightarrow> s + k \<le> n \<and> 0 < k \<and> (p \<noteq> [] \<longrightarrow> k < n)"
proof (induction n il p arbitrary: s rule: valid_path.induct)
  case (2 n il p)
  then show ?case using left_size_bounds [of n il] by fastforce
next
  case (3 n il p)
  then show ?case using left_size_bounds [of n il] by (fastforce split: prod.splits)
qed simp

lemma path_height: "valid_path n il p \<Longrightarrow> length p \<le> height n il"
proof (induction n il p rule: valid_path.induct)
  case (2 n il p)
  then show ?case by (simp add: height.simps [of n])
next
  case (3 n il p)
  then show ?case by (simp add: height.simps [of n])
qed simp

lemma part_path_ex:
  "0 < n \<Longrightarrow> (s, k) \<in> set (chunks ED2K_PART_SIZE n) \<Longrightarrow> \<exists>p. valid_path n il p \<and> path_range n il p = (s, k)"
proof (induction n il arbitrary: s rule: size_induct)
  case (Leaf n il)
  then have "n \<le> ED2K_PART_SIZE" using leaf_small [of n] by (meson less_imp_le_nat order_trans sizes_pos(4))
  with Leaf show ?case by (intro exI [of _ "[]"]) (simp add: chunks_single)
next
  case (Split n il)
  note b = left_size_bounds [OF Split.hyps, of il]
  show ?case
  proof (cases "n \<le> ED2K_PART_SIZE")
    case True
    with Split show ?thesis by (intro exI [of _ "[]"]) (simp add: chunks_single)
  next
    case False
    then have "branch_base n = ED2K_PART_SIZE" by (simp add: branch_base_def)
    with chunks_left [OF Split.hyps, of il] Split.prems consider
      "(s, k) \<in> set (chunks ED2K_PART_SIZE (left_size n il))"
    | s' where "s = left_size n il + s'" "(s', k) \<in> set (chunks ED2K_PART_SIZE (n - left_size n il))"
      by auto
    then show ?thesis
    proof cases
      case 1
      then obtain p where "valid_path (left_size n il) True p" "path_range (left_size n il) True p = (s, k)"
        using Split.IH(1) b by blast
      then show ?thesis using Split.hyps by (intro exI [of _ "True # p"]) simp
    next
      case 2
      then obtain p where "valid_path (n - left_size n il) False p" "path_range (n - left_size n il) False p = (s', k)"
        using Split.IH(2) [of s'] b by auto
      then show ?thesis using Split.hyps 2 by (intro exI [of _ "False # p"]) simp
    qed
  qed
qed

section \<open>The hashes of a proof\<close>

type_synonym proof_item = "bool list \<times> aich_hash"

definition under :: "bool \<Rightarrow> proof_item list \<Rightarrow> proof_item list" where
  "under b = map (\<lambda>(p, h). (b # p, h))"

definition range_hash :: "(bytes \<Rightarrow> aich_hash) \<Rightarrow> bytes \<Rightarrow> nat \<Rightarrow> nat \<Rightarrow> bool \<Rightarrow> aich_hash" where
  "range_hash sha1 data off n il = node_hash (full_tree sha1 data off n il)"

function low_items :: "(bytes \<Rightarrow> aich_hash) \<Rightarrow> bytes \<Rightarrow> nat \<Rightarrow> nat \<Rightarrow> bool \<Rightarrow> proof_item list" where
  "low_items sha1 data off n il =
     (if n \<le> branch_base n then [([], sha1 (slice data off n))]
      else under True (low_items sha1 data off (left_size n il) True) @
        under False (low_items sha1 data (off + left_size n il) (n - left_size n il) False))"
  by pat_completeness auto
termination
  by (relation "measure (\<lambda>(sha1, data, off, n, il). n)") (auto simp: left_size_bounds)

declare low_items.simps [simp del]

fun part_items :: "(bytes \<Rightarrow> aich_hash) \<Rightarrow> bytes \<Rightarrow> nat \<Rightarrow> nat \<Rightarrow> bool \<Rightarrow> bool list \<Rightarrow> proof_item list" where
  "part_items sha1 data off n il [] = low_items sha1 data off n il"
| "part_items sha1 data off n il (True # p) =
     under False [([], range_hash sha1 data (off + left_size n il) (n - left_size n il) False)] @
     under True (part_items sha1 data off (left_size n il) True p)"
| "part_items sha1 data off n il (False # p) =
     under True [([], range_hash sha1 data off (left_size n il) True)] @
     under False (part_items sha1 data (off + left_size n il) (n - left_size n il) False p)"

definition encode_items :: "bool \<Rightarrow> u32 \<Rightarrow> proof_item list \<Rightarrow> bytes" where
  "encode_items use_32bit ident items =
     concat (map (\<lambda>(p, h). ident_bytes use_32bit (foldl shift_in ident p) @ h) items)"

lemma encode_items_simps [simp]:
  "encode_items w i [] = []"
  "encode_items w i ((p, h) # xs) = ident_bytes w (foldl shift_in i p) @ h @ encode_items w i xs"
  "encode_items w i (xs @ ys) = encode_items w i xs @ encode_items w i ys"
  "encode_items w i (under b xs) = encode_items w (shift_in i b) xs"
  by (simp_all add: encode_items_def under_def o_def case_prod_unfold)

lemma under_Cons [simp]: "under b ((p, h) # xs) = (b # p, h) # under b xs" "under b [] = []" "length (under b xs) = length xs"
  "under b xs = [] \<longleftrightarrow> xs = []"
  by (simp_all add: under_def)

lemma write_lowest_items:
  "write_lowest_level_hashes (full_tree sha1 data off n il) ident w =
     Inr (encode_items w (shift_in ident il) (low_items sha1 data off n il))"
proof (induction off n il arbitrary: ident rule: split_induct)
  case (Leaf off n il)
  then show ?case by (simp add: full_tree.simps [of _ _ _ n] low_items.simps [of _ _ _ n] Let_def)
next
  case (Split off n il)
  then show ?case
    by (simp add: full_tree.simps [of _ _ _ n] low_items.simps [of _ _ _ n] Let_def try_bind_def)
qed

lemma tree_recovery_data_branch:
  "tree_recovery_data (AichTree n il (branch_base n) h v (Some lt) (Some rt)) s k ident w =
     (if s + k > n \<or> k > n then Inl RangeOutOfBounds
      else if s = 0 \<and> k = n then write_lowest_level_hashes (AichTree n il (branch_base n) h v (Some lt) (Some rt)) ident w
      else if n \<le> branch_base n then Inl BelowBaseSize
      else if s < left_size n il then
        if s + k > left_size n il \<or> \<not> hash_valid rt then Inl InvalidLeftDescent
        else try_bind (tree_recovery_data lt s k (shift_in ident il) w) (\<lambda>out. Inr (write_hash rt (shift_in ident il) w @ out))
      else if s - left_size n il + k > n - left_size n il \<or> \<not> hash_valid lt then Inl InvalidRightDescent
      else try_bind (tree_recovery_data rt (s - left_size n il) k (shift_in ident il) w)
        (\<lambda>out. Inr (write_hash lt (shift_in ident il) w @ out)))"
  by (cases il) (simp_all only: tree_recovery_data.simps Let_def left_size_def div_ceil_def of_bool_def if_True if_False
      option.case add_0_right)

declare tree_recovery_data.simps [simp del]

lemma recovery_left:
  assumes "branch_base n < n" "0 < k" "s + k \<le> left_size n il" "hash_valid rt"
  shows "tree_recovery_data (AichTree n il (branch_base n) h v (Some lt) (Some rt)) s k ident w =
    try_bind (tree_recovery_data lt s k (shift_in ident il) w) (\<lambda>out. Inr (write_hash rt (shift_in ident il) w @ out))"
proof -
  have "s + k \<le> n" "k < n" "s < left_size n il" using assms left_size_bounds [of n il] by linarith+
  with assms show ?thesis by (simp add: tree_recovery_data_branch)
qed

lemma recovery_right:
  assumes "branch_base n < n" "0 < k" "s + k \<le> n - left_size n il" "hash_valid lt"
  shows "tree_recovery_data (AichTree n il (branch_base n) h v (Some lt) (Some rt)) (left_size n il + s) k ident w =
    try_bind (tree_recovery_data rt s k (shift_in ident il) w) (\<lambda>out. Inr (write_hash lt (shift_in ident il) w @ out))"
proof -
  have "left_size n il + s + k \<le> n" "k \<le> n" "0 < left_size n il" using assms left_size_bounds [of n il] by linarith+
  with assms show ?thesis by (simp add: tree_recovery_data_branch)
qed

lemma tree_recovery_items:
  "0 < n \<Longrightarrow> valid_path n il p \<Longrightarrow> path_range n il p = (s, k) \<Longrightarrow>
   tree_recovery_data (full_tree sha1 data off n il) s k ident w =
     Inr (encode_items w (shift_in ident il) (part_items sha1 data off n il p))"
proof (induction n il p arbitrary: off s ident rule: valid_path.induct)
  case (1 n il)
  have "tree_recovery_data t 0 (data_size t) ident w = write_lowest_level_hashes t ident w" for t
    by (cases t) (simp add: tree_recovery_data.simps)
  from this [of "full_tree sha1 data off n il"] 1 show ?case by (simp add: write_lowest_items)
next
  case (2 n il p)
  then have "branch_base n < n" "s + k \<le> left_size n il" "0 < k" "0 < left_size n il"
    using left_size_bounds [of n il] path_range_bounds [of "left_size n il" True p s k] by auto
  with 2 show ?case
    by (simp add: full_tree.simps [of _ _ _ n] Let_def recovery_left try_bind_def write_hash_def range_hash_def)
next
  case (3 n il p)
  then obtain s' where s': "path_range (n - left_size n il) False p = (s', k)" "s = left_size n il + s'"
    by (auto split: prod.splits)
  with 3 have "branch_base n < n" "s' + k \<le> n - left_size n il" "0 < k" "0 < n - left_size n il"
    using left_size_bounds [of n il] path_range_bounds [of "n - left_size n il" False p s' k] by auto
  with 3 s' show ?case
    by (simp add: full_tree.simps [of _ _ _ n] Let_def recovery_right try_bind_def write_hash_def range_hash_def)
qed

section \<open>Identifiers\<close>

fun set_path :: "bool list \<Rightarrow> aich_hash \<Rightarrow> aich_tree \<Rightarrow> (aich_error + unit) \<times> aich_tree" where
  "set_path [] h t = (Inr (), if hash_valid t then t else with_hash h t)"
| "set_path (b # p) h (AichTree n il base h0 v l r) =
     (if n \<le> base then (Inl BelowBaseSize, AichTree n il base h0 v l r)
      else if b then map_prod id (\<lambda>c. AichTree n il base h0 v (Some c) r)
        (set_path p h (get_branch (fst (child_sizes n il base)) True l))
      else map_prod id (\<lambda>c. AichTree n il base h0 v l (Some c))
        (set_path p h (get_branch (snd (child_sizes n il base)) False r)))"

definition path_ident :: "bool list \<Rightarrow> u32" where
  "path_ident p = foldl shift_in 1 p"

lemma bit_times_two: "bit (w * 2 :: u32) i \<longleftrightarrow> 0 < i \<and> i < 32 \<and> bit w (i - 1)"
proof -
  have "w * 2 = push_bit 1 w" by simp
  then show ?thesis
    by (simp only: bit_push_bit_iff) (auto simp: Suc_le_eq)
qed

lemma bit_path_ident:
  "length p \<le> 31 \<Longrightarrow> bit (path_ident p) i \<longleftrightarrow> i = length p \<or> i < length p \<and> p ! (length p - 1 - i)"
proof (induction p arbitrary: i rule: rev_induct)
  case Nil
  then show ?case by (simp add: path_ident_def bit_1_iff)
next
  case (snoc b p)
  have "path_ident (p @ [b]) = push_bit 1 (path_ident p) OR (if b then 1 else 0)"
    by (simp add: path_ident_def shift_in_def)
  then have step: "bit (path_ident (p @ [b])) i \<longleftrightarrow> (case i of 0 \<Rightarrow> b | Suc j \<Rightarrow> j < 31 \<and> bit (path_ident p) j)"
    by (cases i) (auto simp: bit_times_two bit_simps)
  show ?case
  proof (cases i)
    case 0
    then show ?thesis using step by (simp add: nth_append)
  next
    case (Suc j)
    then show ?thesis using step snoc.IH [of j] snoc.prems by (auto simp: nth_append)
  qed
qed

lemma set_hash_at_path:
  "length p \<le> 31 \<Longrightarrow> (\<And>i. i < length p \<Longrightarrow> bit w (30 - i) = p ! i) \<Longrightarrow>
   set_hash_at h False w (length p) t = set_path p h t"
proof (induction p arbitrary: w t)
  case (Cons b p)
  obtain n il base h0 v l r where t: "t = AichTree n il base h0 v l r" by (cases t)
  have b: "bit (push_bit 1 w) 31 = b" using Cons.prems(2) [of 0] by (simp add: bit_times_two bit_simps)
  have "bit (push_bit 1 w) (30 - i) = p ! i" if "i < length p" for i
  proof -
    have "30 - i = Suc (30 - Suc i)" using that Cons.prems(1) by simp
    then show ?thesis using Cons.prems(2) [of "Suc i"] that by (simp add: bit_times_two less_imp_diff_less)
  qed
  then have "set_hash_at h False (push_bit 1 w) (length p) c = set_path p h c" for c
    using Cons by simp
  with b show ?case by (auto simp: t case_prod_unfold Let_def map_prod_def)
qed simp

declare align_ident.simps [simp del]

lemma align_ident_top:
  "j \<le> 31 \<Longrightarrow> bit w j \<Longrightarrow> (\<And>i. j < i \<Longrightarrow> \<not> bit w i) \<Longrightarrow> 31 - j \<le> l \<Longrightarrow>
   align_ident l w = Some (l - (31 - j), push_bit (31 - j) w)"
proof (induction "31 - j" arbitrary: j l w)
  case 0
  then show ?case by (simp add: align_ident.simps [of l])
next
  case (Suc d)
  then obtain l' where l: "l = Suc l'" by (cases l) auto
  have "align_ident l' (push_bit 1 w) = Some (l' - (31 - Suc j), push_bit (31 - Suc j) (push_bit 1 w))"
    using Suc.prems Suc.hyps(2) l by (intro Suc.hyps(1)) (auto simp: bit_times_two bit_simps)
  moreover have "\<not> bit w 31" using Suc by auto
  moreover have "31 - j = Suc (31 - Suc j)" using Suc by simp
  ultimately show ?case by (simp add: align_ident.simps [of "Suc l'"] l)
qed

lemma set_hash_path:
  assumes "length p \<le> 31"
  shows "set_hash h (path_ident p) False t = set_path p h t"
proof -
  have "align_ident 31 (path_ident p) = Some (31 - (31 - length p), push_bit (31 - length p) (path_ident p))"
    using assms by (intro align_ident_top) (auto simp: bit_path_ident)
  moreover have "bit (push_bit (31 - length p) (path_ident p)) (30 - i) = p ! i" if "i < length p" for i
    using assms that by (auto simp: bit_times_two bit_simps bit_path_ident)
  ultimately show ?thesis using assms by (simp add: set_hash_def set_hash_at_path)
qed

lemma path_ident_bounds:
  assumes "p \<noteq> []"
  shows "length p \<le> 31 \<Longrightarrow> path_ident p \<noteq> 1" "length p \<le> 21 \<Longrightarrow> \<not> path_ident p > 0x400000"
    "length p \<le> 15 \<Longrightarrow> ucast (ucast (path_ident p) :: u16) = path_ident p"
proof -
  show "path_ident p \<noteq> 1" if "length p \<le> 31"
    using bit_path_ident [OF that, of "length p"] assms by (auto simp: bit_1_iff)
  show "\<not> path_ident p > 0x400000" if "length p \<le> 21"
  proof -
    have "take_bit 22 (path_ident p) = path_ident p"
      using that by (intro bit_word_eqI) (auto simp: bit_times_two bit_simps bit_path_ident)
    then have "unat (path_ident p) < 2 ^ 22"
      by (metis take_bit_nat_less_exp unsigned_take_bit_eq)
    then show ?thesis by (simp add: word_less_nat_alt)
  qed
  show "ucast (ucast (path_ident p) :: u16) = path_ident p" if "length p \<le> 15"
    using that by (intro bit_word_eqI) (auto simp: bit_times_two bit_simps bit_path_ident)
qed

section \<open>Reading a proof\<close>

definition item_ok :: "bool \<Rightarrow> proof_item \<Rightarrow> bool" where
  "item_ok use_32bit = (\<lambda>(p, h). p \<noteq> [] \<and> length p \<le> (if use_32bit then 21 else 15) \<and> length h = 20)"

definition set_items :: "proof_item list \<Rightarrow> aich_tree \<Rightarrow> (aich_error + unit) \<times> aich_tree" where
  "set_items = try_each (\<lambda>(p, h). set_path p h)"

lemma read_ident_path:
  assumes "item_ok w (p, h)"
  shows "read_ident w (ident_bytes w (path_ident p) @ rest) = Inr (path_ident p, rest)"
  using assms path_ident_bounds(3) [of p]
  by (auto simp: read_ident_def ident_bytes_def reader_u32_def reader_u16_def item_ok_def try_bind_def)

lemma read_hashes_items:
  "list_all (item_ok w) items \<Longrightarrow>
   read_hashes w (length items) (encode_items w 1 items @ rest) t = set_items items t"
proof (induction items arbitrary: t)
  case (Cons item items)
  obtain p h where item: "item = (p, h)" by fastforce
  then have ok: "item_ok w (p, h)" using Cons.prems by simp
  then have "path_ident p \<noteq> 1" "(w \<and> path_ident p > 0x400000) = False" "length p \<le> 31" "length h = 20"
    using path_ident_bounds [of p] by (auto simp: item_ok_def split: if_splits)
  moreover have "foldl shift_in 1 p = path_ident p" by (simp add: path_ident_def)
  ultimately show ?case
    using Cons read_ident_path [OF ok]
    by (cases w) (simp_all add: item set_items_def reader_hash_def HASHSIZE_def set_hash_path split: prod.splits sum.splits)
qed (simp add: set_items_def)

lemma length_encode_items:
  "list_all (item_ok w) items \<Longrightarrow> length (encode_items w i items) = length items * (HASHSIZE + (if w then 4 else 2))"
  by (induction items) (auto simp: item_ok_def HASHSIZE_def ident_bytes_def)

lemma set_items_halves:
  assumes "branch_base n < n" "xs \<noteq> []" "ys \<noteq> []"
    and "set_items xs (get_branch (left_size n il) True l) = (Inr (), l')"
    and "set_items ys (get_branch (n - left_size n il) False r) = (Inr (), r')"
  shows "set_items (under True xs @ under False ys) (AichTree n il (branch_base n) h v l r) =
      (Inr (), AichTree n il (branch_base n) h v (Some l') (Some r'))"
    "set_items (under False ys @ under True xs) (AichTree n il (branch_base n) h v l r) =
      (Inr (), AichTree n il (branch_base n) h v (Some l') (Some r'))"
proof -
  let ?g = "\<lambda>(p, h). set_path (tl p) h"
  have g: "try_each ?g (under b zs) t = set_items zs t" for b zs t
    by (simp add: set_items_def under_def try_each_map case_prod_unfold)
  note halves = try_each_halves [where f = "\<lambda>(p, h). set_path p h" and N = "AichTree n il (branch_base n) h v"
      and gl = ?g and gr = ?g and nl = "left_size n il" and nr = "n - left_size n il"
      and xs = "under True xs" and ys = "under False ys" and lc = l and rc = r and l' = l' and r' = r']
  show "set_items (under True xs @ under False ys) (AichTree n il (branch_base n) h v l r) =
      (Inr (), AichTree n il (branch_base n) h v (Some l') (Some r'))"
    "set_items (under False ys @ under True xs) (AichTree n il (branch_base n) h v l r) =
      (Inr (), AichTree n il (branch_base n) h v (Some l') (Some r'))"
    unfolding set_items_def by (rule halves; use assms g in \<open>auto simp: under_def\<close>)+
qed

section \<open>The trees a downloader goes through\<close>

text \<open>After the descent to the part, after reading the proof, and after verification.\<close>

fun skeleton :: "nat \<Rightarrow> bool \<Rightarrow> bool list \<Rightarrow> aich_tree" where
  "skeleton n il [] = get_branch n il None"
| "skeleton n il (True # p) =
     AichTree n il (branch_base n) (replicate 20 0) False (Some (skeleton (left_size n il) True p)) None"
| "skeleton n il (False # p) =
     AichTree n il (branch_base n) (replicate 20 0) False None (Some (skeleton (n - left_size n il) False p))"

definition stub :: "(bytes \<Rightarrow> aich_hash) \<Rightarrow> bytes \<Rightarrow> nat \<Rightarrow> nat \<Rightarrow> bool \<Rightarrow> aich_tree" where
  "stub sha1 data off n il = AichTree n il (branch_base n) (range_hash sha1 data off n il) True None None"

fun proof_tree :: "(bytes \<Rightarrow> aich_hash) \<Rightarrow> bytes \<Rightarrow> nat \<Rightarrow> nat \<Rightarrow> bool \<Rightarrow> bool list \<Rightarrow> aich_tree" where
  "proof_tree sha1 data off n il [] = lowest_tree sha1 data off n il"
| "proof_tree sha1 data off n il (True # p) = AichTree n il (branch_base n) (replicate 20 0) False
     (Some (proof_tree sha1 data off (left_size n il) True p))
     (Some (stub sha1 data (off + left_size n il) (n - left_size n il) False))"
| "proof_tree sha1 data off n il (False # p) = AichTree n il (branch_base n) (replicate 20 0) False
     (Some (stub sha1 data off (left_size n il) True))
     (Some (proof_tree sha1 data (off + left_size n il) (n - left_size n il) False p))"

fun verified_tree :: "(bytes \<Rightarrow> aich_hash) \<Rightarrow> bytes \<Rightarrow> nat \<Rightarrow> nat \<Rightarrow> bool \<Rightarrow> bool list \<Rightarrow> aich_tree" where
  "verified_tree sha1 data off n il [] = full_tree sha1 data off n il"
| "verified_tree sha1 data off n il (True # p) = AichTree n il (branch_base n) (range_hash sha1 data off n il) True
     (Some (verified_tree sha1 data off (left_size n il) True p))
     (Some (stub sha1 data (off + left_size n il) (n - left_size n il) False))"
| "verified_tree sha1 data off n il (False # p) = AichTree n il (branch_base n) (range_hash sha1 data off n il) True
     (Some (stub sha1 data off (left_size n il) True))
     (Some (verified_tree sha1 data (off + left_size n il) (n - left_size n il) False p))"

lemma low_items_not_Nil [simp]: "low_items sha1 data off n il \<noteq> []"
proof (induction off n il rule: split_induct)
  case (Leaf off n il)
  then show ?case by (simp add: low_items.simps [of _ _ _ n])
next
  case (Split off n il)
  then show ?case by (simp add: low_items.simps [of _ _ _ n])
qed

lemma part_items_not_Nil [simp]: "part_items sha1 data off n il p \<noteq> []"
  by (induction sha1 data off n il p rule: part_items.induct) simp_all

lemma set_low_items:
  "set_items (low_items sha1 data off n il) (get_branch n il None) = (Inr (), lowest_tree sha1 data off n il)"
proof (induction off n il rule: split_induct)
  case (Leaf off n il)
  then show ?case by (simp add: low_items.simps [of _ _ _ n] lowest_tree.simps [of _ _ _ n] set_items_def)
next
  case (Split off n il)
  then show ?case by (simp add: low_items.simps [of _ _ _ n] lowest_tree.simps [of _ _ _ n] set_items_halves)
qed

lemma set_stub: "set_items [([], range_hash sha1 data off n il)] (get_branch n il None) = (Inr (), stub sha1 data off n il)"
  by (simp add: set_items_def stub_def)

lemma set_part_items:
  "valid_path n il p \<Longrightarrow> set_items (part_items sha1 data off n il p) (skeleton n il p) = (Inr (), proof_tree sha1 data off n il p)"
proof (induction sha1 data off n il p rule: part_items.induct)
  case (1 sha1 data off n il)
  then show ?case by (simp add: set_low_items del: get_branch_simps)
next
  case (2 sha1 data off n il p)
  then show ?case
    using set_stub [of sha1 data "off + left_size n il" "n - left_size n il" False]
    by (simp add: set_items_halves(2) [where xs = "part_items sha1 data off (left_size n il) True p"] del: get_branch_simps(2) under_Cons(1,2))
next
  case (3 sha1 data off n il p)
  then show ?case
    using set_stub [of sha1 data off "left_size n il" True]
    by (simp add: set_items_halves(1) [where xs = "[([], range_hash sha1 data off (left_size n il) True)]"] del: get_branch_simps(2) under_Cons(1,2))
qed

lemma with_hash_new: "with_hash h (get_branch n il None) = AichTree n il (branch_base n) h True None None"
  by simp

lemma set_root_items:
  assumes "branch_base n < n" "valid_path n il p"
  shows "set_items (part_items sha1 data off n il p) (with_hash h (skeleton n il p)) =
    (Inr (), with_hash h (proof_tree sha1 data off n il p))"
proof (cases p)
  case Nil
  then show ?thesis using assms
    by (simp add: low_items.simps [of _ _ _ n] lowest_tree.simps [of _ _ _ n] with_hash_new set_items_halves
        set_low_items del: get_branch_simps(2))
next
  case (Cons b q)
  show ?thesis
  proof (cases b)
    case True
    with Cons assms show ?thesis
      using set_stub [of sha1 data "off + left_size n il" "n - left_size n il" False]
      by (simp add: set_items_halves(2) [where xs = "part_items sha1 data off (left_size n il) True q"] set_part_items
          del: get_branch_simps(2) under_Cons(1,2))
  next
    case False
    with Cons assms show ?thesis
      using set_stub [of sha1 data off "left_size n il" True]
      by (simp add: set_items_halves(1) [where xs = "[([], range_hash sha1 data off (left_size n il) True)]"] set_part_items
          del: get_branch_simps(2) under_Cons(1,2))
  qed
qed

text \<open>The size of a proof.\<close>

lemma length_low_items: "length (low_items sha1 data off n il) = length (leaf_ranges n il)"
proof (induction off n il rule: split_induct)
  case (Leaf off n il)
  then show ?case by (simp add: low_items.simps [of _ _ _ n] leaf_ranges.simps [of n])
next
  case (Split off n il)
  then show ?case by (simp add: low_items.simps [of _ _ _ n] leaf_ranges.simps [of n])
qed

lemma length_part_items:
  "0 < n \<Longrightarrow> valid_path n il p \<Longrightarrow> path_range n il p = (s, k) \<Longrightarrow> k \<le> ED2K_PART_SIZE \<Longrightarrow>
   length (part_items sha1 data off n il p) = length p + div_ceil k ED2K_EMBLOCK_SIZE"
proof (induction sha1 data off n il p arbitrary: s rule: part_items.induct)
  case (1 sha1 data off n il)
  then show ?case by (simp add: length_low_items leaf_ranges_part chunks_def)
next
  case (2 sha1 data off n il p)
  then show ?case using left_size_bounds [of n il] by simp
next
  case (3 sha1 data off n il p)
  then show ?case using left_size_bounds [of n il] by (auto split: prod.splits)
qed

lemma length_range_hash: "(\<And>x. length (sha1 x) = 20) \<Longrightarrow> length (range_hash sha1 data off n il) = 20"
  by (simp add: range_hash_def full_tree.simps [of _ _ _ n] sha1_pair_def Let_def)

lemma low_items_ok:
  assumes "\<And>x. length (sha1 x) = 20"
  shows "(p, h) \<in> set (low_items sha1 data off n il) \<Longrightarrow> length p \<le> height n il \<and> length h = 20"
proof (induction off n il arbitrary: p rule: split_induct)
  case (Leaf off n il)
  then show ?case by (simp add: low_items.simps [of _ _ _ n] assms)
next
  case (Split off n il)
  then show ?case by (fastforce simp: low_items.simps [of _ _ _ n] height.simps [of n] under_def)
qed

lemma part_items_ok:
  assumes "\<And>x. length (sha1 x) = 20"
  shows "valid_path n il q \<Longrightarrow> (p, h) \<in> set (part_items sha1 data off n il q) \<Longrightarrow> length p \<le> height n il \<and> length h = 20"
proof (induction n il q arbitrary: off p rule: valid_path.induct)
  case (1 n il)
  then show ?case using low_items_ok [OF assms] by simp
next
  case (2 n il q)
  then show ?case
    by (auto simp: under_def height.simps [of n] length_range_hash [OF assms] le_max_iff_disj)
next
  case (3 n il q)
  then show ?case
    by (auto simp: under_def height.simps [of n] length_range_hash [OF assms] le_max_iff_disj)
qed

section \<open>Descending and verifying\<close>

fun rehash :: "aich_hash \<Rightarrow> bool \<Rightarrow> aich_tree \<Rightarrow> aich_tree" where
  "rehash h v (AichTree n il b h0 v0 l r) = AichTree n il b h v l r"

lemma with_hash_rehash: "with_hash h t = rehash h True t"
  by (cases t) simp

lemma rehash_skeleton: "rehash (replicate 20 0) False (skeleton n il p) = skeleton n il p"
  by (cases "(n, il, p)" rule: skeleton.cases) auto

lemma find_fresh:
  "0 < n \<Longrightarrow> valid_path n il p \<Longrightarrow> path_range n il p = (s, k) \<Longrightarrow> level + length p < 22 \<Longrightarrow>
   \<exists>node. find_hash_mut (\<lambda>n. n) (rehash h v (get_branch n il None)) s k level =
     (Some node, Suc level + length p, rehash h v (skeleton n il p))"
proof (induction n il p arbitrary: s level h v rule: valid_path.induct)
  case (1 n il)
  then show ?case by (simp add: find_here)
next
  case (2 n il p)
  then have "branch_base n < n" "s + k \<le> left_size n il" "0 < k" "0 < left_size n il"
    using left_size_bounds [of n il] path_range_bounds [of "left_size n il" True p s k] by auto
  with 2(1) [of s "Suc level" "replicate 20 0" False] 2(2-) show ?case
    by (auto simp: find_left rehash_skeleton)
next
  case (3 n il p)
  then obtain s' where s': "path_range (n - left_size n il) False p = (s', k)" "s = left_size n il + s'"
    by (auto split: prod.splits)
  with 3 have "branch_base n < n" "s' + k \<le> n - left_size n il" "0 < k" "0 < n - left_size n il"
    using left_size_bounds [of n il] path_range_bounds [of "n - left_size n il" False p s' k] by auto
  with 3(1) [of s' "Suc level" "replicate 20 0" False] 3(2-) s' show ?case
    by (auto simp: find_right rehash_skeleton)
qed

lemma find_full:
  "0 < n \<Longrightarrow> valid_path n il p \<Longrightarrow> path_range n il p = (s, k) \<Longrightarrow> level + length p < 22 \<Longrightarrow>
   \<exists>node. find_hash_mut (\<lambda>n. n) (full_tree sha1 data off n il) s k level =
     (Some node, Suc level + length p, full_tree sha1 data off n il)"
proof (induction n il p arbitrary: s level off rule: valid_path.induct)
  case (1 n il)
  have "level < 22 \<Longrightarrow> find_hash_mut (\<lambda>n. n) t 0 (data_size t) level = (Some t, Suc level, t)" for t
    by (cases t) (simp add: find_here)
  from this [of "full_tree sha1 data off n il"] 1 show ?case by simp
next
  case (2 n il p)
  then have "branch_base n < n" "s + k \<le> left_size n il" "0 < k" "0 < left_size n il"
    using left_size_bounds [of n il] path_range_bounds [of "left_size n il" True p s k] by auto
  with 2(1) [of s "Suc level" off] 2(2-) show ?case
    by (auto simp: find_left full_tree.simps [of _ _ _ n] Let_def)
next
  case (3 n il p)
  then obtain s' where s': "path_range (n - left_size n il) False p = (s', k)" "s = left_size n il + s'"
    by (auto split: prod.splits)
  with 3 have "branch_base n < n" "s' + k \<le> n - left_size n il" "0 < k" "0 < n - left_size n il"
    using left_size_bounds [of n il] path_range_bounds [of "n - left_size n il" False p s' k] by auto
  with 3(1) [of s' "Suc level" "off + left_size n il"] 3(2-) s' show ?case
    by (auto simp: find_right full_tree.simps [of _ _ _ n] Let_def)
qed

lemma range_hash_split:
  "branch_base n < n \<Longrightarrow> range_hash sha1 data off n il =
     sha1_pair sha1 (range_hash sha1 data off (left_size n il) True)
       (range_hash sha1 data (off + left_size n il) (n - left_size n il) False)"
  by (simp add: range_hash_def full_tree.simps [of _ _ _ n] Let_def)

lemma verified_tree_simps [simp]:
  "node_hash (verified_tree sha1 data off n il p) = range_hash sha1 data off n il"
  "hash_valid (verified_tree sha1 data off n il p)"
  "node_hash (stub sha1 data off n il) = range_hash sha1 data off n il" "hash_valid (stub sha1 data off n il)"
  by (cases "(sha1, data, off, n, il, p)" rule: verified_tree.cases; simp add: range_hash_def)
    (cases "(sha1, data, off, n, il, p)" rule: verified_tree.cases; simp add: stub_def)+

lemma recalculate_stub [simp]: "recalculate_hash sha1 d (stub sha1 data off n il) = (True, stub sha1 data off n il)"
  by (simp add: stub_def)

lemma recalculate_proof:
  "valid_path n il p \<Longrightarrow> recalculate_hash sha1 d (proof_tree sha1 data off n il p) = (True, verified_tree sha1 data off n il p)"
  by (induction sha1 data off n il p rule: verified_tree.induct) (simp_all add: recalculate_lowest range_hash_split)

lemma revive_lowest: "revive sha1 (lowest_tree sha1 data off n il) = full_tree sha1 data off n il"
proof (cases "hash_valid (lowest_tree sha1 data off n il)")
  case True
  then show ?thesis
    by (simp add: revive_def lowest_tree.simps [of _ _ _ n] full_tree.simps [of _ _ _ n] split: if_splits)
qed (simp add: revive_def recalculate_lowest)

lemma revive_proof: "valid_path n il p \<Longrightarrow> revive sha1 (proof_tree sha1 data off n il p) = verified_tree sha1 data off n il p"
proof (cases "hash_valid (proof_tree sha1 data off n il p)")
  case True
  then have "p = []" by (cases "(sha1, data, off, n, il, p)" rule: verified_tree.cases) auto
  then show ?thesis by (simp add: revive_lowest)
qed (simp add: revive_def recalculate_proof)

declare verify_hash_tree.simps [simp del]

lemma verify_node:
  assumes "revive sha1 l = l'" "revive sha1 r = r'" "hash_valid l'" "hash_valid r'"
    and "verify_hash_tree sha1 d l' = (True, l')" "verify_hash_tree sha1 d r' = (True, r')"
    and "h = sha1_pair sha1 (node_hash l') (node_hash r')"
  shows "verify_hash_tree sha1 d (AichTree n il b h True (Some l) (Some r)) = (True, AichTree n il b h True (Some l') (Some r'))"
  using assms by (simp add: verify_hash_tree.simps child_valid_def)

lemma verify_leaf: "verify_hash_tree sha1 d (AichTree n il b h True None None) = (True, AichTree n il b h True None None)"
  by (simp add: verify_hash_tree.simps child_valid_def)

lemma revive_valid: "hash_valid t \<Longrightarrow> revive sha1 t = t"
  by (simp add: revive_def)

lemma verify_full: "verify_hash_tree sha1 d (full_tree sha1 data off n il) = (True, full_tree sha1 data off n il)"
proof (induction off n il rule: split_induct)
  case (Leaf off n il)
  then show ?case by (simp add: full_tree.simps [of _ _ _ n] verify_leaf)
next
  case (Split off n il)
  then show ?case by (simp add: full_tree.simps [of _ _ _ n] Let_def verify_node revive_valid)
qed

lemma verify_stub: "verify_hash_tree sha1 d (stub sha1 data off n il) = (True, stub sha1 data off n il)"
  by (simp add: stub_def verify_leaf)

lemma verify_verified:
  "valid_path n il p \<Longrightarrow> verify_hash_tree sha1 d (verified_tree sha1 data off n il p) = (True, verified_tree sha1 data off n il p)"
  by (induction sha1 data off n il p rule: verified_tree.induct)
    (simp_all add: verify_full verify_node revive_valid verify_stub range_hash_split)

lemma verify_proof:
  "valid_path n il p \<Longrightarrow> branch_base n < n \<Longrightarrow>
   verify_hash_tree sha1 d (with_hash (range_hash sha1 data off n il) (proof_tree sha1 data off n il p)) =
     (True, verified_tree sha1 data off n il p)"
  by (cases "(sha1, data, off, n, il, p)" rule: verified_tree.cases)
    (simp_all add: lowest_tree.simps [of _ _ _ n] full_tree.simps [of _ _ _ n] verify_node revive_lowest revive_proof
      revive_valid verify_full verify_verified verify_stub range_hash_split range_hash_def [of _ _ _ "left_size n il"]
      range_hash_def [of _ _ _ "n - left_size n il"] Let_def)

section \<open>Looking up the blocks\<close>

lemma existing_left:
  assumes "level < 22" "branch_base n < n" "0 < k" "s + k \<le> left_size n il" "hash_valid c"
  shows "find_existing_hash (AichTree n il (branch_base n) h v (Some c) r) s k level = find_existing_hash c s k (Suc level)"
proof -
  have "s + k \<le> n" "k < n" "s < left_size n il" using assms left_size_bounds [of n il] by linarith+
  with assms show ?thesis by (simp add: find_existing_hash.simps [of n])
qed

lemma existing_right:
  assumes "level < 22" "branch_base n < n" "s + k \<le> n - left_size n il" "hash_valid c"
  shows "find_existing_hash (AichTree n il (branch_base n) h v l (Some c)) (left_size n il + s) k level =
    find_existing_hash c s k (Suc level)"
proof -
  have "left_size n il + s + k \<le> n" "k \<le> n" "0 < left_size n il" using assms left_size_bounds [of n il] by linarith+
  with assms show ?thesis by (simp add: find_existing_hash.simps [of n])
qed

lemma existing_full:
  "0 < n \<Longrightarrow> (s, k) \<in> set (leaf_ranges n il) \<Longrightarrow> level + height n il < 22 \<Longrightarrow>
   \<exists>node. find_existing_hash (full_tree sha1 data off n il) s k level = Some node \<and>
     node_hash node = sha1 (slice data (off + s) k)"
proof (induction off n il arbitrary: s level rule: split_induct)
  case (Leaf off n il)
  then show ?case
    by (simp add: leaf_ranges.simps [of n] full_tree.simps [of _ _ _ n] find_existing_hash.simps [of n] Let_def)
next
  case (Split off n il)
  note b = left_size_bounds [OF Split.hyps, of il]
  have lv: "level < 22" "Suc level + height (left_size n il) True < 22" "Suc level + height (n - left_size n il) False < 22"
    using Split by (simp_all add: height.simps [of n])
  consider "(s, k) \<in> set (leaf_ranges (left_size n il) True)"
    | s' where "s = left_size n il + s'" "(s', k) \<in> set (leaf_ranges (n - left_size n il) False)"
    using Split.prems(2) Split.hyps by (auto simp: leaf_ranges.simps [of n])
  then show ?case
  proof cases
    case 1
    with Split.IH(1) [OF b(1) 1 lv(2)] leaf_ranges_bounds [OF b(1) 1] lv(1) Split.hyps show ?thesis
      by (simp add: full_tree.simps [of _ _ _ n] Let_def existing_left)
  next
    case 2
    have pos: "0 < n - left_size n il" using b by simp
    with 2 Split.IH(2) [OF pos 2(2) lv(3)] leaf_ranges_bounds [OF pos 2(2)] lv(1) Split.hyps show ?thesis
      by (simp add: full_tree.simps [of _ _ _ n] Let_def existing_right add.assoc)
  qed
qed

lemma existing_verified:
  "0 < n \<Longrightarrow> valid_path n il p \<Longrightarrow> path_range n il p = (s, k) \<Longrightarrow> k \<le> ED2K_PART_SIZE \<Longrightarrow> level + height n il < 22 \<Longrightarrow>
   (x, y) \<in> set (chunks ED2K_EMBLOCK_SIZE k) \<Longrightarrow>
   \<exists>node. find_existing_hash (verified_tree sha1 data off n il p) (s + x) y level = Some node \<and>
     node_hash node = sha1 (slice data (off + s + x) y)"
proof (induction n il p arbitrary: s level off rule: valid_path.induct)
  case (1 n il)
  then show ?case using existing_full [of n x y il level sha1 data off] by (simp add: leaf_ranges_part)
next
  case (2 n il p)
  have pos: "0 < left_size n il" using 2 left_size_bounds [of n il] by simp
  have "x + y \<le> k" "0 < y" using chunks_bounds [OF 2(7)] by simp_all
  moreover have "s + k \<le> left_size n il" using 2 path_range_bounds [OF pos, of True p s k] by simp
  moreover have "level < 22" "Suc level + height (left_size n il) True < 22"
    using 2 by (simp_all add: height.simps [of n])
  ultimately show ?case
    using 2(1) [OF pos, of s "Suc level" off] 2(3-) by (simp add: existing_left)
next
  case (3 n il p)
  then obtain s' where s': "path_range (n - left_size n il) False p = (s', k)" "s = left_size n il + s'"
    by (auto split: prod.splits)
  have pos: "0 < n - left_size n il" using 3 left_size_bounds [of n il] by simp
  have "x + y \<le> k" "0 < y" using chunks_bounds [OF 3(7)] by simp_all
  moreover have "s' + k \<le> n - left_size n il" using 3 s' path_range_bounds [OF pos, of False p s' k] by simp
  moreover have "level < 22" "Suc level + height (n - left_size n il) False < 22"
    using 3 by (simp_all add: height.simps [of n])
  ultimately show ?case
    using 3(1) [OF pos, of s' "Suc level" "off + left_size n il"] 3(3-) s' by (simp add: existing_right add.assoc)
qed

lemma collect_block_hashes_map:
  "(\<And>x y. (x, y) \<in> set bs \<Longrightarrow> \<exists>node. existing t (s + x) y = Some node \<and> node_hash node = f x y) \<Longrightarrow>
   collect_block_hashes t s bs = Inr (map (\<lambda>(x, y). f x y) bs)"
proof (induction bs)
  case (Cons b bs)
  obtain x y where b: "b = (x, y)" by fastforce
  from Cons.prems [of x y] obtain node where "existing t (s + x) y = Some node" "node_hash node = f x y"
    by (auto simp: b)
  with Cons show ?case by (simp add: b try_bind_def)
qed simp

end
