(* ===== verification/Aich_Salvage.thy ===== *)
theory Aich_Salvage
  imports Aich_Proof
begin

text \<open>
  What a downloader may rely on: completeness and soundness of the recovery data, and the salvage
  of a damaged part.
\<close>

section \<open>Completeness\<close>

text \<open>The hashes of the blocks of one part of a file.\<close>

definition true_block_hashes :: "(bytes \<Rightarrow> aich_hash) \<Rightarrow> bytes \<Rightarrow> nat \<Rightarrow> aich_hash list" where
  "true_block_hashes sha1 data part =
     map (\<lambda>(pos, block). sha1 (slice data (part * ED2K_PART_SIZE + pos) block)) (blocks_from 0 (part_size (length data) part))"

lemma with_hash_simps [simp]: "hash_valid (with_hash h t)" "node_hash (with_hash h t) = h"
  by (cases t; simp)+

lemma part_path:
  assumes "tree_fits n" "part < part_count n"
  obtains p where "valid_path n il p" "path_range n il p = (part * ED2K_PART_SIZE, part_size n part)"
    "part_size n part \<le> ED2K_PART_SIZE" "part * ED2K_PART_SIZE < n"
proof -
  note n = tree_fits_facts(1,2) [OF assms(1)]
  have "(part * ED2K_PART_SIZE, part_size n part) \<in> set (chunks ED2K_PART_SIZE n)"
    using assms(2) by (auto simp flip: parts_are_chunks [OF n(2)])
  moreover have "part * ED2K_PART_SIZE < n" using assms(2) by (auto simp: part_count_def dest: div_ceil_index)
  ultimately show ?thesis
    using part_path_ex [OF n(1), of "part * ED2K_PART_SIZE" "part_size n part" il] that by (auto simp: part_size_def)
qed

lemma root_items_below:
  "branch_base n < n \<Longrightarrow> (p, h) \<in> set (part_items sha1 data off n il q) \<Longrightarrow> p \<noteq> []"
  by (cases "(sha1, data, off, n, il, q)" rule: verified_tree.cases) (auto simp: low_items.simps [of _ _ _ n] under_def)

lemma root_items_ok:
  assumes "\<And>x. length (sha1 x) = 20" "tree_fits n" "branch_base n < n" "valid_path n True q"
  shows "list_all (item_ok (n > 2 ^ 32 - 1)) (part_items sha1 data off n True q)"
proof -
  have "item_ok (n > 2 ^ 32 - 1) (p, h)" if "(p, h) \<in> set (part_items sha1 data off n True q)" for p h
    using root_items_below [OF assms(3) that] part_items_ok [OF assms(1,4) that] tree_fits_facts(3,4) [OF assms(2), of True]
    by (auto simp: item_ok_def)
  then show ?thesis by (auto simp: list_all_iff)
qed

lemma branch_base_root: "ED2K_EMBLOCK_SIZE < n \<Longrightarrow> branch_base n < n"
  by (simp add: branch_base_def)

lemma reader_u16_to_le: "reader_u16 (to_le 2 x @ rest) = Inr (x, rest)" "reader_u16 (to_le 2 x) = Inr (x, [])"
  by (simp_all add: reader_u16_def)

lemma read_body_items:
  assumes "list_all (item_ok w) items" "0 < length items" "length items < 2 ^ 16"
  shows "read_body (length items) ((if w then to_le 2 (0 :: u16) else []) @ to_le 2 (of_nat (length items) :: u16) @
      encode_items w 1 items @ (if w then [] else to_le 2 (0 :: u16))) t = set_items items t"
proof -
  have "unat (of_nat (length items) :: u16) = length items" using assms(3) by (simp add: unsigned_of_nat take_bit_nat_eq_self)
  with assms show ?thesis
    using read_hashes_items [OF assms(1), of "if w then [] else to_le 2 (0 :: u16)" t] length_encode_items [OF assms(1), of 1]
    by (cases w) (simp_all add: read_body_def reader_u16_to_le)
qed

lemma recovery_count:
  assumes "tree_fits n" "part < part_count n" "valid_path n il q"
    and "path_range n il q = (part * ED2K_PART_SIZE, part_size n part)"
  shows "length (part_items sha1 data off n il q) = length q + div_ceil (part_size n part) ED2K_EMBLOCK_SIZE"
    "length (part_items sha1 data off n il q) < 2 ^ 16"
proof -
  have k: "part_size n part \<le> ED2K_PART_SIZE" by (simp add: part_size_def)
  show count: "length (part_items sha1 data off n il q) = length q + div_ceil (part_size n part) ED2K_EMBLOCK_SIZE"
    by (rule length_part_items [OF tree_fits_facts(1) [OF assms(1)] assms(3,4) k])
  have "length q \<le> height n il" by (rule path_height [OF assms(3)])
  then show "length (part_items sha1 data off n il q) < 2 ^ 16"
    using count part_block_count [OF k] tree_fits_facts(3) [OF assms(1), of il] by simp
qed

text \<open>Any tree that holds the hashes of a proof emits it.\<close>

lemma create_recovery_from:
  assumes "\<And>x. length (sha1 x) = 20" "tree_fits n" "ED2K_EMBLOCK_SIZE < n" "part < part_count n"
    and q: "valid_path n True q" "path_range n True q = (part * ED2K_PART_SIZE, part_size n part)"
    and items: "items = part_items sha1 data 0 n True q" and w: "w = (n > 2 ^ 32 - 1)"
    and "data_size t = n"
    and "find_hash_mut (\<lambda>n. n) t (part * ED2K_PART_SIZE) (part_size n part) 0 = (Some node, Suc 0 + length q, t)"
    and "tree_recovery_data t (part * ED2K_PART_SIZE) (part_size n part) 0 w = Inr (encode_items w (shift_in 0 True) items)"
  shows "create_part_recovery_data part \<lparr> rs_root = t, rs_file_size = n \<rparr> =
    (Inr ((if w then to_le 2 (0 :: u16) else []) @ to_le 2 (of_nat (length items) :: u16) @
      encode_items w 1 items @ (if w then [] else to_le 2 (0 :: u16))), \<lparr> rs_root = t, rs_file_size = n \<rparr>)"
proof -
  let ?s = "\<lparr> rs_root = t, rs_file_size = n \<rparr>"
  note count = recovery_count [OF assms(2,4) q, of sha1 data 0, folded items]
  have ok: "list_all (item_ok w) items"
    using root_items_ok [OF assms(1,2) branch_base_root [OF assms(3)] q(1)] by (simp add: items w)
  have "recovery_hash_count part ?s = (Inr (of_nat (length items)), ?s)"
    using count assms(10) by (simp add: recovery_hash_count_def div_ceil_def Let_def)
  moreover have "tree_recovery_data t (part * ED2K_PART_SIZE) (part_size n part) 0 w = Inr (encode_items w 1 items)"
    using assms(11) by (simp add: shift_in_def)
  moreover have "\<not> n \<le> part * ED2K_PART_SIZE" using assms(4) by (auto simp: part_count_def dest: div_ceil_index)
  moreover have "unat (of_nat (length items) :: u16) = length items"
    using count(2) by (simp add: unsigned_of_nat take_bit_nat_eq_self)
  ultimately show ?thesis
    using assms(3,9) length_encode_items [OF ok, of 1] w
    by (cases w) (simp_all add: create_part_recovery_data_def Let_def)
qed

lemma create_recovery_full:
  assumes "\<And>x. length (sha1 x) = 20" "tree_fits n" "ED2K_EMBLOCK_SIZE < n" "part < part_count n"
    and q: "valid_path n True q" "path_range n True q = (part * ED2K_PART_SIZE, part_size n part)"
    and s: "s = \<lparr> rs_root = full_tree sha1 data 0 n True, rs_file_size = n \<rparr>"
    and items: "items = part_items sha1 data 0 n True q" and w: "w = (n > 2 ^ 32 - 1)"
  shows "create_part_recovery_data part s =
    (Inr ((if w then to_le 2 (0 :: u16) else []) @ to_le 2 (of_nat (length items) :: u16) @
      encode_items w 1 items @ (if w then [] else to_le 2 (0 :: u16))), s)"
proof -
  note n = tree_fits_facts [OF assms(2)]
  obtain node where "find_hash_mut (\<lambda>n. n) (full_tree sha1 data 0 n True) (part * ED2K_PART_SIZE) (part_size n part) 0 =
      (Some node, Suc 0 + length q, full_tree sha1 data 0 n True)"
    using find_full [OF n(1) q, of 0 sha1 data 0] path_height [OF q(1)] n(3) [of True] by auto
  then show ?thesis
    using create_recovery_from [OF assms(1-6) items w] tree_recovery_items [OF n(1) q, of sha1 data 0 0 w] by (simp add: s items)
qed

lemma read_recovery_verified:
  assumes "\<And>x. length (sha1 x) = 20" "tree_fits n" "ED2K_EMBLOCK_SIZE < n" "part < part_count n"
    and q: "valid_path n True q" "path_range n True q = (part * ED2K_PART_SIZE, part_size n part)"
    and items: "items = part_items sha1 data 0 n True q" and w: "w = (n > 2 ^ 32 - 1)"
  shows "read_recovery_data sha1 part
      ((if w then to_le 2 (0 :: u16) else []) @ to_le 2 (of_nat (length items) :: u16) @
       encode_items w 1 items @ (if w then [] else to_le 2 (0 :: u16)))
      (set_master_hash (range_hash sha1 data 0 n True) (hash_set_new n)) =
    (Inr (), \<lparr> rs_root = verified_tree sha1 data 0 n True q, rs_file_size = n \<rparr>)"
    "(x, y) \<in> set (blocks_from 0 (part_size n part)) \<Longrightarrow>
     \<exists>node. existing (verified_tree sha1 data 0 n True q) (part * ED2K_PART_SIZE + x) y = Some node \<and>
       node_hash node = sha1 (slice data (part * ED2K_PART_SIZE + x) y)"
proof -
  let ?m = "range_hash sha1 data 0 n True"
  let ?k = "part_size n part"
  note b = branch_base_root [OF assms(3)] and fits = tree_fits_facts [OF assms(2)]
  note count = recovery_count [OF assms(2,4) q, of sha1 data 0, folded items]
  have ok: "list_all (item_ok w) items"
    using root_items_ok [OF assms(1,2) b q(1)] by (simp add: items w)
  obtain node where find: "find_hash_mut (\<lambda>n. n) (with_hash ?m (get_branch n True None)) (part * ED2K_PART_SIZE) ?k 0 =
      (Some node, Suc (length q), with_hash ?m (skeleton n True q))"
    using find_fresh [OF fits(1) q, of 0 ?m True] path_height [OF q(1)] fits(3) [of True]
    by (auto simp: with_hash_rehash)
  have k: "?k \<le> ED2K_PART_SIZE" by (simp add: part_size_def)
  show found: "\<exists>node. existing (verified_tree sha1 data 0 n True q) (part * ED2K_PART_SIZE + x) y = Some node \<and>
      node_hash node = sha1 (slice data (part * ED2K_PART_SIZE + x) y)" if "(x, y) \<in> set (blocks_from 0 ?k)" for x y
    using existing_verified [OF fits(1) q k, of 0 x y sha1 data 0] fits(3) that
    by (simp add: existing_def blocks_from_chunks case_prod_unfold)
  have "read_body (Suc (length q) - 1 + div_ceil ?k ED2K_EMBLOCK_SIZE)
      ((if w then to_le 2 (0 :: u16) else []) @ to_le 2 (of_nat (length items) :: u16) @
       encode_items w 1 items @ (if w then [] else to_le 2 (0 :: u16))) (with_hash ?m (skeleton n True q)) =
    (Inr (), with_hash ?m (proof_tree sha1 data 0 n True q))"
    using read_body_items [OF ok] count set_root_items [OF b q(1), of sha1 data 0 ?m] by (simp add: items)
  moreover have "\<not> list_ex (\<lambda>(pos, block). existing (verified_tree sha1 data 0 n True q) (part * ED2K_PART_SIZE + pos) block = None)
      (blocks_from 0 ?k)"
    using found by (fastforce simp: list_ex_iff)
  ultimately show "read_recovery_data sha1 part
      ((if w then to_le 2 (0 :: u16) else []) @ to_le 2 (of_nat (length items) :: u16) @
       encode_items w 1 items @ (if w then [] else to_le 2 (0 :: u16))) (set_master_hash ?m (hash_set_new n)) =
    (Inr (), \<lparr> rs_root = verified_tree sha1 data 0 n True q, rs_file_size = n \<rparr>)"
    using find verify_proof [OF q(1) b, of sha1 True data 0]
    by (simp add: read_recovery_data_def set_master_hash_def hash_set_new_root Let_def flip: div_ceil_def del: get_branch_simps)
qed

lemma read_recovery_full:
  assumes "\<And>x. length (sha1 x) = 20" "tree_fits n" "ED2K_EMBLOCK_SIZE < n" "part < part_count n"
    and q: "valid_path n True q" "path_range n True q = (part * ED2K_PART_SIZE, part_size n part)"
    and n: "length data = n" and items: "items = part_items sha1 data 0 n True q" and w: "w = (n > 2 ^ 32 - 1)"
  shows "trusted_part_block_hashes_from_recovery sha1 n (range_hash sha1 data 0 n True) part
      ((if w then to_le 2 (0 :: u16) else []) @ to_le 2 (of_nat (length items) :: u16) @
       encode_items w 1 items @ (if w then [] else to_le 2 (0 :: u16))) =
    Inr (true_block_hashes sha1 data part)"
  using read_recovery_verified(1) [OF assms(1-6) items w]
    collect_block_hashes_map [OF read_recovery_verified(2) [OF assms(1-6) refl refl, where data = data]]
  by (simp add: trusted_part_block_hashes_from_recovery_def part_block_hashes_def true_block_hashes_def n)

text \<open>C4: completeness of the recovery data. When a sharer has built the tree of a file of more than
  one block and at most 32768 parts, it emits recovery data for every part of the file, and a
  downloader that trusts the master hash reads from them exactly the SHA-1 hashes of the blocks of
  that part. SHA-1 is any function to 20 bytes.\<close>

theorem recovery_data_complete:
  assumes "\<And>x. length (sha1 x) = 20" "tree_fits (length data)" "ED2K_EMBLOCK_SIZE < length data"
    and "part < part_count (length data)"
    and "build_from_data sha1 data (hash_set_new (length data)) = (res, s)"
  shows "res = Inr () \<and> (\<exists>body. create_part_recovery_data part s = (Inr body, s) \<and>
    trusted_part_block_hashes_from_recovery sha1 (length data) (master_hash s) part body =
      Inr (true_block_hashes sha1 data part))"
proof -
  have s: "res = Inr ()" "s = \<lparr> rs_root = full_tree sha1 data 0 (length data) True, rs_file_size = length data \<rparr>"
    using build_full [OF assms(2), of data sha1] assms(5) by simp_all
  then have m: "master_hash s = range_hash sha1 data 0 (length data) True"
    by (simp add: master_hash_def range_hash_def)
  obtain q where q: "valid_path (length data) True q"
      "path_range (length data) True q = (part * ED2K_PART_SIZE, part_size (length data) part)"
    using part_path [OF assms(2,4)] by metis
  from create_recovery_full [OF assms(1-4) q s(2) refl refl] read_recovery_full [OF assms(1-4) q refl refl refl] m s(1)
  show ?thesis by auto
qed

definition example_sha1 :: "bytes \<Rightarrow> aich_hash" where
  "example_sha1 bs = of_nat (length bs) # replicate 19 (if bs = [] then 0 else hd bs)"

definition example_file :: bytes where
  "example_file = replicate 200000 7"

theorem recovery_data_complete_witness:
  "\<exists>s body. build_from_data example_sha1 example_file (hash_set_new 200000) = (Inr (), s) \<and>
     create_part_recovery_data 0 s = (Inr body, s) \<and>
     trusted_part_block_hashes_from_recovery example_sha1 200000 (master_hash s) 0 body =
       Inr (true_block_hashes example_sha1 example_file 0)"
proof -
  obtain res s where "build_from_data example_sha1 example_file (hash_set_new 200000) = (res, s)" by fastforce
  moreover have "length example_file = 200000" by (simp add: example_file_def)
  moreover have "tree_fits 200000" "ED2K_EMBLOCK_SIZE < 200000" "0 < part_count 200000"
    by (simp_all add: tree_fits_def part_count_def div_ceil_def ED2K_PART_SIZE_def ED2K_EMBLOCK_SIZE_def)
  ultimately show ?thesis
    using recovery_data_complete [of example_sha1 example_file 0 res s] by (auto simp: example_sha1_def)
qed

section \<open>Soundness\<close>

text \<open>Every node has the size, side and base that its place in the tree gives it.\<close>

fun tree_shape :: "nat \<Rightarrow> bool \<Rightarrow> aich_tree \<Rightarrow> bool" where
  "tree_shape n il (AichTree n' il' b h v l r) \<longleftrightarrow> n' = n \<and> il' = il \<and> b = branch_base n \<and> length h = 20 \<and>
     (case l of None \<Rightarrow> True | Some c \<Rightarrow> branch_base n < n \<and> tree_shape (left_size n il) True c) \<and>
     (case r of None \<Rightarrow> True | Some c \<Rightarrow> branch_base n < n \<and> tree_shape (n - left_size n il) False c)"

lemma shape_branch: "(\<And>c. child = Some c \<Longrightarrow> tree_shape n il c) \<Longrightarrow> tree_shape n il (get_branch n il child)"
  by (cases child) auto

lemma shape_with_hash: "tree_shape n il t \<Longrightarrow> length h = 20 \<Longrightarrow> tree_shape n il (with_hash h t)"
  by (cases t) auto

lemma find_stay:
  "start + len > n \<or> \<not> (start = 0 \<and> len = n) \<and> (n \<le> branch_base n \<or> start < left_size n il \<and> left_size n il < start + len) \<Longrightarrow>
   find_hash_mut upd (AichTree n il (branch_base n) h v l r) start len level =
     (None, Suc level, AichTree n il (branch_base n) h v l r)"
  by (elim disjE conjE) (auto simp: find_hash_mut.simps Let_def)

lemma shape_find:
  assumes upd: "\<And>n il node. tree_shape n il node \<Longrightarrow> tree_shape n il (upd node)"
  shows "tree_shape n il t \<Longrightarrow> tree_shape n il (snd (snd (find_hash_mut upd t start len level)))"
proof (induction "22 - level" arbitrary: n il t start level)
  case 0
  then show ?case by (cases t) (auto simp: find_hash_mut.simps)
next
  case (Suc d)
  obtain n' il' b h v l r where t: "t = AichTree n' il' b h v l r" by (cases t)
  have shape: "n' = n" "il' = il" "b = branch_base n" "length h = 20"
    and l: "\<And>c. l = Some c \<Longrightarrow> branch_base n < n \<and> tree_shape (left_size n il) True c"
    and r: "\<And>c. r = Some c \<Longrightarrow> branch_base n < n \<and> tree_shape (n - left_size n il) False c"
    using Suc.prems by (auto simp: t)
  have IH: "tree_shape m j c \<Longrightarrow> tree_shape m j (snd (snd (find_hash_mut upd c st len (Suc level))))" for m j c st
    using Suc.hyps(2) by (intro Suc.hyps(1)) simp_all
  have "tree_shape (left_size n il) True (get_branch (left_size n il) True l)"
    "tree_shape (n - left_size n il) False (get_branch (n - left_size n il) False r)"
    using l r by (auto intro!: shape_branch)
  note kids = this [THEN IH]
  consider "find_hash_mut upd t start len level = (None, Suc level, t)" | "start = 0" "len = n"
    | "branch_base n < n" "start < left_size n il" "start + len \<le> left_size n il"
    | st where "branch_base n < n" "start = left_size n il + st" "st + len \<le> n - left_size n il"
  proof (cases "start + len > n \<or> \<not> (start = 0 \<and> len = n) \<and> (n \<le> branch_base n \<or> start < left_size n il \<and> left_size n il < start + len)")
    case True
    then have "find_hash_mut upd t start len level = (None, Suc level, t)"
      unfolding t shape by (rule find_stay)
    then show ?thesis by (rule that(1))
  next
    case False
    then have "start - left_size n il + len \<le> n - left_size n il" if "left_size n il \<le> start"
      using that by linarith
    with False show ?thesis
      using that(2,3) that(4) [of "start - left_size n il"] by (cases "start < left_size n il") auto
  qed
  then show ?case
  proof cases
    case 1
    with Suc.prems show ?thesis by simp
  next
    case 2
    with upd [OF Suc.prems] Suc.hyps(2) show ?thesis by (simp add: t shape find_here)
  next
    case 3
    with kids(1) [of start] Suc.hyps(2) shape r show ?thesis
      by (auto simp: t find_left split: prod.splits option.splits)
  next
    case 4
    with kids(2) [of st] Suc.hyps(2) shape l show ?thesis
      by (auto simp: t find_right split: prod.splits option.splits)
  qed
qed

lemma shape_set_hash_at:
  "tree_shape n il t \<Longrightarrow> length h = 20 \<Longrightarrow> tree_shape n il (snd (set_hash_at h ow ident level t))"
proof (induction level arbitrary: n il t ident)
  case 0
  then show ?case by (simp add: shape_with_hash)
next
  case (Suc level)
  obtain n' il' b h' v l r where t: "t = AichTree n' il' b h' v l r" by (cases t)
  have "tree_shape (left_size n il) True (get_branch (left_size n il) True l)"
    "tree_shape (n - left_size n il) False (get_branch (n - left_size n il) False r)"
    using Suc.prems by (auto intro!: shape_branch simp: t)
  note kids = this [THEN Suc.IH, OF Suc.prems(2), of "push_bit 1 ident"]
  show ?case
    using Suc.prems kids by (auto simp: t Let_def split: prod.splits option.splits)
qed

lemma shape_set_hash:
  "tree_shape n il t \<Longrightarrow> length h = 20 \<Longrightarrow> tree_shape n il (snd (set_hash h ident ow t))"
  using shape_set_hash_at by (auto simp: set_hash_def split: option.splits)

lemma set_hash_keeps_root:
  "hash_valid t \<Longrightarrow> hash_valid (snd (set_hash h ident False t)) \<and> node_hash (snd (set_hash h ident False t)) = node_hash t"
proof -
  have "hash_valid t \<Longrightarrow> hash_valid (snd (set_hash_at h False w level t)) \<and> node_hash (snd (set_hash_at h False w level t)) = node_hash t" for w level
    by (cases level; cases t) (auto simp: Let_def split: prod.splits)
  then show "hash_valid t \<Longrightarrow> ?thesis" by (auto simp: set_hash_def split: option.splits)
qed

lemma find_keeps_root:
  "hash_valid (snd (snd (find_hash_mut (\<lambda>n. n) t s k level))) = hash_valid t \<and>
   node_hash (snd (snd (find_hash_mut (\<lambda>n. n) t s k level))) = node_hash t"
  by (cases t) (auto simp: find_hash_mut.simps [of _ _ _ _ _ _ _ _ s k level] Let_def split: prod.splits)

text \<open>What reading recovery data keeps of the tree: its shape and its trusted root.\<close>

definition rooted :: "aich_hash \<Rightarrow> nat \<Rightarrow> aich_tree \<Rightarrow> bool" where
  "rooted m n t \<longleftrightarrow> tree_shape n True t \<and> hash_valid t \<and> node_hash t = m"

lemma rooted_set_hash: "rooted m n t \<Longrightarrow> length h = 20 \<Longrightarrow> rooted m n (snd (set_hash h ident False t))"
  using set_hash_keeps_root [of t h ident] by (simp add: rooted_def shape_set_hash)

lemma rooted_find: "rooted m n t \<Longrightarrow> rooted m n (snd (snd (find_hash_mut (\<lambda>n. n) t s k level)))"
  using find_keeps_root [of t s k level] shape_find [of "\<lambda>n. n"] by (simp add: rooted_def)

lemma rooted_read_hashes: "rooted m n t \<Longrightarrow> rooted m n (snd (read_hashes w k bs t))"
proof (induction w k bs t rule: read_hashes.induct)
  case (2 w k bs t)
  have h: "length h = 20" if "reader_hash x = Inr (h, y)" for x h y
    using that by (auto simp: reader_hash_def HASHSIZE_def split: if_splits)
  show ?case
  proof (cases "read_ident w bs")
    case (Inr a)
    obtain ident bs1 where a: "a = (ident, bs1)" by fastforce
    show ?thesis
    proof (cases "reader_hash bs1")
      case (Inr c)
      obtain hh bs2 where c: "c = (hh, bs2)" by fastforce
      have set: "rooted m n (snd (set_hash hh ident False t))"
        using h Inr c 2(2) by (intro rooted_set_hash) auto
      obtain res t' where r: "set_hash hh ident False t = (res, t')" by fastforce
      with set have t': "rooted m n t'" by simp
      show ?thesis
        using 2 \<open>read_ident w bs = Inr a\<close> a Inr c r t' by (cases res) auto
    qed (use 2 Inr a in simp)
  qed (use 2 in simp)
qed simp

lemma rooted_read_body: "rooted m n t \<Longrightarrow> rooted m n (snd (read_body k body t))"
  using rooted_read_hashes by (auto simp: read_body_def Let_def split: sum.splits prod.splits)

text \<open>A verified tree: every hash with children is the hash of theirs.\<close>

fun sealed :: "(bytes \<Rightarrow> aich_hash) \<Rightarrow> aich_tree \<Rightarrow> bool" where
  "sealed sha1 (AichTree n il b h v l r) \<longleftrightarrow> v \<and>
     (case l of None \<Rightarrow> r = None
      | Some a \<Rightarrow> (case r of None \<Rightarrow> False
        | Some c \<Rightarrow> h = sha1_pair sha1 (node_hash a) (node_hash c) \<and> sealed sha1 a \<and> sealed sha1 c))"

lemma shape_recalculate:
  assumes "\<And>x. length (sha1 x) = 20"
  shows "tree_shape n il t \<Longrightarrow> tree_shape n il (snd (recalculate_hash sha1 d t))"
proof (induction t arbitrary: n il rule: aich_tree_induct)
  case (Node n' il' b h v l r)
  then have "tree_shape (left_size n il) True (snd (recalculate_hash sha1 d l))"
    "tree_shape (n - left_size n il) False (snd (recalculate_hash sha1 d r))" by simp_all
  with Node.prems show ?case
    by (cases "recalculate_hash sha1 d l"; cases "recalculate_hash sha1 d r") (simp add: sha1_pair_def assms)
qed simp_all

lemma shape_revive:
  "(\<And>x. length (sha1 x) = 20) \<Longrightarrow> tree_shape n il t \<Longrightarrow> tree_shape n il (revive sha1 t)"
  by (simp add: revive_def shape_recalculate)

lemma verify_sealed:
  assumes len: "\<And>x. length (sha1 x) = 20"
  shows "tree_shape n il t \<Longrightarrow> verify_hash_tree sha1 True t = (True, t') \<Longrightarrow>
    tree_shape n il t' \<and> sealed sha1 t' \<and> node_hash t' = node_hash t"
proof (induction "size t" arbitrary: n il t t' rule: less_induct)
  case less
  obtain n' il' b h v l0 r0 where t: "t = AichTree n' il' b h v l0 r0" by (cases t)
  let ?l = "map_option (revive sha1) l0" and ?r = "map_option (revive sha1) r0"
  let ?node = "AichTree n' il' b h v"
  have v: v using less.prems(2) by (auto simp: t verify_hash_tree.simps Let_def split: if_splits)
  consider "\<not> child_valid ?l" "\<not> child_valid ?r" "t' = ?node None None"
    | lt rt l' r' where "l0 = Some lt" "r0 = Some rt" "h = sha1_pair sha1 (node_hash (revive sha1 lt)) (node_hash (revive sha1 rt))"
      "verify_hash_tree sha1 True (revive sha1 lt) = (True, l')" "verify_hash_tree sha1 True (revive sha1 rt) = (True, r')"
      "t' = ?node (Some l') (Some r')"
    using less.prems(2) v
    by (auto simp: t verify_hash_tree.simps child_valid_def Let_def split: if_splits option.splits prod.splits bool.splits)
  then show ?case
  proof cases
    case 1
    then show ?thesis using less.prems(1) v by (simp add: t)
  next
    case (2 lt rt l' r')
    have "size (revive sha1 lt) < size t" "size (revive sha1 rt) < size t"
      using size_revive [of sha1 lt] size_revive [of sha1 rt] by (simp_all add: t 2)
    moreover have "tree_shape (left_size n il) True (revive sha1 lt)" "tree_shape (n - left_size n il) False (revive sha1 rt)"
      using less.prems(1) len by (auto simp: t 2 intro: shape_revive)
    ultimately have "tree_shape (left_size n il) True l' \<and> sealed sha1 l' \<and> node_hash l' = node_hash (revive sha1 lt)"
      "tree_shape (n - left_size n il) False r' \<and> sealed sha1 r' \<and> node_hash r' = node_hash (revive sha1 rt)"
      using less.hyps 2(4,5) by blast+
    with 2 less.prems(1) v show ?thesis by (simp add: t)
  qed
qed

text \<open>The inputs that are hashed for the inner nodes of a tree, and an explicit collision: an input
  of the one list and a different one of the other with the same hash. A function to 20 bytes has
  collisions somewhere, so only such a bounded statement says anything.\<close>

fun pair_inputs :: "aich_tree \<Rightarrow> bytes list" where
  "pair_inputs (AichTree n il b h v (Some l) (Some r)) = (node_hash l @ node_hash r) # pair_inputs l @ pair_inputs r"
| "pair_inputs _ = []"

definition colliding :: "(bytes \<Rightarrow> aich_hash) \<Rightarrow> bytes list \<Rightarrow> bytes list \<Rightarrow> bool" where
  "colliding sha1 xs ys \<longleftrightarrow> list_ex (\<lambda>x. list_ex (\<lambda>y. x \<noteq> y \<and> sha1 x = sha1 y) ys) xs"

lemma sealed_sound:
  assumes len: "\<And>x. length (sha1 x) = 20"
  shows "0 < n \<Longrightarrow> tree_shape n il t \<Longrightarrow> sealed sha1 t \<Longrightarrow> node_hash t = range_hash sha1 data off n il \<Longrightarrow>
    (s, k) \<in> set (leaf_ranges n il) \<Longrightarrow> find_existing_hash t s k level = Some node \<Longrightarrow>
    node_hash node = sha1 (slice data (off + s) k) \<or>
    colliding sha1 (pair_inputs (full_tree sha1 data off n il)) (pair_inputs t)"
proof (induction off n il arbitrary: t s level rule: split_induct)
  case (Leaf off n il)
  obtain h v l r where t: "t = AichTree n il (branch_base n) h v l r" using Leaf.prems(2) by (cases t) auto
  from Leaf show ?case
    by (auto simp: t leaf_ranges.simps [of n] find_existing_hash.simps [of n] range_hash_def full_tree.simps [of _ _ _ n] Let_def
        split: if_splits)
next
  case (Split off n il)
  note b = left_size_bounds [OF Split.hyps, of il]
  have pos: "0 < n - left_size n il" using b by simp
  obtain h v l r where t: "t = AichTree n il (branch_base n) h v l r" using Split.prems(2) by (cases t) auto
  have "0 < k" "s + k \<le> n" "k \<le> ED2K_EMBLOCK_SIZE" using leaf_ranges_bounds [OF Split.prems(1,5)] by auto
  moreover have "ED2K_EMBLOCK_SIZE \<le> branch_base n" by (simp add: branch_base_def less_imp_le)
  moreover have "k < n" using calculation Split.hyps by linarith
  ultimately obtain lt rt where kids: "l = Some lt" "r = Some rt"
    using Split.prems(3,6) by (cases l; cases r) (auto simp: t find_existing_hash.simps [of n] Let_def split: if_splits)
  have shape: "tree_shape (left_size n il) True lt" "tree_shape (n - left_size n il) False rt"
    and seal: "sealed sha1 lt" "sealed sha1 rt" "h = sha1_pair sha1 (node_hash lt) (node_hash rt)"
    using Split.prems(2,3) by (auto simp: t kids)
  have lens: "length (node_hash lt) = 20" and valid: "hash_valid lt" "hash_valid rt" and level: "level < 22"
    using shape seal Split.prems(6) by (cases lt; cases rt; auto simp: t find_existing_hash.simps [of n] split: if_splits)+
  have full: "pair_inputs (full_tree sha1 data off n il) =
      (range_hash sha1 data off (left_size n il) True @ range_hash sha1 data (off + left_size n il) (n - left_size n il) False) #
      pair_inputs (full_tree sha1 data off (left_size n il) True) @
      pair_inputs (full_tree sha1 data (off + left_size n il) (n - left_size n il) False)"
    using Split.hyps by (simp add: full_tree.simps [of _ _ _ n] Let_def range_hash_def)
  show ?case
  proof (cases "node_hash lt = range_hash sha1 data off (left_size n il) True \<and>
      node_hash rt = range_hash sha1 data (off + left_size n il) (n - left_size n il) False")
    case True
    consider "(s, k) \<in> set (leaf_ranges (left_size n il) True)"
      | s' where "s = left_size n il + s'" "(s', k) \<in> set (leaf_ranges (n - left_size n il) False)"
      using Split.prems(5) Split.hyps by (auto simp: leaf_ranges.simps [of n])
    then show ?thesis
    proof cases
      case 1
      with leaf_ranges_bounds [OF b(1) 1] have "find_existing_hash lt s k (Suc level) = Some node"
        using Split.prems(6) Split.hyps level valid by (simp add: t kids existing_left)
      with True 1 have "node_hash node = sha1 (slice data (off + s) k) \<or>
          colliding sha1 (pair_inputs (full_tree sha1 data off (left_size n il) True)) (pair_inputs lt)"
        using Split.IH(1) [OF b(1) shape(1) seal(1)] by simp
      then show ?thesis by (auto simp: full t kids colliding_def list_ex_iff)
    next
      case 2
      with leaf_ranges_bounds [OF pos 2(2)] have "find_existing_hash rt s' k (Suc level) = Some node"
        using Split.prems(6) Split.hyps level valid by (simp add: t kids existing_right)
      with True 2 have "node_hash node = sha1 (slice data (off + s) k) \<or>
          colliding sha1 (pair_inputs (full_tree sha1 data (off + left_size n il) (n - left_size n il) False)) (pair_inputs rt)"
        using Split.IH(2) [OF pos shape(2) seal(2)] by (simp add: add.assoc)
      then show ?thesis by (auto simp: full t kids colliding_def list_ex_iff)
    qed
  next
    case False
    then have "node_hash lt @ node_hash rt \<noteq> range_hash sha1 data off (left_size n il) True @
        range_hash sha1 data (off + left_size n il) (n - left_size n il) False"
      using lens length_range_hash [OF len] by auto
    moreover have "sha1 (node_hash lt @ node_hash rt) = sha1 (range_hash sha1 data off (left_size n il) True @
        range_hash sha1 data (off + left_size n il) (n - left_size n il) False)"
      using Split.prems(4) seal(3) Split.hyps by (simp add: t range_hash_split sha1_pair_def)
    ultimately show ?thesis by (auto simp: colliding_def full t kids)
  qed
qed

lemma collect_block_hashes_get:
  "collect_block_hashes t s bs = Inr hs \<Longrightarrow>
   list_all2 (\<lambda>(x, y) h. \<exists>node. existing t (s + x) y = Some node \<and> node_hash node = h) bs hs"
proof (induction bs arbitrary: hs)
  case (Cons b bs)
  then show ?case by (cases b) (auto simp: try_bind_def split: option.splits sum.splits)
qed simp

lemma read_recovery_sealed:
  assumes len: "\<And>x. length (sha1 x) = 20" "length m = 20"
    and "read_recovery_data sha1 part body (set_master_hash m (hash_set_new n)) = (Inr u, s)"
  shows "tree_shape n True (rs_root s) \<and> sealed sha1 (rs_root s) \<and> node_hash (rs_root s) = m \<and> rs_file_size s = n"
proof -
  let ?p = "part * ED2K_PART_SIZE" and ?k = "part_size n part" and ?t = "with_hash m (get_branch n True None)"
  obtain found level t0 where t0: "find_hash_mut (\<lambda>n. n) ?t ?p ?k 0 = (found, level, t0)" by (metis prod_cases3)
  let ?hashes = "level - 1 + div_ceil ?k ED2K_EMBLOCK_SIZE"
  obtain t1 t2 where t1: "read_body ?hashes body t0 = (Inr (), t1)" and t2: "verify_hash_tree sha1 True t1 = (True, t2)"
    and s: "s = \<lparr> rs_root = t2, rs_file_size = n \<rparr>"
    using assms(3) t0
    by (auto simp: read_recovery_data_def set_master_hash_def hash_set_new_root Let_def
        simp flip: div_ceil_def simp del: get_branch_simps split: prod.splits sum.splits if_splits)
  have "rooted m n ?t" using len(2) by (simp add: rooted_def)
  then have "rooted m n t0" using rooted_find [of m n ?t ?p ?k 0] t0 by simp
  then have "rooted m n t1" using rooted_read_body [of m n t0 ?hashes body] t1 by simp
  with verify_sealed [of sha1 n True t1 t2] len(1) t2 s show ?thesis by (simp add: rooted_def)
qed

lemma part_blocks_are_leaves:
  assumes "0 < n" "n < 2 ^ 64" "part < part_count n" "(x, y) \<in> set (blocks_from 0 (part_size n part))"
  shows "(part * ED2K_PART_SIZE + x, y) \<in> set (leaf_ranges n True)"
  using assms by (force simp: file_blocks_def simp flip: file_blocks_leaves)

text \<open>The inputs that a downloader hashes to check an answer.\<close>

definition answer_inputs :: "(bytes \<Rightarrow> aich_hash) \<Rightarrow> nat \<Rightarrow> aich_hash \<Rightarrow> nat \<Rightarrow> bytes \<Rightarrow> bytes list" where
  "answer_inputs sha1 n m part body =
     pair_inputs (rs_root (snd (read_recovery_data sha1 part body (set_master_hash m (hash_set_new n)))))"

lemma recovered_or_colliding:
  assumes len: "\<And>x. length (sha1 x) = 20" and fits: "tree_fits (length data)" and part: "part < part_count (length data)"
    and build: "build_from_data sha1 data (hash_set_new (length data)) = (res, s)"
    and accept: "trusted_part_block_hashes_from_recovery sha1 (length data) (master_hash s) part body = Inr hs"
  shows "hs = true_block_hashes sha1 data part \<or>
    colliding sha1 (pair_inputs (rs_root s)) (answer_inputs sha1 (length data) (master_hash s) part body)"
proof -
  let ?n = "length data"
  let ?blocks = "blocks_from 0 (part_size ?n part)" and ?p = "part * ED2K_PART_SIZE"
  note n = tree_fits_facts [OF fits]
  have root: "rs_root s = full_tree sha1 data 0 ?n True" using build_full [OF fits, of data sha1] build by auto
  then have m: "master_hash s = range_hash sha1 data 0 ?n True" by (simp add: master_hash_def range_hash_def)
  obtain u s' where read: "read_recovery_data sha1 part body (set_master_hash (master_hash s) (hash_set_new ?n)) = (Inr u, s')"
    and hs: "part_block_hashes part s' = Inr hs"
    using accept by (auto simp: trusted_part_block_hashes_from_recovery_def split: prod.splits sum.splits)
  note t = read_recovery_sealed [OF len _ read, unfolded m, OF length_range_hash [OF len]]
  let ?collide = "colliding sha1 (pair_inputs (rs_root s)) (answer_inputs sha1 ?n (master_hash s) part body)"
  have get: "list_all2 (\<lambda>(x, y) h. \<exists>node. existing (rs_root s') (?p + x) y = Some node \<and> node_hash node = h) ?blocks hs"
    using collect_block_hashes_get [of "rs_root s'" ?p] hs t by (simp add: part_block_hashes_def)
  have "node_hash node = sha1 (slice data (?p + x) y) \<or> ?collide"
    if "(x, y) \<in> set ?blocks" "existing (rs_root s') (?p + x) y = Some node" for x y node
    using sealed_sound [of sha1 ?n True "rs_root s'" data 0 "?p + x" y 0 node] len n(1) t that
      part_blocks_are_leaves [OF n(1,2) part that(1)] read by (simp add: root existing_def answer_inputs_def)
  with get have "list_all2 (\<lambda>(x, y) h. h = sha1 (slice data (?p + x) y) \<or> ?collide) ?blocks hs"
    by (fastforce elim!: list.rel_mono_strong)
  then show ?thesis
    by (auto simp: true_block_hashes_def list_all2_conv_all_nth intro!: nth_equalityI)
qed

text \<open>C3: soundness of the recovery data. Let the trusted master hash be the one a sharer computes for
  a file. Whatever bytes a peer sends as recovery data for a part of it, if they are accepted then
  the block hashes taken from them are the SHA-1 hashes of the blocks of the true file, unless the
  answer makes the downloader hash an input that collides with a different input of the sharer's
  tree.\<close>

theorem recovery_data_sound:
  assumes "\<And>x. length (sha1 x) = 20" "tree_fits (length data)" "part < part_count (length data)"
    and "build_from_data sha1 data (hash_set_new (length data)) = (res, s)"
    and "trusted_part_block_hashes_from_recovery sha1 (length data) (master_hash s) part body = Inr hs"
    and "\<not> colliding sha1 (pair_inputs (rs_root s)) (answer_inputs sha1 (length data) (master_hash s) part body)"
  shows "hs = true_block_hashes sha1 data part"
  using recovered_or_colliding [OF assms(1-5)] assms(6) by simp

lemma example_tree:
  "full_tree example_sha1 example_file 0 200000 True = AichTree 200000 True 184320 (40 # replicate 19 0) True
     (Some (AichTree 184320 True 184320 (0 # replicate 19 7) True None None))
     (Some (AichTree 15680 False 184320 (64 # replicate 19 7) True None None))"
proof -
  have "left_size 200000 True = 184320"
    by (simp add: left_size_def branch_base_def div_ceil_def ED2K_PART_SIZE_def ED2K_EMBLOCK_SIZE_def)
  moreover have "full_tree example_sha1 example_file off k il = AichTree k il 184320 (of_nat k # replicate 19 7) True None None"
    if "0 < k" "k \<le> 184320" "off + k \<le> 200000" for off k il
    using that by (simp add: full_tree.simps [of _ _ _ k] branch_base_def ED2K_PART_SIZE_def ED2K_EMBLOCK_SIZE_def
        example_sha1_def example_file_def slice_def)
  ultimately show ?thesis
    by (simp add: full_tree.simps [of _ _ _ 200000] branch_base_def ED2K_PART_SIZE_def ED2K_EMBLOCK_SIZE_def
        sha1_pair_def example_sha1_def)
qed

lemma example_answer:
  obtains s body hs where "build_from_data example_sha1 example_file (hash_set_new 200000) = (Inr (), s)"
    "trusted_part_block_hashes_from_recovery example_sha1 200000 (master_hash s) 0 body = Inr hs"
    "\<not> colliding example_sha1 (pair_inputs (rs_root s)) (answer_inputs example_sha1 200000 (master_hash s) 0 body)"
    "length example_file = 200000" "tree_fits 200000" "0 < part_count 200000" "part_size 200000 0 = 200000"
proof -
  let ?s = "\<lparr> rs_root = full_tree example_sha1 example_file 0 200000 True, rs_file_size = 200000 \<rparr>"
  have n: "length example_file = 200000" by (simp add: example_file_def)
  have f: "tree_fits 200000" "ED2K_EMBLOCK_SIZE < 200000" "0 < part_count 200000" "part_size 200000 0 = 200000"
    by (simp_all add: tree_fits_def part_count_def div_ceil_def ED2K_PART_SIZE_def ED2K_EMBLOCK_SIZE_def part_size_def)
  have len: "length (example_sha1 x) = 20" for x by (simp add: example_sha1_def)
  have q: "valid_path 200000 True []" "path_range 200000 True [] = (0 * ED2K_PART_SIZE, part_size 200000 0)"
    by (simp_all add: f)
  have m: "master_hash ?s = range_hash example_sha1 example_file 0 200000 True" by (simp add: master_hash_def range_hash_def)
  show thesis
    using that [OF build_full [OF f(1) n, of example_sha1] _ _ n f(1,3,4)] m
      read_recovery_full [of example_sha1, OF len f(1-3) q n refl refl]
      read_recovery_verified(1) [of example_sha1, OF len f(1-3) q refl refl, of example_file]
    by (simp add: answer_inputs_def) (simp add: example_tree colliding_def)
qed

theorem recovery_data_sound_witness:
  "\<exists>s body hs. build_from_data example_sha1 example_file (hash_set_new 200000) = (Inr (), s) \<and>
     trusted_part_block_hashes_from_recovery example_sha1 200000 (master_hash s) 0 body = Inr hs \<and>
     hs = true_block_hashes example_sha1 example_file 0"
proof -
  obtain s body hs where ex: "build_from_data example_sha1 example_file (hash_set_new 200000) = (Inr (), s)"
    "trusted_part_block_hashes_from_recovery example_sha1 200000 (master_hash s) 0 body = Inr hs"
    "\<not> colliding example_sha1 (pair_inputs (rs_root s)) (answer_inputs example_sha1 200000 (master_hash s) 0 body)"
    "length example_file = 200000" "tree_fits 200000" "0 < part_count 200000" "part_size 200000 0 = 200000"
    by (rule example_answer)
  then have "hs = true_block_hashes example_sha1 example_file 0"
    using recovery_data_sound [of example_sha1 example_file 0 "Inr ()" s body hs] by (simp add: example_sha1_def)
  with ex show ?thesis by blast
qed

section \<open>Salvage\<close>

definition absolute_range :: "nat \<Rightarrow> nat \<times> nat \<Rightarrow> nat \<times> nat" where
  "absolute_range p_start = (\<lambda>(pos, block). (p_start + pos, p_start + pos + block))"

lemma part_recovery_exact:
  "part_recovery_loop sha1 p part_data bs (map (\<lambda>(x, y). f x y) bs) =
     Inr \<lparr> recovered_ranges = map (absolute_range p) (filter (\<lambda>(x, y). sha1 (slice part_data x y) = f x y) bs),
           corrupt_ranges = map (absolute_range p) (filter (\<lambda>(x, y). sha1 (slice part_data x y) \<noteq> f x y) bs) \<rparr>"
  by (induction bs) (auto simp: try_bind_def Let_def absolute_range_def)

definition range_bytes :: "bytes \<Rightarrow> nat \<Rightarrow> (nat \<times> nat) list \<Rightarrow> bytes list" where
  "range_bytes data p_start = map (\<lambda>(pos, block). slice data (p_start + pos) block)"

text \<open>C6: salvage keeps exactly the good blocks. Let a downloader have accepted recovery data for a
  part against the master hash of the true file, and hold some bytes of the length of that part.
  Then the salvage pass completes and keeps exactly the blocks whose bytes are those of the true
  file and gives up exactly the others, unless the answer, or a local block, collides with a
  different input of the sharer's tree.\<close>

theorem salvage_exact:
  fixes part :: nat
  assumes "\<And>x. length (sha1 x) = 20" "tree_fits (length data)" "part < part_count (length data)"
    and "build_from_data sha1 data (hash_set_new (length data)) = (res, s)"
    and "trusted_part_block_hashes_from_recovery sha1 (length data) (master_hash s) part body = Inr hs"
    and "\<not> colliding sha1 (pair_inputs (rs_root s)) (answer_inputs sha1 (length data) (master_hash s) part body)"
    and local: "length part_data = part_size (length data) part"
  defines "blocks \<equiv> blocks_from 0 (part_size (length data) part)" and "p_start \<equiv> part * ED2K_PART_SIZE"
  assumes "\<not> colliding sha1 (range_bytes data p_start blocks) (range_bytes part_data 0 blocks)"
  defines "good \<equiv> (\<lambda>(pos, block). slice part_data pos block = slice data (p_start + pos) block)"
  shows "compute_part_recovery sha1 (length data) part part_data hs =
    Inr \<lparr> recovered_ranges = map (absolute_range p_start) (filter good blocks),
          corrupt_ranges = map (absolute_range p_start) (filter (\<lambda>b. \<not> good b) blocks) \<rparr>"
proof -
  have "hs = true_block_hashes sha1 data part"
    using recovered_or_colliding [OF assms(1-5)] assms(6) by simp
  moreover have "sha1 (slice part_data x y) = sha1 (slice data (p_start + x) y) \<longleftrightarrow> good (x, y)"
    if "(x, y) \<in> set blocks" for x y
    using assms(10) that by (force simp: colliding_def list_ex_iff range_bytes_def good_def)
  then have "filter (\<lambda>(x, y). sha1 (slice part_data x y) = sha1 (slice data (p_start + x) y)) blocks = filter good blocks"
    "filter (\<lambda>(x, y). sha1 (slice part_data x y) \<noteq> sha1 (slice data (p_start + x) y)) blocks = filter (\<lambda>b. \<not> good b) blocks"
    by (auto intro!: filter_cong)
  ultimately show ?thesis
    using local by (simp add: compute_part_recovery_def true_block_hashes_def part_recovery_exact
        flip: blocks_def p_start_def)
qed

theorem salvage_exact_witness:
  "\<exists>s body hs. build_from_data example_sha1 example_file (hash_set_new 200000) = (Inr (), s) \<and>
     trusted_part_block_hashes_from_recovery example_sha1 200000 (master_hash s) 0 body = Inr hs \<and>
     compute_part_recovery example_sha1 200000 0 (replicate 184320 7 @ replicate 15680 8) hs =
       Inr \<lparr> recovered_ranges = [(0, 184320)], corrupt_ranges = [(184320, 200000)] \<rparr>"
proof -
  let ?local = "replicate 184320 7 @ replicate 15680 8 :: bytes"
  obtain s body hs where ex: "build_from_data example_sha1 example_file (hash_set_new 200000) = (Inr (), s)"
    "trusted_part_block_hashes_from_recovery example_sha1 200000 (master_hash s) 0 body = Inr hs"
    "\<not> colliding example_sha1 (pair_inputs (rs_root s)) (answer_inputs example_sha1 200000 (master_hash s) 0 body)"
    "length example_file = 200000" "tree_fits 200000" "0 < part_count 200000" "part_size 200000 0 = 200000"
    by (rule example_answer)
  have blocks: "blocks_from 0 200000 = [(0, 184320), (184320, 15680)]"
    by (simp add: blocks_from.simps ED2K_EMBLOCK_SIZE_def)
  have slices: "slice example_file 0 184320 = replicate 184320 7" "slice example_file 184320 15680 = replicate 15680 7"
    "slice ?local 0 184320 = replicate 184320 7" "slice ?local 184320 15680 = replicate 15680 8"
    by (simp_all add: slice_def example_file_def)
  have neq: "replicate 15680 7 \<noteq> (replicate 15680 8 :: bytes)" by (simp add: replicate_eq_replicate)
  have "\<not> colliding example_sha1 (range_bytes example_file 0 (blocks_from 0 200000)) (range_bytes ?local 0 (blocks_from 0 200000))"
    by (simp add: blocks range_bytes_def slices colliding_def example_sha1_def)
  then have "compute_part_recovery example_sha1 200000 0 ?local hs =
      Inr \<lparr> recovered_ranges = [(0, 184320)], corrupt_ranges = [(184320, 200000)] \<rparr>"
    using salvage_exact [of example_sha1 example_file 0 "Inr ()" s body hs ?local] ex neq
    by (simp add: blocks slices absolute_range_def) (simp add: example_sha1_def)
  with ex show ?thesis by blast
qed

end
