(* ===== verification/Aich_Hashset.thy ===== *)
theory Aich_Hashset
  imports Aich_Salvage Node_Id
begin

text \<open>
  The hash sets of a payload (\<^verbatim>\<open>ed2k_transfer/hashset.rs\<close>) and the cached leaves of a recovery set
  (\<^verbatim>\<open>ed2k_transfer/aich_cache.rs\<close>). A reader is the list of bytes still to be read; opening the file
  and reporting progress are left out. MD4 is a function \<^verbatim>\<open>md4\<close> to 16 bytes; a running hasher is
  the list of the bytes it has been fed. The theorems relate the streaming builders to the block
  tree of \<^verbatim>\<open>aich_tree.rs\<close>.
\<close>

section \<open>Definitions\<close>

datatype hashset_error =
    ZeroSizedPayload | ShortPayload | MissingPartHash | MissingLeafHash | UnexpectedHashsetLength
  | MasterMismatch | InvalidFileHash | FileHashPanic | Md4Mismatch | InvalidRecoverySize
  | IncompleteRecoverySet | InvalidBlockCount

definition expected_md4_hash_count :: "nat \<Rightarrow> u16" where
  "expected_md4_hash_count file_size =
     (if file_size = 0 then 0
      else
        let whole_parts = file_size div ED2K_PART_SIZE; count = whole_parts + (if whole_parts > 0 then 1 else 0)
        in if count < 2 ^ 16 then of_nat count else 2 ^ 16 - 1)"

definition hash_of_hashes :: "(bytes \<Rightarrow> arr16) \<Rightarrow> arr16 list \<Rightarrow> arr16" where
  "hash_of_hashes md4 hashes = md4 (concat (map arr_bytes hashes))"

definition validate_md4_hashset :: "(bytes \<Rightarrow> arr16) \<Rightarrow> bytes \<Rightarrow> arr16 list \<Rightarrow> hashset_error + unit" where
  "validate_md4_hashset md4 file_hash md4_hashset =
     (case hash_from_str file_hash of
        parse_outcome.InvalidNodeId \<Rightarrow> Inl InvalidFileHash
      | Panic \<Rightarrow> Inl FileHashPanic
      | ParseOk expected \<Rightarrow>
        if md4_hashset = [] then Inr ()
        else if hash_of_hashes md4 md4_hashset \<noteq> hash_bytes expected then Inl Md4Mismatch
        else Inr ())"

definition payload_read :: "nat \<Rightarrow> bytes \<Rightarrow> hashset_error + bytes \<times> bytes" where
  "payload_read k bs = (if length bs < k then Inl ShortPayload else Inr (take k bs, drop k bs))"

function read_md4_loop :: "bytes \<Rightarrow> nat \<Rightarrow> bytes \<Rightarrow> hashset_error + bytes \<times> bytes" where
  "read_md4_loop hashed remaining bs =
     (if remaining > 0 then
        let chunk_len = min remaining 65536 in
        case payload_read chunk_len bs of Inl e \<Rightarrow> Inl e
        | Inr (chunk, rest) \<Rightarrow> read_md4_loop (hashed @ chunk) (remaining - chunk_len) rest
      else Inr (hashed, bs))"
  by pat_completeness auto
termination
  by (relation "measure (\<lambda>(hashed, remaining, bs). remaining)") auto

definition read_md4_digest_from_reader :: "(bytes \<Rightarrow> arr16) \<Rightarrow> nat \<Rightarrow> bytes \<Rightarrow> hashset_error + arr16 \<times> bytes" where
  "read_md4_digest_from_reader md4 sz bs =
     try_bind (read_md4_loop [] sz bs) (\<lambda>(hashed, rest). Inr (md4 hashed, rest))"

function md4_parts_loop :: "(bytes \<Rightarrow> arr16) \<Rightarrow> nat \<Rightarrow> bytes \<Rightarrow> hashset_error + arr16 list \<times> bytes" where
  "md4_parts_loop md4 remaining bs =
     (if remaining > 0 then
        let part_size = min remaining ED2K_PART_SIZE in
        case read_md4_digest_from_reader md4 part_size bs of Inl e \<Rightarrow> Inl e
        | Inr (digest, rest) \<Rightarrow>
          try_bind (md4_parts_loop md4 (remaining - part_size) rest) (\<lambda>(hashes, rest'). Inr (digest # hashes, rest'))
      else Inr ([], bs))"
  by pat_completeness auto
termination
  by (relation "measure (\<lambda>(md4, remaining, bs). remaining)") (auto simp: ED2K_PART_SIZE_def)

definition build_md4_hashset_from_payload ::
  "(bytes \<Rightarrow> arr16) \<Rightarrow> bytes \<Rightarrow> nat \<Rightarrow> hashset_error + ed2k_hash \<times> arr16 list" where
  "build_md4_hashset_from_payload md4 payload file_size =
     (if file_size = 0 then Inl ZeroSizedPayload
      else if file_size < ED2K_PART_SIZE then
        try_bind (read_md4_digest_from_reader md4 file_size payload) (\<lambda>(digest, _). Inr (Ed2kHash digest, []))
      else try_bind (md4_parts_loop md4 file_size payload) (\<lambda>(hashes, rest).
        try_bind (if file_size mod ED2K_PART_SIZE = 0
            then try_bind (read_md4_digest_from_reader md4 0 rest) (\<lambda>(digest, _). Inr (hashes @ [digest]))
            else Inr hashes) (\<lambda>part_hashes.
        Inr (Ed2kHash (hash_of_hashes md4 part_hashes), part_hashes))))"

text \<open>Both recursions over a part tree split a size as the block tree does.\<close>

function build_aich_block_tree_root ::
  "(bytes \<Rightarrow> aich_hash) \<Rightarrow> nat \<Rightarrow> bool \<Rightarrow> aich_hash list \<Rightarrow> nat \<Rightarrow> hashset_error + aich_hash" where
  "build_aich_block_tree_root sha1 sz is_left block_hashes block_offset =
     (if sz \<le> ED2K_EMBLOCK_SIZE then
        if block_offset < length block_hashes then Inr (block_hashes ! block_offset) else Inl MissingLeafHash
      else
        let block_count = div_ceil sz ED2K_EMBLOCK_SIZE;
            left_size = (block_count + (if is_left then 1 else 0)) div 2 * ED2K_EMBLOCK_SIZE;
            right_offset = block_offset + div_ceil left_size ED2K_EMBLOCK_SIZE
        in try_bind (build_aich_block_tree_root sha1 left_size True block_hashes block_offset) (\<lambda>l.
           try_bind (build_aich_block_tree_root sha1 (sz - left_size) False block_hashes right_offset) (\<lambda>r.
           Inr (sha1_pair sha1 l r))))"
  by pat_completeness auto
termination
proof (relation "measure (\<lambda>(sha1, sz, is_left, hashes, offset). sz)", goal_cases)
  case (2 sha1 sz is_left hashes offset count l roff)
  then show ?case using split_sizes(2) [of ED2K_EMBLOCK_SIZE sz is_left] by (simp add: of_bool_def)
next
  case (3 sha1 sz is_left hashes offset count l roff)
  then show ?case using split_sizes(1) [of ED2K_EMBLOCK_SIZE sz is_left] by (simp add: of_bool_def)
qed simp

function build_part_root ::
  "(bytes \<Rightarrow> aich_hash) \<Rightarrow> nat \<Rightarrow> nat \<Rightarrow> bool \<Rightarrow> aich_hash list \<Rightarrow> hashset_error + aich_hash" where
  "build_part_root sha1 start sz is_left part_hashes =
     (if sz \<le> ED2K_PART_SIZE then
        let part_index = start div ED2K_PART_SIZE
        in if part_index < length part_hashes then Inr (part_hashes ! part_index) else Inl MissingPartHash
      else
        let left_size = (div_ceil sz ED2K_PART_SIZE + (if is_left then 1 else 0)) div 2 * ED2K_PART_SIZE
        in try_bind (build_part_root sha1 start left_size True part_hashes) (\<lambda>l.
           try_bind (build_part_root sha1 (start + left_size) (sz - left_size) False part_hashes) (\<lambda>r.
           Inr (sha1_pair sha1 l r))))"
  by pat_completeness auto
termination
proof (relation "measure (\<lambda>(sha1, start, sz, is_left, hashes). sz)", goal_cases)
  case (2 sha1 start sz is_left hashes l)
  then show ?case using split_sizes(2) [of ED2K_PART_SIZE sz is_left] by (simp add: of_bool_def)
next
  case (3 sha1 start sz is_left hashes l)
  then show ?case using split_sizes(1) [of ED2K_PART_SIZE sz is_left] by (simp add: of_bool_def)
qed simp

definition reconstruct_aich_root_from_part_hashes ::
  "(bytes \<Rightarrow> aich_hash) \<Rightarrow> nat \<Rightarrow> aich_hash list \<Rightarrow> hashset_error + aich_hash" where
  "reconstruct_aich_root_from_part_hashes sha1 file_size part_hashes = build_part_root sha1 0 file_size True part_hashes"

record ed2k_aich_hashset =
  ah_master_hash :: aich_hash
  ah_part_hashes :: "aich_hash list"

definition expected_aich_hash_count :: "nat \<Rightarrow> u16" where
  "expected_aich_hash_count file_size =
     (if file_size \<le> ED2K_PART_SIZE then 0
      else let count = div_ceil file_size ED2K_PART_SIZE in if count < 2 ^ 16 then of_nat count else 2 ^ 16 - 1)"

definition validate_aich_part_hashes ::
  "(bytes \<Rightarrow> aich_hash) \<Rightarrow> nat \<Rightarrow> aich_hash \<Rightarrow> aich_hash list \<Rightarrow> hashset_error + unit" where
  "validate_aich_part_hashes sha1 file_size master parts =
     (let expected = unat (expected_aich_hash_count file_size) in
      if length parts \<noteq> expected then Inl UnexpectedHashsetLength
      else if expected = 0 then Inr ()
      else try_bind (reconstruct_aich_root_from_part_hashes sha1 file_size parts) (\<lambda>reconstructed.
        if reconstructed \<noteq> master then Inl MasterMismatch else Inr ()))"

definition validate_aich_hashset :: "(bytes \<Rightarrow> aich_hash) \<Rightarrow> nat \<Rightarrow> ed2k_aich_hashset \<Rightarrow> hashset_error + unit" where
  "validate_aich_hashset sha1 file_size aich =
     validate_aich_part_hashes sha1 file_size (ah_master_hash aich) (ah_part_hashes aich)"

text \<open>The block loop of a part: the bytes fed to the part's MD4 hasher and the SHA-1 hashes of its
  blocks.\<close>

function read_blocks_loop ::
  "(bytes \<Rightarrow> aich_hash) \<Rightarrow> nat \<Rightarrow> bytes \<Rightarrow> hashset_error + (bytes \<times> aich_hash list) \<times> bytes" where
  "read_blocks_loop sha1 remaining bs =
     (if remaining > 0 then
        let chunk_len = min remaining ED2K_EMBLOCK_SIZE in
        case payload_read chunk_len bs of Inl e \<Rightarrow> Inl e
        | Inr (chunk, rest) \<Rightarrow>
          try_bind (read_blocks_loop sha1 (remaining - chunk_len) rest) (\<lambda>((fed, hashes), rest').
            Inr ((chunk @ fed, sha1 chunk # hashes), rest'))
      else Inr (([], []), bs))"
  by pat_completeness auto
termination
  by (relation "measure (\<lambda>(sha1, remaining, bs). remaining)") (auto simp: ED2K_EMBLOCK_SIZE_def)

definition read_aich_block_hashes_from_reader ::
  "(bytes \<Rightarrow> aich_hash) \<Rightarrow> nat \<Rightarrow> bytes \<Rightarrow> hashset_error + aich_hash list \<times> bytes" where
  "read_aich_block_hashes_from_reader sha1 sz bs =
     try_bind (read_blocks_loop sha1 sz bs) (\<lambda>((_, hashes), rest). Inr (hashes, rest))"

definition build_aich_part_root_from_reader ::
  "(bytes \<Rightarrow> aich_hash) \<Rightarrow> nat \<Rightarrow> bool \<Rightarrow> bytes \<Rightarrow> hashset_error + aich_hash \<times> bytes" where
  "build_aich_part_root_from_reader sha1 sz is_left bs =
     try_bind (read_aich_block_hashes_from_reader sha1 sz bs) (\<lambda>(hashes, rest).
     try_bind (build_aich_block_tree_root sha1 sz is_left hashes 0) (\<lambda>root. Inr (root, rest)))"

function collect_aich_part_hashes_from_reader ::
  "(bytes \<Rightarrow> aich_hash) \<Rightarrow> nat \<Rightarrow> bool \<Rightarrow> bytes \<Rightarrow> hashset_error + aich_hash list \<times> bytes" where
  "collect_aich_part_hashes_from_reader sha1 sz is_left bs =
     (if sz \<le> ED2K_PART_SIZE then
        try_bind (build_aich_part_root_from_reader sha1 sz is_left bs) (\<lambda>(root, rest). Inr ([root], rest))
      else
        let left_size = (div_ceil sz ED2K_PART_SIZE + (if is_left then 1 else 0)) div 2 * ED2K_PART_SIZE
        in case collect_aich_part_hashes_from_reader sha1 left_size True bs of Inl e \<Rightarrow> Inl e
           | Inr (hs, rest) \<Rightarrow>
             try_bind (collect_aich_part_hashes_from_reader sha1 (sz - left_size) False rest) (\<lambda>(hs', rest').
               Inr (hs @ hs', rest')))"
  by pat_completeness auto
termination
proof (relation "measure (\<lambda>(sha1, sz, is_left, bs). sz)", goal_cases)
  case (2 sha1 sz is_left bs l)
  then show ?case using split_sizes(2) [of ED2K_PART_SIZE sz is_left] by (simp add: of_bool_def)
next
  case (3 sha1 sz is_left bs l)
  then show ?case using split_sizes(1) [of ED2K_PART_SIZE sz is_left] by (simp add: of_bool_def)
qed simp

definition build_aich_hashset_from_payload ::
  "(bytes \<Rightarrow> aich_hash) \<Rightarrow> bytes \<Rightarrow> nat \<Rightarrow> hashset_error + ed2k_aich_hashset" where
  "build_aich_hashset_from_payload sha1 payload file_size =
     (if file_size = 0 then Inl ZeroSizedPayload
      else if file_size \<le> ED2K_PART_SIZE then
        try_bind (build_aich_part_root_from_reader sha1 file_size True payload) (\<lambda>(root, _).
          Inr \<lparr> ah_master_hash = root, ah_part_hashes = [] \<rparr>)
      else
        try_bind (collect_aich_part_hashes_from_reader sha1 file_size True payload) (\<lambda>(hashes, _).
        try_bind (reconstruct_aich_root_from_part_hashes sha1 file_size hashes) (\<lambda>root.
          Inr \<lparr> ah_master_hash = root, ah_part_hashes = hashes \<rparr>)))"

record ed2k_payload_hashsets =
  ph_recovery_parts :: "bytes list"
  ph_file_hash :: ed2k_hash
  ph_md4_hashset :: "arr16 list"
  ph_aich_hashset :: ed2k_aich_hashset

text \<open>The loop over the parts of the combined builder: MD4 part hashes, AICH part hashes and packed
  leaves.\<close>

fun payload_parts_loop ::
  "(bytes \<Rightarrow> arr16) \<Rightarrow> (bytes \<Rightarrow> aich_hash) \<Rightarrow> aich_part_spec list \<Rightarrow> bytes \<Rightarrow>
   hashset_error + arr16 list \<times> aich_hash list \<times> bytes list" where
  "payload_parts_loop md4 sha1 [] bs = Inr ([], [], [])"
| "payload_parts_loop md4 sha1 (spec # specs) bs =
     try_bind (read_blocks_loop sha1 (ps_size spec) bs) (\<lambda>((fed, hashes), rest).
     try_bind (build_aich_block_tree_root sha1 (ps_size spec) (ps_is_left_branch spec) hashes 0) (\<lambda>root.
     try_bind (payload_parts_loop md4 sha1 specs rest) (\<lambda>(md4s, roots, leaves).
       Inr (md4 fed # md4s, root # roots, concat hashes # leaves))))"

definition build_md4_and_aich_hashsets_from_reader ::
  "(bytes \<Rightarrow> arr16) \<Rightarrow> (bytes \<Rightarrow> aich_hash) \<Rightarrow> bytes \<Rightarrow> nat \<Rightarrow> hashset_error + ed2k_payload_hashsets" where
  "build_md4_and_aich_hashsets_from_reader md4 sha1 payload file_size =
     (if file_size = 0 then Inl ZeroSizedPayload
      else try_bind (payload_parts_loop md4 sha1 (aich_part_specs_for_size file_size) payload) (\<lambda>(md4s, roots, leaves).
        let (file_hash, md4_hashset) =
              (if file_size < ED2K_PART_SIZE then (Ed2kHash (hd md4s), [])
               else
                 let all = (if file_size mod ED2K_PART_SIZE = 0 then md4s @ [md4 []] else md4s)
                 in (Ed2kHash (hash_of_hashes md4 all), all))
        in try_bind (if file_size \<le> ED2K_PART_SIZE then Inr \<lparr> ah_master_hash = hd roots, ah_part_hashes = [] \<rparr>
             else try_bind (reconstruct_aich_root_from_part_hashes sha1 file_size roots) (\<lambda>root.
               Inr \<lparr> ah_master_hash = root, ah_part_hashes = roots \<rparr>)) (\<lambda>aich.
           Inr \<lparr> ph_recovery_parts = leaves, ph_file_hash = file_hash, ph_md4_hashset = md4_hashset, ph_aich_hashset = aich \<rparr>)))"

fun recovery_roots_loop ::
  "(bytes \<Rightarrow> aich_hash) \<Rightarrow> (aich_part_spec \<times> bytes) list \<Rightarrow> hashset_error + aich_hash list" where
  "recovery_roots_loop sha1 [] = Inr []"
| "recovery_roots_loop sha1 ((spec, packed) # rest) =
     (if length packed \<noteq> div_ceil (ps_size spec) ED2K_EMBLOCK_SIZE * 20 then Inl InvalidBlockCount
      else try_bind (build_aich_block_tree_root sha1 (ps_size spec) (ps_is_left_branch spec)
          (as_chunks20 (length packed div 20) packed) 0) (\<lambda>root.
        try_bind (recovery_roots_loop sha1 rest) (\<lambda>roots. Inr (root # roots))))"

definition recovery_roots ::
  "(bytes \<Rightarrow> aich_hash) \<Rightarrow> nat \<Rightarrow> bytes list \<Rightarrow> hashset_error + aich_hash \<times> aich_hash list" where
  "recovery_roots sha1 sz parts =
     (if \<not> (sz > 0 \<and> sz \<le> 0x4000000000) then Inl InvalidRecoverySize
      else
        let specs = aich_part_specs_for_size sz in
        if length parts \<noteq> length specs then Inl IncompleteRecoverySet
        else try_bind (recovery_roots_loop sha1 (zip specs parts)) (\<lambda>roots.
          try_bind (if length roots = 1 then Inr (roots ! 0) else reconstruct_aich_root_from_part_hashes sha1 sz roots)
            (\<lambda>actual. Inr (actual, roots))))"

definition validate_aich_recovery_set ::
  "(bytes \<Rightarrow> aich_hash) \<Rightarrow> nat \<Rightarrow> aich_hash \<Rightarrow> bytes list \<Rightarrow> hashset_error + aich_hash list" where
  "validate_aich_recovery_set sha1 sz master parts =
     try_bind (recovery_roots sha1 sz parts) (\<lambda>(actual, roots).
       if actual \<noteq> master then Inl MasterMismatch else Inr roots)"

declare read_md4_loop.simps [simp del] md4_parts_loop.simps [simp del] build_aich_block_tree_root.simps [simp del]
  build_part_root.simps [simp del] read_blocks_loop.simps [simp del] collect_aich_part_hashes_from_reader.simps [simp del]

section \<open>Geometry of the parts\<close>

lemma part_induct [consumes 1, case_names Part Parts]:
  assumes "0 < n"
    and "\<And>off n il. 0 < n \<Longrightarrow> n \<le> ED2K_PART_SIZE \<Longrightarrow> P off n il"
    and "\<And>off n il. ED2K_PART_SIZE < n \<Longrightarrow> branch_base n = ED2K_PART_SIZE \<Longrightarrow> 0 < left_size n il \<Longrightarrow> left_size n il < n \<Longrightarrow>
      P off (left_size n il) True \<Longrightarrow> P (off + left_size n il) (n - left_size n il) False \<Longrightarrow> P off n il"
  shows "P off n il"
  using assms(1)
proof (induction off n il rule: split_induct)
  case (Leaf off n il)
  then have "n \<le> ED2K_PART_SIZE" using leaf_small [of n] by (meson less_imp_le_nat order_trans sizes_pos(4))
  with Leaf.prems show ?case by (rule assms(2))
next
  case (Split off n il)
  note b = left_size_bounds [OF Split.hyps, of il]
  show ?case
  proof (cases "n \<le> ED2K_PART_SIZE")
    case False
    then have "branch_base n = ED2K_PART_SIZE" by (simp add: branch_base_def)
    moreover have "ED2K_PART_SIZE < n" "0 < n - left_size n il" using False b by simp_all
    ultimately show ?thesis
      using Split.IH(1) [OF b(1)] Split.IH(2) b by (metis assms(3))
  qed (rule assms(2) [OF Split.prems])
qed

lemma left_size_parts:
  "branch_base n = c \<Longrightarrow> (div_ceil n c + (if il then 1 else 0)) div 2 * c = left_size n il"
  by (auto simp: left_size_def)

lemma chunks_rec: "0 < n \<Longrightarrow> 0 < c \<Longrightarrow> chunks c n = (0, min n c) # map (\<lambda>(p, s). (min n c + p, s)) (chunks c (n - min n c))"
proof (cases "n \<le> c")
  case True
  moreover assume "0 < n"
  ultimately show ?thesis by (simp add: chunks_single chunks_def [of c 0] div_ceil_def)
next
  case False
  moreover assume "0 < c"
  ultimately show ?thesis using chunks_split [of c 1 "n - c"] by (simp add: chunks_single)
qed

fun spec_offsets :: "nat \<Rightarrow> aich_part_spec list \<Rightarrow> (nat \<times> aich_part_spec) list" where
  "spec_offsets off [] = []"
| "spec_offsets off (x # xs) = (off, x) # spec_offsets (off + ps_size x) xs"

lemma spec_offsets_append:
  "spec_offsets off (xs @ ys) = spec_offsets off xs @ spec_offsets (off + sum_list (map ps_size xs)) ys"
  by (induction xs arbitrary: off) (simp_all add: add.assoc)

lemma length_spec_offsets [simp]: "length (spec_offsets off xs) = length xs"
  by (induction xs arbitrary: off) simp_all

lemma specs_split:
  "ED2K_PART_SIZE < n \<Longrightarrow> collect_aich_part_specs n il =
     collect_aich_part_specs (left_size n il) True @ collect_aich_part_specs (n - left_size n il) False"
  by (simp add: collect_aich_part_specs.simps [of n] left_size_def branch_base_def Let_def)

lemma specs_single: "n \<le> ED2K_PART_SIZE \<Longrightarrow> collect_aich_part_specs n il = [\<lparr> ps_size = n, ps_is_left_branch = il \<rparr>]"
  by (simp add: collect_aich_part_specs.simps [of n])

lemma specs_chunks:
  assumes "0 < n"
  shows "sum_list (map ps_size (collect_aich_part_specs n il)) = n"
    "map (\<lambda>(o', x). (o', ps_size x)) (spec_offsets off (collect_aich_part_specs n il)) =
       map (\<lambda>(p, s). (off + p, s)) (chunks ED2K_PART_SIZE n)"
proof -
  have "sum_list (map ps_size (collect_aich_part_specs n il)) = n \<and>
    map (\<lambda>(o', x). (o', ps_size x)) (spec_offsets off (collect_aich_part_specs n il)) =
       map (\<lambda>(p, s). (off + p, s)) (chunks ED2K_PART_SIZE n)"
    using assms
  proof (induction off n il rule: part_induct)
    case (Part off n il)
    then show ?case by (simp add: specs_single chunks_single)
  next
    case (Parts off n il)
    then show ?case
      using chunks_left [of n il] by (simp add: specs_split spec_offsets_append case_prod_unfold o_def add.assoc)
  qed
  then show "sum_list (map ps_size (collect_aich_part_specs n il)) = n"
    "map (\<lambda>(o', x). (o', ps_size x)) (spec_offsets off (collect_aich_part_specs n il)) =
       map (\<lambda>(p, s). (off + p, s)) (chunks ED2K_PART_SIZE n)" by simp_all
qed

lemma specs_length: "0 < n \<Longrightarrow> length (collect_aich_part_specs n il) = div_ceil n ED2K_PART_SIZE"
  using specs_chunks(2) [of n 0 il, THEN arg_cong [of _ _ length]] by (simp add: chunks_def)

section \<open>The builders compute the tree hashes\<close>

definition part_roots :: "(bytes \<Rightarrow> aich_hash) \<Rightarrow> bytes \<Rightarrow> nat \<Rightarrow> nat \<Rightarrow> bool \<Rightarrow> aich_hash list" where
  "part_roots sha1 data off n il =
     map (\<lambda>(o', x). range_hash sha1 data o' (ps_size x) (ps_is_left_branch x)) (spec_offsets off (collect_aich_part_specs n il))"

lemma part_roots_simps:
  "n \<le> ED2K_PART_SIZE \<Longrightarrow> part_roots sha1 data off n il = [range_hash sha1 data off n il]"
  "ED2K_PART_SIZE < n \<Longrightarrow> part_roots sha1 data off n il =
     part_roots sha1 data off (left_size n il) True @ part_roots sha1 data (off + left_size n il) (n - left_size n il) False"
proof -
  show "n \<le> ED2K_PART_SIZE \<Longrightarrow> part_roots sha1 data off n il = [range_hash sha1 data off n il]"
    by (simp add: part_roots_def specs_single)
  assume n: "ED2K_PART_SIZE < n"
  then have "branch_base n < n" by (simp add: branch_base_def)
  with n show "part_roots sha1 data off n il =
     part_roots sha1 data off (left_size n il) True @ part_roots sha1 data (off + left_size n il) (n - left_size n il) False"
    using specs_chunks(1) [of "left_size n il" True] left_size_bounds [of n il]
    by (simp add: part_roots_def specs_split spec_offsets_append)
qed

definition leaf_hashes :: "(bytes \<Rightarrow> aich_hash) \<Rightarrow> bytes \<Rightarrow> nat \<Rightarrow> nat \<Rightarrow> bool \<Rightarrow> aich_hash list" where
  "leaf_hashes sha1 data off n il = map (\<lambda>(s, k). sha1 (slice data (off + s) k)) (leaf_ranges n il)"

lemma block_tree_root:
  "0 < n \<Longrightarrow> n \<le> ED2K_PART_SIZE \<Longrightarrow>
   build_aich_block_tree_root sha1 n il (pre @ leaf_hashes sha1 data off n il @ post) (length pre) =
     Inr (range_hash sha1 data off n il)"
proof (induction off n il arbitrary: pre post rule: split_induct)
  case (Leaf off n il)
  then show ?case
    using leaf_small [of n]
    by (simp add: build_aich_block_tree_root.simps [of _ n] leaf_hashes_def leaf_ranges.simps [of n] range_hash_def
        full_tree.simps [of _ _ _ n])
next
  case (Split off n il)
  note b = left_size_bounds [OF Split.hyps, of il]
  have c: "branch_base n = ED2K_EMBLOCK_SIZE" using Split.prems by (simp add: branch_base_def)
  have l: "div_ceil (left_size n il) ED2K_EMBLOCK_SIZE = length (leaf_hashes sha1 data off (left_size n il) True)"
    using b Split.prems by (simp add: leaf_hashes_def leaf_ranges_part chunks_def)
  have "leaf_hashes sha1 data off n il = leaf_hashes sha1 data off (left_size n il) True @
      leaf_hashes sha1 data (off + left_size n il) (n - left_size n il) False"
    using Split.hyps by (simp add: leaf_hashes_def leaf_ranges.simps [of n] case_prod_unfold o_def add.assoc)
  moreover have "\<not> n \<le> ED2K_EMBLOCK_SIZE" using Split.hyps c by simp
  ultimately show ?case
    using Split.IH(1) [of pre "leaf_hashes sha1 data (off + left_size n il) (n - left_size n il) False @ post"]
      Split.IH(2) [of "pre @ leaf_hashes sha1 data off (left_size n il) True" post] b Split.prems Split.hyps
    by (simp add: build_aich_block_tree_root.simps [of _ n] left_size_parts [OF c] l Let_def try_bind_def range_hash_split)
qed

lemma part_tree_root:
  "0 < n \<Longrightarrow> build_part_root sha1 (length pre * ED2K_PART_SIZE) n il (pre @ part_roots sha1 data off n il @ post) =
     Inr (range_hash sha1 data off n il)"
proof (induction off n il arbitrary: pre post rule: part_induct)
  case (Part off n il)
  then show ?case by (simp add: build_part_root.simps [of _ _ n] part_roots_simps)
next
  case (Parts off n il)
  obtain m where m: "left_size n il = m * ED2K_PART_SIZE" using left_size_multiple Parts.hyps(2) by metis
  then have len: "length (part_roots sha1 data off (left_size n il) True) = m"
    using specs_length [of "left_size n il"] Parts.hyps(3) by (simp add: part_roots_def)
  then have "length pre * ED2K_PART_SIZE + left_size n il =
      length (pre @ part_roots sha1 data off (left_size n il) True) * ED2K_PART_SIZE"
    by (simp add: m add_mult_distrib)
  then show ?case
    using Parts.IH(1) [of pre "part_roots sha1 data (off + left_size n il) (n - left_size n il) False @ post"]
      Parts.IH(2) [of "pre @ part_roots sha1 data off (left_size n il) True" post] Parts.hyps
    by (simp add: build_part_root.simps [of _ _ n] part_roots_simps(2) left_size_parts Let_def try_bind_def range_hash_split)
qed

lemma slice_drop: "slice (drop off data) s k = slice data (off + s) k"
  by (simp add: slice_def add.commute)

lemma read_md4_loop_take:
  "n \<le> length bs \<Longrightarrow> read_md4_loop hashed n bs = Inr (hashed @ take n bs, drop n bs)"
proof (induction n arbitrary: hashed bs rule: less_induct)
  case (less n)
  show ?case
  proof (cases "n = 0")
    case True
    then show ?thesis by (simp add: read_md4_loop.simps)
  next
    case False
    let ?k = "min n 65536"
    have "read_md4_loop (hashed @ take ?k bs) (n - ?k) (drop ?k bs) =
        Inr ((hashed @ take ?k bs) @ take (n - ?k) (drop ?k bs), drop (n - ?k) (drop ?k bs))"
      using False less.prems by (intro less.IH) auto
    moreover have "take ?k bs @ take (n - ?k) (drop ?k bs) = take n bs"
      using take_add [of ?k "n - ?k" bs] by simp
    ultimately show ?thesis
      using False less.prems by (simp add: read_md4_loop.simps [of _ n] payload_read_def Let_def)
  qed
qed

lemma read_md4_digest:
  "n \<le> length bs \<Longrightarrow> read_md4_digest_from_reader md4 n bs = Inr (md4 (take n bs), drop n bs)"
  by (simp add: read_md4_digest_from_reader_def read_md4_loop_take try_bind_def)

lemma md4_parts:
  "n \<le> length bs \<Longrightarrow> md4_parts_loop md4 n bs =
     Inr (map (\<lambda>(p, s). md4 (slice bs p s)) (chunks ED2K_PART_SIZE n), drop n bs)"
proof (induction n arbitrary: bs rule: less_induct)
  case (less n)
  show ?case
  proof (cases "n = 0")
    case True
    then show ?thesis by (simp add: md4_parts_loop.simps [of _ 0] chunks_def div_ceil_def)
  next
    case False
    let ?k = "min n ED2K_PART_SIZE"
    have "md4_parts_loop md4 (n - ?k) (drop ?k bs) =
        Inr (map (\<lambda>(p, s). md4 (slice (drop ?k bs) p s)) (chunks ED2K_PART_SIZE (n - ?k)), drop (n - ?k) (drop ?k bs))"
      using False less.prems by (intro less.IH) auto
    then show ?thesis
      using False less.prems chunks_rec [of n ED2K_PART_SIZE]
      by (simp add: md4_parts_loop.simps [of _ n] read_md4_digest Let_def try_bind_def case_prod_unfold o_def slice_drop)
        (simp add: slice_def)
  qed
qed

lemma read_blocks:
  "n \<le> length bs \<Longrightarrow> read_blocks_loop sha1 n bs =
     Inr ((take n bs, map (\<lambda>(p, s). sha1 (slice bs p s)) (chunks ED2K_EMBLOCK_SIZE n)), drop n bs)"
proof (induction n arbitrary: bs rule: less_induct)
  case (less n)
  show ?case
  proof (cases "n = 0")
    case True
    then show ?thesis by (simp add: read_blocks_loop.simps [of _ 0] chunks_def div_ceil_def)
  next
    case False
    let ?k = "min n ED2K_EMBLOCK_SIZE"
    have "read_blocks_loop sha1 (n - ?k) (drop ?k bs) =
        Inr ((take (n - ?k) (drop ?k bs), map (\<lambda>(p, s). sha1 (slice (drop ?k bs) p s)) (chunks ED2K_EMBLOCK_SIZE (n - ?k))),
          drop (n - ?k) (drop ?k bs))"
      using False less.prems by (intro less.IH) auto
    moreover have "take ?k bs @ take (n - ?k) (drop ?k bs) = take n bs"
      using take_add [of ?k "n - ?k" bs] by simp
    ultimately show ?thesis
      using False less.prems chunks_rec [of n ED2K_EMBLOCK_SIZE]
      by (simp add: read_blocks_loop.simps [of _ n] payload_read_def Let_def try_bind_def case_prod_unfold o_def slice_drop)
        (simp add: slice_def)
  qed
qed

lemma read_part_blocks:
  assumes "0 < n" "n \<le> ED2K_PART_SIZE" "off + n \<le> length data"
  shows "read_blocks_loop sha1 n (drop off data) =
    Inr ((slice data off n, leaf_hashes sha1 data off n il), drop (off + n) data)"
  using assms read_blocks [of n "drop off data" sha1]
  by (simp add: leaf_hashes_def leaf_ranges_part slice_drop add.commute) (simp add: slice_def)

lemma part_root_from_reader:
  assumes "0 < n" "n \<le> ED2K_PART_SIZE" "off + n \<le> length data"
  shows "build_aich_part_root_from_reader sha1 n il (drop off data) = Inr (range_hash sha1 data off n il, drop (off + n) data)"
  using block_tree_root [OF assms(1,2), of sha1 il "[]" data off "[]"]
  by (simp add: build_aich_part_root_from_reader_def read_aich_block_hashes_from_reader_def
      read_part_blocks [OF assms, where il = il] try_bind_def)

lemma collect_from_reader:
  "0 < n \<Longrightarrow> off + n \<le> length data \<Longrightarrow>
   collect_aich_part_hashes_from_reader sha1 n il (drop off data) = Inr (part_roots sha1 data off n il, drop (off + n) data)"
proof (induction off n il rule: part_induct)
  case (Part off n il)
  then show ?case
    by (simp add: collect_aich_part_hashes_from_reader.simps [of _ n] part_root_from_reader part_roots_simps try_bind_def)
next
  case (Parts off n il)
  then show ?case
    by (simp add: collect_aich_part_hashes_from_reader.simps [of _ n] left_size_parts part_roots_simps(2) try_bind_def Let_def)
qed

lemma payload_parts:
  "(\<And>x. x \<in> set specs \<Longrightarrow> 0 < ps_size x \<and> ps_size x \<le> ED2K_PART_SIZE) \<Longrightarrow> off + sum_list (map ps_size specs) \<le> length data \<Longrightarrow>
   payload_parts_loop md4 sha1 specs (drop off data) =
     Inr (map (\<lambda>(o', x). md4 (slice data o' (ps_size x))) (spec_offsets off specs),
       map (\<lambda>(o', x). range_hash sha1 data o' (ps_size x) (ps_is_left_branch x)) (spec_offsets off specs),
       map (\<lambda>(o', x). concat (leaf_hashes sha1 data o' (ps_size x) (ps_is_left_branch x))) (spec_offsets off specs))"
proof (induction specs arbitrary: off)
  case (Cons x specs)
  have x: "0 < ps_size x" "ps_size x \<le> ED2K_PART_SIZE" "off + ps_size x \<le> length data" using Cons.prems by auto
  show ?case
    using Cons.IH [of "off + ps_size x"] Cons.prems
      block_tree_root [OF x(1,2), of sha1 "ps_is_left_branch x" "[]" data off "[]"]
    by (simp add: read_part_blocks [OF x, where il = "ps_is_left_branch x"] try_bind_def add.assoc)
qed simp

lemma spec_bounds: "0 < n \<Longrightarrow> x \<in> set (collect_aich_part_specs n il) \<Longrightarrow> 0 < ps_size x \<and> ps_size x \<le> ED2K_PART_SIZE"
proof -
  assume n: "0 < n" and x: "x \<in> set (collect_aich_part_specs n il)"
  have "map snd (spec_offsets off xs) = xs" for off xs by (induction xs arbitrary: off) simp_all
  then have "x \<in> snd ` set (spec_offsets 0 (collect_aich_part_specs n il))"
    using x by (metis list.set_map)
  then have "ps_size x \<in> snd ` set (map (\<lambda>(o', x). (o', ps_size x)) (spec_offsets 0 (collect_aich_part_specs n il)))"
    by force
  then obtain p where "(p, ps_size x) \<in> set (chunks ED2K_PART_SIZE n)"
    using specs_chunks(2) [OF n, where off = 0 and il = il] by auto
  from chunks_bounds [OF this] show ?thesis by simp
qed

definition packed_leaves :: "(bytes \<Rightarrow> aich_hash) \<Rightarrow> bytes \<Rightarrow> nat \<Rightarrow> bytes list" where
  "packed_leaves sha1 data n = map (\<lambda>(o', x). concat (leaf_hashes sha1 data o' (ps_size x) (ps_is_left_branch x)))
     (spec_offsets 0 (collect_aich_part_specs n True))"

definition md4_parts_of :: "(bytes \<Rightarrow> arr16) \<Rightarrow> bytes \<Rightarrow> nat \<Rightarrow> arr16 list" where
  "md4_parts_of md4 data n = map (\<lambda>(p, s). md4 (slice data p s)) (chunks ED2K_PART_SIZE n)"

lemma payload_parts_file:
  assumes "0 < length data"
  shows "payload_parts_loop md4 sha1 (aich_part_specs_for_size (length data)) data =
    Inr (md4_parts_of md4 data (length data), part_roots sha1 data 0 (length data) True, packed_leaves sha1 data (length data))"
proof -
  let ?specs = "collect_aich_part_specs (length data) True"
  have "map (\<lambda>(o', x). md4 (slice data o' (ps_size x))) (spec_offsets 0 ?specs) =
      map (\<lambda>(p, s). md4 (slice data p s)) (map (\<lambda>(o', x). (o', ps_size x)) (spec_offsets 0 ?specs))"
    by (simp add: case_prod_unfold)
  also have "map (\<lambda>(o', x). (o', ps_size x)) (spec_offsets 0 ?specs) = chunks ED2K_PART_SIZE (length data)"
    using specs_chunks(2) [OF assms, where off = 0 and il = True] by simp
  finally have "map (\<lambda>(o', x). md4 (slice data o' (ps_size x))) (spec_offsets 0 ?specs) = md4_parts_of md4 data (length data)"
    by (simp only: md4_parts_of_def)
  then show ?thesis
    using payload_parts [of ?specs 0 data md4 sha1] spec_bounds [OF assms] specs_chunks(1) [OF assms]
    by (simp add: aich_part_specs_for_size_def part_roots_def packed_leaves_def)
qed

lemma md4_hashset_file:
  assumes "0 < length data"
  shows "build_md4_hashset_from_payload md4 data (length data) =
    Inr (let md4s = md4_parts_of md4 data (length data);
             all = (if length data mod ED2K_PART_SIZE = 0 then md4s @ [md4 []] else md4s)
         in if length data < ED2K_PART_SIZE then (Ed2kHash (hd md4s), []) else (Ed2kHash (hash_of_hashes md4 all), all))"
proof -
  have "length data < ED2K_PART_SIZE \<Longrightarrow> md4_parts_of md4 data (length data) = [md4 data]"
    using assms by (simp add: md4_parts_of_def chunks_single slice_def)
  then show ?thesis
    using assms
    by (auto simp: build_md4_hashset_from_payload_def read_md4_digest md4_parts try_bind_def Let_def md4_parts_of_def)
qed

lemma aich_hashset_file:
  assumes "0 < length data"
  shows "build_aich_hashset_from_payload sha1 data (length data) =
    Inr \<lparr> ah_master_hash = range_hash sha1 data 0 (length data) True,
          ah_part_hashes = (if length data \<le> ED2K_PART_SIZE then [] else part_roots sha1 data 0 (length data) True) \<rparr>"
  using assms part_root_from_reader [of "length data" 0 data sha1 True] collect_from_reader [of "length data" 0 data sha1 True]
    part_tree_root [of "length data" sha1 "[]" True data 0 "[]"]
  by (simp add: build_aich_hashset_from_payload_def try_bind_def reconstruct_aich_root_from_part_hashes_def)

lemma both_hashsets_file:
  assumes "0 < length data" "build_md4_hashset_from_payload md4 data (length data) = Inr (file_hash, md4s)"
    "build_aich_hashset_from_payload sha1 data (length data) = Inr aich"
  shows "build_md4_and_aich_hashsets_from_reader md4 sha1 data (length data) =
    Inr \<lparr> ph_recovery_parts = packed_leaves sha1 data (length data), ph_file_hash = file_hash, ph_md4_hashset = md4s,
          ph_aich_hashset = aich \<rparr>"
  using assms part_tree_root [of "length data" sha1 "[]" True data 0 "[]"]
  by (simp add: build_md4_and_aich_hashsets_from_reader_def payload_parts_file md4_hashset_file aich_hashset_file
      try_bind_def reconstruct_aich_root_from_part_hashes_def part_roots_simps(1) Let_def split: if_splits)

lemma as_chunks20_concat: "(\<And>h. h \<in> set hs \<Longrightarrow> length h = 20) \<Longrightarrow> as_chunks20 (length hs) (concat hs) = hs"
  by (induction hs) simp_all

lemma length_concat_hashes: "(\<And>h. h \<in> set hs \<Longrightarrow> length h = 20) \<Longrightarrow> length (concat hs) = length hs * 20"
  by (induction hs) simp_all

lemma leaf_hashes_facts:
  assumes "\<And>x. length (sha1 x) = 20" "0 < n" "n \<le> ED2K_PART_SIZE"
  shows "length (concat (leaf_hashes sha1 data off n il)) = div_ceil n ED2K_EMBLOCK_SIZE * 20"
    "as_chunks20 (div_ceil n ED2K_EMBLOCK_SIZE) (concat (leaf_hashes sha1 data off n il)) = leaf_hashes sha1 data off n il"
proof -
  have "h \<in> set (leaf_hashes sha1 data off n il) \<Longrightarrow> length h = 20" for h
    using assms(1) by (auto simp: leaf_hashes_def)
  then have len: "length (concat (leaf_hashes sha1 data off n il)) = length (leaf_hashes sha1 data off n il) * 20"
    "as_chunks20 (length (leaf_hashes sha1 data off n il)) (concat (leaf_hashes sha1 data off n il)) = leaf_hashes sha1 data off n il"
    by (auto intro: length_concat_hashes as_chunks20_concat)
  have "length (leaf_hashes sha1 data off n il) = div_ceil n ED2K_EMBLOCK_SIZE"
    using assms(2,3) by (simp add: leaf_hashes_def leaf_ranges_part chunks_def)
  with len show "length (concat (leaf_hashes sha1 data off n il)) = div_ceil n ED2K_EMBLOCK_SIZE * 20"
    "as_chunks20 (div_ceil n ED2K_EMBLOCK_SIZE) (concat (leaf_hashes sha1 data off n il)) = leaf_hashes sha1 data off n il"
    by simp_all
qed

lemma recovery_roots_loop_roots:
  assumes "\<And>x. length (sha1 x) = 20"
  shows "(\<And>x. x \<in> set specs \<Longrightarrow> 0 < ps_size x \<and> ps_size x \<le> ED2K_PART_SIZE) \<Longrightarrow>
    recovery_roots_loop sha1 (zip specs (map (\<lambda>(o', x). concat (leaf_hashes sha1 data o' (ps_size x) (ps_is_left_branch x)))
      (spec_offsets off specs))) =
    Inr (map (\<lambda>(o', x). range_hash sha1 data o' (ps_size x) (ps_is_left_branch x)) (spec_offsets off specs))"
proof (induction specs arbitrary: off)
  case (Cons x specs)
  then have x: "0 < ps_size x" "ps_size x \<le> ED2K_PART_SIZE" by auto
  show ?case
    using Cons block_tree_root [OF x, of sha1 "ps_is_left_branch x" "[]" data off "[]"]
    by (simp add: leaf_hashes_facts [OF assms x] try_bind_def)
qed simp

lemma recovery_roots_file:
  assumes "\<And>x. length (sha1 x) = 20" "0 < length data" "length data \<le> 0x4000000000"
  shows "recovery_roots sha1 (length data) (packed_leaves sha1 data (length data)) =
    Inr (range_hash sha1 data 0 (length data) True, part_roots sha1 data 0 (length data) True)"
proof -
  have one: "length (part_roots sha1 data 0 (length data) True) = 1 \<Longrightarrow>
      part_roots sha1 data 0 (length data) True ! 0 = range_hash sha1 data 0 (length data) True"
  proof (cases "length data \<le> ED2K_PART_SIZE")
    case False
    moreover assume "length (part_roots sha1 data 0 (length data) True) = 1"
    ultimately show ?thesis
      using specs_length [OF assms(2), of True] div_ceil_bounds(1) [of ED2K_PART_SIZE "length data"] by (simp add: part_roots_def)
  qed (simp add: part_roots_simps)
  show ?thesis
    using recovery_roots_loop_roots [of sha1 "collect_aich_part_specs (length data) True" data 0] assms(1)
      spec_bounds [OF assms(2)] part_tree_root [OF assms(2), of sha1 "[]" True data 0 "[]"] one assms(2,3)
    by (simp add: recovery_roots_def packed_leaves_def aich_part_specs_for_size_def part_roots_def try_bind_def
        reconstruct_aich_root_from_part_hashes_def Let_def)
qed

lemma expected_count:
  assumes "tree_fits n"
  shows "unat (expected_aich_hash_count n) = (if n \<le> ED2K_PART_SIZE then 0 else div_ceil n ED2K_PART_SIZE)"
proof -
  have "div_ceil n ED2K_PART_SIZE \<le> 32768"
    using div_ceil_index [of 32768 n ED2K_PART_SIZE] assms by (simp add: tree_fits_def) (meson leD linorder_le_less_linear)
  then show ?thesis by (simp add: expected_aich_hash_count_def Let_def unsigned_of_nat take_bit_nat_eq_self)
qed

section \<open>Properties\<close>

text \<open>C7: the streaming builders agree with the block tree. For every payload whose tree fits, the MD4
  builder, the AICH builder and the combined builder succeed and give the same file hash, MD4 hash
  set and AICH hash set; the AICH master hash is the root of the block tree that
  \<^verbatim>\<open>build_from_data\<close> makes of the payload; and every validator of the program accepts the results:
  the MD4 hash set against the printed file hash, the part hashes against the master hash, and up
  to 256 GB the packed leaves against the master hash.\<close>

theorem hashset_builders_agree:
  assumes "\<And>x. length (sha1 x) = 20" "tree_fits (length data)"
    and "build_from_data sha1 data (hash_set_new (length data)) = (res, s)"
  shows "\<exists>file_hash md4s parts leaves.
    build_md4_hashset_from_payload md4 data (length data) = Inr (file_hash, md4s) \<and>
    build_aich_hashset_from_payload sha1 data (length data) =
      Inr \<lparr> ah_master_hash = master_hash s, ah_part_hashes = parts \<rparr> \<and>
    build_md4_and_aich_hashsets_from_reader md4 sha1 data (length data) =
      Inr \<lparr> ph_recovery_parts = leaves, ph_file_hash = file_hash, ph_md4_hashset = md4s,
            ph_aich_hashset = \<lparr> ah_master_hash = master_hash s, ah_part_hashes = parts \<rparr> \<rparr> \<and>
    validate_md4_hashset md4 (hash_display file_hash) md4s = Inr () \<and>
    validate_aich_part_hashes sha1 (length data) (master_hash s) parts = Inr () \<and>
    (length data \<le> 0x4000000000 \<longrightarrow> (\<exists>roots. validate_aich_recovery_set sha1 (length data) (master_hash s) leaves = Inr roots))"
proof -
  let ?n = "length data"
  note n = tree_fits_facts(1) [OF assms(2)]
  have m: "master_hash s = range_hash sha1 data 0 ?n True"
    using build_full [OF assms(2), of data sha1] assms(3) by (auto simp: master_hash_def range_hash_def)
  obtain file_hash md4s where md4s: "build_md4_hashset_from_payload md4 data ?n = Inr (file_hash, md4s)"
    using md4_hashset_file [OF n, of md4] by (metis surj_pair)
  let ?parts = "if ?n \<le> ED2K_PART_SIZE then [] else part_roots sha1 data 0 ?n True"
  have "validate_md4_hashset md4 (hash_display file_hash) md4s = Inr ()"
    using md4s md4_hashset_file [OF n, of md4]
    by (auto simp: validate_md4_hashset_def hash_str_roundtrip Let_def split: if_splits)
  moreover have "validate_aich_part_hashes sha1 ?n (master_hash s) ?parts = Inr ()"
    using part_tree_root [OF n, of sha1 "[]" True data 0 "[]"] specs_length [OF n, of True] m
    by (simp add: validate_aich_part_hashes_def expected_count [OF assms(2)] reconstruct_aich_root_from_part_hashes_def
        part_roots_def try_bind_def Let_def)
  moreover have "?n \<le> 0x4000000000 \<Longrightarrow>
      validate_aich_recovery_set sha1 ?n (master_hash s) (packed_leaves sha1 data ?n) = Inr (part_roots sha1 data 0 ?n True)"
    using recovery_roots_file [OF assms(1) n] m by (simp add: validate_aich_recovery_set_def try_bind_def)
  ultimately show ?thesis
    using md4s aich_hashset_file [OF n, of sha1] both_hashsets_file [OF n md4s aich_hashset_file [OF n]] m
    by (auto intro!: exI)
qed

theorem hashset_builders_agree_witness:
  "\<exists>s file_hash md4s parts leaves.
    build_from_data example_sha1 example_file (hash_set_new 200000) = (Inr (), s) \<and>
    build_md4_and_aich_hashsets_from_reader (\<lambda>bs. arr16 (take 16 bs)) example_sha1 example_file 200000 =
      Inr \<lparr> ph_recovery_parts = leaves, ph_file_hash = file_hash, ph_md4_hashset = md4s,
            ph_aich_hashset = \<lparr> ah_master_hash = master_hash s, ah_part_hashes = parts \<rparr> \<rparr>"
proof -
  have n: "length example_file = 200000" by (simp add: example_file_def)
  have "tree_fits 200000" by (simp add: tree_fits_def ED2K_PART_SIZE_def)
  then show ?thesis
    using hashset_builders_agree [of example_sha1 example_file "Inr ()" _ "\<lambda>bs. arr16 (take 16 bs)"]
      build_full [of 200000 example_file example_sha1] n by (fastforce simp: example_sha1_def)
qed

end
