(* ===== verification/Aich_Cache.thy ===== *)
theory Aich_Cache
  imports Aich_Hashset
begin

text \<open>
  Recovery data from cached hashes: \<^verbatim>\<open>AichRecoveryHashSet::from_cached_part\<close> fills only the roots of
  the parts and the leaves of the one part that is asked for. The theory shows that this smaller
  tree answers a request exactly as the tree of the whole payload does.
\<close>

section \<open>The trees of a cached set\<close>

fun part_path :: "nat \<Rightarrow> bool \<Rightarrow> bool list \<Rightarrow> bool" where
  "part_path n il [] = (n \<le> ED2K_PART_SIZE)"
| "part_path n il (True # p) = (ED2K_PART_SIZE < n \<and> part_path (left_size n il) True p)"
| "part_path n il (False # p) = (ED2K_PART_SIZE < n \<and> part_path (n - left_size n il) False p)"

lemma part_path_valid: "part_path n il p \<Longrightarrow> valid_path n il p"
  by (induction n il p rule: part_path.induct) (auto simp: branch_base_def)

lemma part_path_chunk:
  "0 < n \<Longrightarrow> (s, k) \<in> set (chunks ED2K_PART_SIZE n) \<Longrightarrow>
   \<exists>p s'. part_path n il p \<and> path_range n il p = (s', k) \<and> off + s = off + s'"
proof (induction off n il arbitrary: s rule: part_induct)
  case (Part off n il)
  then show ?case by (intro exI [of _ "[]"]) (simp add: chunks_single)
next
  case (Parts off n il)
  with chunks_left [of n il] consider "(s, k) \<in> set (chunks ED2K_PART_SIZE (left_size n il))"
    | t where "s = left_size n il + t" "(t, k) \<in> set (chunks ED2K_PART_SIZE (n - left_size n il))"
    by auto
  then show ?case
  proof cases
    case 1
    then obtain p where "part_path (left_size n il) True p" "path_range (left_size n il) True p = (s, k)"
      using Parts.IH(1) by auto
    then show ?thesis using Parts.hyps by (intro exI [of _ "True # p"]) simp
  next
    case 2
    then obtain p where "part_path (n - left_size n il) False p" "path_range (n - left_size n il) False p = (t, k)"
      using Parts.IH(2) by auto
    then show ?thesis using Parts.hyps 2 by (intro exI [of _ "False # p"]) simp
  qed
qed

text \<open>The tree with the part roots only, and the same with the inner hashes; then both with the
  leaves of the part at a path.\<close>

function parts_tree :: "bool \<Rightarrow> (bytes \<Rightarrow> aich_hash) \<Rightarrow> bytes \<Rightarrow> nat \<Rightarrow> nat \<Rightarrow> bool \<Rightarrow> aich_tree" where
  "parts_tree hashed sha1 data off n il =
     (if n \<le> ED2K_PART_SIZE then stub sha1 data off n il
      else AichTree n il (branch_base n) (if hashed then range_hash sha1 data off n il else replicate 20 0) hashed
        (Some (parts_tree hashed sha1 data off (left_size n il) True))
        (Some (parts_tree hashed sha1 data (off + left_size n il) (n - left_size n il) False)))"
  by pat_completeness auto
termination
  by (relation "measure (\<lambda>(hashed, sha1, data, off, n, il). n)") (auto simp: left_size_bounds branch_base_def)

declare parts_tree.simps [simp del]

fun cached_tree :: "bool \<Rightarrow> (bytes \<Rightarrow> aich_hash) \<Rightarrow> bytes \<Rightarrow> nat \<Rightarrow> nat \<Rightarrow> bool \<Rightarrow> bool list \<Rightarrow> aich_tree" where
  "cached_tree hashed sha1 data off n il [] =
     (if hashed then full_tree sha1 data off n il else with_hash (range_hash sha1 data off n il) (lowest_tree sha1 data off n il))"
| "cached_tree hashed sha1 data off n il (True # p) =
     AichTree n il (branch_base n) (if hashed then range_hash sha1 data off n il else replicate 20 0) hashed
       (Some (cached_tree hashed sha1 data off (left_size n il) True p))
       (Some (parts_tree hashed sha1 data (off + left_size n il) (n - left_size n il) False))"
| "cached_tree hashed sha1 data off n il (False # p) =
     AichTree n il (branch_base n) (if hashed then range_hash sha1 data off n il else replicate 20 0) hashed
       (Some (parts_tree hashed sha1 data off (left_size n il) True))
       (Some (cached_tree hashed sha1 data (off + left_size n il) (n - left_size n il) False p))"

lemma parts_tree_simps [simp]:
  "node_hash (parts_tree True sha1 data off n il) = range_hash sha1 data off n il"
  "hash_valid (parts_tree True sha1 data off n il)" "is_left_branch (parts_tree hashed sha1 data off n il) = il"
  by (simp_all add: parts_tree.simps [of _ _ _ _ n] stub_def)

lemma cached_tree_simps [simp]:
  "node_hash (cached_tree True sha1 data off n il p) = range_hash sha1 data off n il"
  "hash_valid (cached_tree True sha1 data off n il p)"
  by (cases "(sha1, data, off, n, il, p)" rule: verified_tree.cases; simp add: range_hash_def)+

lemma data_size_cached [simp]: "data_size (cached_tree True sha1 data off n il p) = n"
  by (cases "(sha1, data, off, n, il, p)" rule: verified_tree.cases; simp)

lemma recalculate_parts: "0 < n \<Longrightarrow> recalculate_hash sha1 False (parts_tree False sha1 data off n il) = (True, parts_tree True sha1 data off n il)"
proof (induction off n il rule: part_induct)
  case (Part off n il)
  then show ?case by (simp add: parts_tree.simps [of _ _ _ _ n])
next
  case (Parts off n il)
  then show ?case by (simp add: parts_tree.simps [of _ _ _ _ n] range_hash_split)
qed

lemma recalculate_cached:
  "0 < n \<Longrightarrow> part_path n il p \<Longrightarrow>
   recalculate_hash sha1 False (cached_tree False sha1 data off n il p) = (True, cached_tree True sha1 data off n il p)"
proof (induction n il p arbitrary: off rule: part_path.induct)
  case (1 n il)
  show ?case
  proof (cases "n \<le> branch_base n")
    case True
    then show ?thesis by (simp add: lowest_tree.simps [of _ _ _ n] full_tree.simps [of _ _ _ n] range_hash_def)
  next
    case False
    then show ?thesis
      by (simp add: lowest_tree.simps [of _ _ _ n] full_tree.simps [of _ _ _ n] Let_def recalculate_lowest)
  qed
next
  case (2 n il p)
  then have "branch_base n < n" "branch_base n = ED2K_PART_SIZE" by (simp_all add: branch_base_def)
  with 2 left_size_bounds [of n il] show ?case by (simp add: recalculate_parts range_hash_split)
next
  case (3 n il p)
  then have "branch_base n < n" "branch_base n = ED2K_PART_SIZE" by (simp_all add: branch_base_def)
  with 3 left_size_bounds [of n il] show ?case by (simp add: recalculate_parts range_hash_split)
qed

section \<open>Filling the tree\<close>

definition mark_at :: "nat \<Rightarrow> nat \<Rightarrow> nat \<Rightarrow> aich_hash \<Rightarrow> aich_tree \<Rightarrow> (aich_error + unit) \<times> aich_tree" where
  "mark_at level s k h t = (case find_hash_mut (with_hash h) t s k level of
     (None, _, t') \<Rightarrow> (Inl InvalidPartNode, t') | (Some _, _, t') \<Rightarrow> (Inr (), t'))"

definition part_marks :: "(bytes \<Rightarrow> aich_hash) \<Rightarrow> bytes \<Rightarrow> nat \<Rightarrow> nat \<Rightarrow> bool \<Rightarrow> (nat \<times> nat \<times> aich_hash) list" where
  "part_marks sha1 data off n il =
     map (\<lambda>(s, x). (s, ps_size x, range_hash sha1 data (off + s) (ps_size x) (ps_is_left_branch x)))
       (spec_offsets 0 (collect_aich_part_specs n il))"

lemma spec_offsets_shift: "spec_offsets (a + b) xs = map (\<lambda>(s, x). (a + s, x)) (spec_offsets b xs)"
  by (induction xs arbitrary: b) (simp_all add: add.assoc)

lemma part_marks_split:
  assumes "ED2K_PART_SIZE < n"
  shows "part_marks sha1 data off n il = part_marks sha1 data off (left_size n il) True @
    map (\<lambda>(s, k, h). (left_size n il + s, k, h)) (part_marks sha1 data (off + left_size n il) (n - left_size n il) False)"
proof -
  have "branch_base n < n" using assms by (simp add: branch_base_def)
  with assms show ?thesis
    using specs_chunks(1) [of "left_size n il" True] left_size_bounds [of n il]
      spec_offsets_shift [of "left_size n il" 0 "collect_aich_part_specs (n - left_size n il) False"]
    by (simp add: part_marks_def specs_split spec_offsets_append case_prod_unfold o_def add.assoc)
qed

lemma part_marks_bounds:
  assumes "0 < n" "(s, k, h) \<in> set (part_marks sha1 data off n il)"
  shows "s + k \<le> n \<and> 0 < k"
proof -
  have "(s, k) \<in> set (map (\<lambda>(o', x). (o', ps_size x)) (spec_offsets 0 (collect_aich_part_specs n il)))"
    using assms(2) by (force simp: part_marks_def)
  then show ?thesis using specs_chunks(2) [OF assms(1), of 0 il] chunks_bounds by fastforce
qed

lemma part_marks_not_Nil: "0 < n \<Longrightarrow> part_marks sha1 data off n il \<noteq> []"
  using specs_chunks(1) [of n il] by (cases "collect_aich_part_specs n il") (auto simp: part_marks_def)

lemma mark_at_left:
  assumes "level < 22" "branch_base n < n" "0 < k" "s + k \<le> left_size n il"
  shows "mark_at level s k h (AichTree n il (branch_base n) h0 v l r) =
    map_prod id (\<lambda>c. AichTree n il (branch_base n) h0 v (Some c) r) (mark_at (Suc level) s k h (get_branch (left_size n il) True l))"
  using assms by (simp add: mark_at_def find_left split: prod.splits option.splits)

lemma mark_at_right:
  assumes "level < 22" "branch_base n < n" "s + k \<le> n - left_size n il"
  shows "mark_at level (left_size n il + s) k h (AichTree n il (branch_base n) h0 v l r) =
    map_prod id (\<lambda>c. AichTree n il (branch_base n) h0 v l (Some c)) (mark_at (Suc level) s k h (get_branch (n - left_size n il) False r))"
  using assms by (simp add: mark_at_def find_right split: prod.splits option.splits)

lemma mark_parts:
  "0 < n \<Longrightarrow> level + height n il < 22 \<Longrightarrow>
   try_each (\<lambda>(s, k, h). mark_at level s k h) (part_marks sha1 data off n il) (get_branch n il None) =
     (Inr (), parts_tree False sha1 data off n il)"
proof (induction off n il arbitrary: level rule: part_induct)
  case (Part off n il)
  then show ?case
    by (simp add: part_marks_def specs_single mark_at_def find_here parts_tree.simps [of _ _ _ _ n] stub_def)
next
  case (Parts off n il)
  have b: "branch_base n < n" using Parts.hyps by simp
  have lv: "level < 22" "Suc level + height (left_size n il) True < 22" "Suc level + height (n - left_size n il) False < 22"
    using Parts.prems b by (simp_all add: height.simps [of n])
  have pos: "0 < n - left_size n il" using Parts.hyps by simp
  have "try_each (\<lambda>(s, k, h). mark_at level s k h)
      (part_marks sha1 data off (left_size n il) True @
       map (\<lambda>(s, k, h). (left_size n il + s, k, h)) (part_marks sha1 data (off + left_size n il) (n - left_size n il) False))
      (AichTree n il (branch_base n) (replicate 20 0) False None None) =
    (Inr (), AichTree n il (branch_base n) (replicate 20 0) False (Some (parts_tree False sha1 data off (left_size n il) True))
      (Some (parts_tree False sha1 data (off + left_size n il) (n - left_size n il) False)))"
  proof (rule try_each_halves(1) [where nl = "left_size n il" and nr = "n - left_size n il"
      and gl = "\<lambda>(s, k, h). mark_at (Suc level) s k h" and gr = "\<lambda>(s, k, h). mark_at (Suc level) (s - left_size n il) k h"])
    show "try_each (\<lambda>(s, k, h). mark_at (Suc level) s k h) (part_marks sha1 data off (left_size n il) True)
        (get_branch (left_size n il) True None) = (Inr (), parts_tree False sha1 data off (left_size n il) True)"
      by (rule Parts.IH(1) [OF lv(2)])
  qed (use Parts.IH(2) [OF lv(3)] Parts.hyps(3) pos b lv(1) part_marks_bounds part_marks_not_Nil in
      \<open>auto simp: try_each_map case_prod_unfold mark_at_left mark_at_right\<close>)
  then show ?case using Parts.hyps(1) by (simp add: part_marks_split parts_tree.simps [of _ _ _ _ n])
qed

lemma set_leaves_stub:
  "0 < n \<Longrightarrow> level + height n il < 22 \<Longrightarrow>
   set_leaves sha1 data off level (leaf_ranges n il) (stub sha1 data off n il) =
     (Inr (), with_hash (range_hash sha1 data off n il) (lowest_tree sha1 data off n il))"
proof (cases "n \<le> branch_base n")
  case True
  moreover assume "0 < n" "level + height n il < 22"
  ultimately show ?thesis
    using leaf_base [of n]
    by (simp add: leaf_ranges.simps [of n] lowest_tree.simps [of _ _ _ n] set_leaves_def set_block_at_def find_here stub_def
        range_hash_def full_tree.simps [of _ _ _ n])
next
  case False
  moreover assume lv: "0 < n" "level + height n il < 22"
  ultimately have "level < 22" "Suc level + height (left_size n il) True < 22" "Suc level + height (n - left_size n il) False < 22"
    "branch_base n < n"
    by (simp_all add: height.simps [of n])
  then show ?thesis
    using set_leaves_halves [of level n sha1 data off il "lowest_tree sha1 data off (left_size n il) True"
        "lowest_tree sha1 data (off + left_size n il) (n - left_size n il) False"] left_size_bounds [of n il]
    by (simp add: lowest_tree.simps [of _ _ _ n] stub_def set_blocks_lowest del: get_branch_simps)
qed

lemma parts_tree_part: "n \<le> ED2K_PART_SIZE \<Longrightarrow> parts_tree hashed sha1 data off n il = stub sha1 data off n il"
  by (simp add: parts_tree.simps [of _ _ _ _ n])

lemma block_chunk:
  assumes "xy \<in> set (chunks ED2K_EMBLOCK_SIZE k)"
  obtains x y where "xy = (x, y)" "x + y \<le> k" "0 < y"
  using assms chunks_bounds [of "fst xy" "snd xy" ED2K_EMBLOCK_SIZE k] that [of "fst xy" "snd xy"] by simp

lemma set_cached_leaves:
  "0 < n \<Longrightarrow> part_path n il p \<Longrightarrow> path_range n il p = (s, k) \<Longrightarrow> level + height n il < 22 \<Longrightarrow>
   try_each (\<lambda>(x, y). set_block_at level (s + x) y (sha1 (slice data (off + s + x) y))) (chunks ED2K_EMBLOCK_SIZE k)
     (parts_tree False sha1 data off n il) = (Inr (), cached_tree False sha1 data off n il p)"
proof (induction n il p arbitrary: off s level rule: part_path.induct)
  case (1 n il)
  then show ?case
    using set_leaves_stub [of n level il sha1 data off]
    by (simp add: parts_tree_part set_leaves_def leaf_ranges_part)
next
  case (2 n il p)
  then have b: "branch_base n < n" "0 < left_size n il" using left_size_bounds [of n il] by (simp_all add: branch_base_def)
  have sk: "s + k \<le> left_size n il" "0 < k"
    using 2 b path_range_bounds [of "left_size n il" True p s k] by (simp_all add: part_path_valid)
  have lv: "level < 22" "Suc level + height (left_size n il) True < 22" using 2(5) b by (simp_all add: height.simps [of n])
  let ?K = "\<lambda>c. AichTree n il (branch_base n) (replicate 20 0) False c
    (Some (parts_tree False sha1 data (off + left_size n il) (n - left_size n il) False))"
  let ?f = "\<lambda>level (x, y). set_block_at level (s + x) y (sha1 (slice data (off + s + x) y))"
  have "try_each (?f level) (chunks ED2K_EMBLOCK_SIZE k) (?K (Some (parts_tree False sha1 data off (left_size n il) True))) =
      map_prod id (\<lambda>c. ?K (Some c)) (try_each (?f (Suc level)) (chunks ED2K_EMBLOCK_SIZE k)
        (get_branch (left_size n il) True (Some (parts_tree False sha1 data off (left_size n il) True))))"
  proof (rule try_each_branch)
    show "chunks ED2K_EMBLOCK_SIZE k \<noteq> []" using sk by (simp add: chunks_rec)
    fix xy c assume "xy \<in> set (chunks ED2K_EMBLOCK_SIZE k)"
    then obtain x y where xy: "xy = (x, y)" "x + y \<le> k" "0 < y" by (rule block_chunk)
    then show "?f level xy (?K c) = map_prod id (\<lambda>c. ?K (Some c)) (?f (Suc level) xy (get_branch (left_size n il) True c))"
      using sk b lv by (simp add: set_block_at_left)
  qed
  then show ?case
    using 2(1) [of s "Suc level" off] 2(2-4) lv b by (simp add: parts_tree.simps [of _ _ _ _ n])
next
  case (3 n il p)
  then obtain s' where s': "path_range (n - left_size n il) False p = (s', k)" "s = left_size n il + s'"
    by (auto split: prod.splits)
  from 3 have b: "branch_base n < n" "0 < n - left_size n il" using left_size_bounds [of n il] by (simp_all add: branch_base_def)
  have sk: "s' + k \<le> n - left_size n il" "0 < k"
    using 3 s' b path_range_bounds [of "n - left_size n il" False p s' k] by (simp_all add: part_path_valid)
  have lv: "level < 22" "Suc level + height (n - left_size n il) False < 22" using 3(5) b by (simp_all add: height.simps [of n])
  let ?K = "AichTree n il (branch_base n) (replicate 20 0) False (Some (parts_tree False sha1 data off (left_size n il) True))"
  let ?f = "\<lambda>level s (x, y). set_block_at level (s + x) y (sha1 (slice data (off + left_size n il + s' + x) y))"
  have "try_each (?f level s) (chunks ED2K_EMBLOCK_SIZE k) (?K (Some (parts_tree False sha1 data (off + left_size n il) (n - left_size n il) False))) =
      map_prod id (\<lambda>c. ?K (Some c)) (try_each (?f (Suc level) s') (chunks ED2K_EMBLOCK_SIZE k)
        (get_branch (n - left_size n il) False (Some (parts_tree False sha1 data (off + left_size n il) (n - left_size n il) False))))"
  proof (rule try_each_branch)
    show "chunks ED2K_EMBLOCK_SIZE k \<noteq> []" using sk by (simp add: chunks_rec)
    fix xy c assume "xy \<in> set (chunks ED2K_EMBLOCK_SIZE k)"
    then obtain x y where xy: "xy = (x, y)" "x + y \<le> k" "0 < y" by (rule block_chunk)
    then show "?f level s xy (?K c) = map_prod id (\<lambda>c. ?K (Some c)) (?f (Suc level) s' xy (get_branch (n - left_size n il) False c))"
      using sk b lv set_block_at_right [of level n "s' + x" y il] by (simp add: s'(2) add.assoc)
  qed
  then show ?case
    using 3(1) [of s' "Suc level" "off + left_size n il"] 3(2-4) lv b s' by (simp add: parts_tree.simps [of _ _ _ _ n] add.assoc)
qed

section \<open>Answering from the cached tree\<close>

lemma cached_recovery_items:
  "0 < n \<Longrightarrow> part_path n il p \<Longrightarrow> path_range n il p = (s, k) \<Longrightarrow>
   tree_recovery_data (cached_tree True sha1 data off n il p) s k ident w =
     Inr (encode_items w (shift_in ident il) (part_items sha1 data off n il p))"
proof (induction n il p arbitrary: off s ident rule: part_path.induct)
  case (1 n il)
  then show ?case using tree_recovery_items [of n il "[]" s k sha1 data off ident w] by simp
next
  case (2 n il p)
  then have "branch_base n < n" "s + k \<le> left_size n il" "0 < k" "0 < left_size n il"
    using left_size_bounds [of n il] path_range_bounds [of "left_size n il" True p s k] by (auto simp: branch_base_def part_path_valid)
  with 2 show ?case by (simp add: recovery_left try_bind_def write_hash_def)
next
  case (3 n il p)
  then obtain s' where s': "path_range (n - left_size n il) False p = (s', k)" "s = left_size n il + s'"
    by (auto split: prod.splits)
  with 3 have "branch_base n < n" "s' + k \<le> n - left_size n il" "0 < k" "0 < n - left_size n il"
    using left_size_bounds [of n il] path_range_bounds [of "n - left_size n il" False p s' k] by (auto simp: branch_base_def part_path_valid)
  with 3 s' show ?case by (simp add: recovery_right try_bind_def write_hash_def)
qed

lemma find_cached:
  "0 < n \<Longrightarrow> part_path n il p \<Longrightarrow> path_range n il p = (s, k) \<Longrightarrow> level + length p < 22 \<Longrightarrow>
   \<exists>node. find_hash_mut (\<lambda>n. n) (cached_tree True sha1 data off n il p) s k level =
     (Some node, Suc level + length p, cached_tree True sha1 data off n il p)"
proof (induction n il p arbitrary: s level off rule: part_path.induct)
  case (1 n il)
  then show ?case using find_full [of n il "[]" s k level sha1 data off] by simp
next
  case (2 n il p)
  then have "branch_base n < n" "s + k \<le> left_size n il" "0 < k" "0 < left_size n il"
    using left_size_bounds [of n il] path_range_bounds [of "left_size n il" True p s k] by (auto simp: branch_base_def part_path_valid)
  with 2(1) [of s "Suc level" off] 2(2-) show ?case by (auto simp: find_left)
next
  case (3 n il p)
  then obtain s' where s': "path_range (n - left_size n il) False p = (s', k)" "s = left_size n il + s'"
    by (auto split: prod.splits)
  with 3 have "branch_base n < n" "s' + k \<le> n - left_size n il" "0 < k" "0 < n - left_size n il"
    using left_size_bounds [of n il] path_range_bounds [of "n - left_size n il" False p s' k] by (auto simp: branch_base_def part_path_valid)
  with 3(1) [of s' "Suc level" "off + left_size n il"] 3(2-) s' show ?case by (auto simp: find_right)
qed

lemma spec_offsets_nth:
  assumes "0 < n" "i < length (collect_aich_part_specs n il)"
  shows "spec_offsets 0 (collect_aich_part_specs n il) ! i = (i * ED2K_PART_SIZE, collect_aich_part_specs n il ! i)"
    "ps_size (collect_aich_part_specs n il ! i) = min (n - i * ED2K_PART_SIZE) ED2K_PART_SIZE"
proof -
  let ?so = "spec_offsets 0 (collect_aich_part_specs n il)"
  have i: "i < div_ceil n ED2K_PART_SIZE" using assms specs_length by simp
  have "map snd (spec_offsets off xs) = xs" for off xs by (induction xs arbitrary: off) simp_all
  then have snd: "snd (?so ! i) = collect_aich_part_specs n il ! i"
    using assms(2) by (metis length_spec_offsets nth_map)
  have "map (\<lambda>(o', x). (o', ps_size x)) ?so ! i = chunks ED2K_PART_SIZE n ! i"
    using specs_chunks(2) [OF assms(1), of 0 il] by simp
  then have "(case ?so ! i of (o', x) \<Rightarrow> (o', ps_size x)) = (i * ED2K_PART_SIZE, min (n - i * ED2K_PART_SIZE) ED2K_PART_SIZE)"
    using assms(2) i by (simp add: chunks_def)
  with snd show "?so ! i = (i * ED2K_PART_SIZE, collect_aich_part_specs n il ! i)"
    "ps_size (collect_aich_part_specs n il ! i) = min (n - i * ED2K_PART_SIZE) ED2K_PART_SIZE"
    by (auto split: prod.splits simp: prod_eq_iff)
qed

lemma mark_loop:
  assumes "0 < n"
  shows "try_each (\<lambda>(index, spec, h) t. case find_hash_mut (with_hash h) t (index * ED2K_PART_SIZE) (ps_size spec) 0 of
      (None, _, t') \<Rightarrow> (Inl InvalidPartNode, t') | (Some _, _, t') \<Rightarrow> (Inr (), t'))
    (zip [0..<length (collect_aich_part_specs n il)] (zip (collect_aich_part_specs n il) (part_roots sha1 data 0 n il))) t =
    try_each (\<lambda>(s, k, h). mark_at 0 s k h) (part_marks sha1 data 0 n il) t"
proof -
  let ?specs = "collect_aich_part_specs n il"
  have marks: "part_marks sha1 data 0 n il = map (\<lambda>(i, spec, h). (i * ED2K_PART_SIZE, ps_size spec, h))
      (zip [0..<length ?specs] (zip ?specs (part_roots sha1 data 0 n il)))"
    using spec_offsets_nth [OF assms] by (intro nth_equalityI) (auto simp: part_marks_def part_roots_def)
  show ?thesis
    unfolding marks try_each_map by (rule try_each_cong) (auto simp: mark_at_def)
qed

lemma leaf_loop:
  "try_each (\<lambda>(block, h) t. set_block_hash t (p + block * ED2K_EMBLOCK_SIZE) (min (k - block * ED2K_EMBLOCK_SIZE) ED2K_EMBLOCK_SIZE) h)
    (zip [0..<div_ceil k ED2K_EMBLOCK_SIZE] (map (\<lambda>(x, y). sha1 (slice data (p + x) y)) (chunks ED2K_EMBLOCK_SIZE k))) t =
    try_each (\<lambda>(x, y). set_block_at 0 (p + x) y (sha1 (slice data (p + x) y))) (chunks ED2K_EMBLOCK_SIZE k) t"
proof -
  let ?m = "div_ceil k ED2K_EMBLOCK_SIZE" and ?c = ED2K_EMBLOCK_SIZE
  have zipped: "zip [0..<?m] (map (\<lambda>(x, y). sha1 (slice data (p + x) y)) (chunks ?c k)) =
      map (\<lambda>i. (i, sha1 (slice data (p + i * ?c) (min (k - i * ?c) ?c)))) [0..<?m]"
    by (intro nth_equalityI) (auto simp: chunks_def)
  show ?thesis
    unfolding zipped unfolding chunks_def try_each_map by (rule try_each_cong) (auto simp: set_block_hash_at)
qed

lemma length_part_roots: "length (part_roots sha1 data off n il) = length (collect_aich_part_specs n il)"
  by (simp add: part_roots_def)

lemma from_cached_full:
  assumes "\<And>x. length (sha1 x) = 20" "tree_fits n" "unat part < part_count n"
    and p: "part_path n True p" "path_range n True p = (unat part * ED2K_PART_SIZE, part_size n (unat part))"
  shows "from_cached_part sha1 n (range_hash sha1 data 0 n True) (part_roots sha1 data 0 n True) part
      (packed_leaves sha1 data n ! unat part) =
    Inr \<lparr> rs_root = cached_tree True sha1 data 0 n True p, rs_file_size = n \<rparr>"
proof -
  let ?specs = "collect_aich_part_specs n True" and ?i = "unat part"
  let ?k = "part_size n ?i" and ?p = "unat part * ED2K_PART_SIZE"
  note n = tree_fits_facts [OF assms(2)]
  have i: "?i < length ?specs" using assms(3) specs_length [OF n(1)] by (simp add: part_count_def)
  have "?p \<le> n" using assms(3) by (auto simp: part_count_def less_imp_le_nat dest!: div_ceil_index)
  then have k: "ps_size (?specs ! ?i) = ?k" using spec_offsets_nth(2) [OF n(1) i] n(2) by (simp add: part_size_in_file)
  then have kb: "0 < ?k" "?k \<le> ED2K_PART_SIZE" using spec_bounds [OF n(1), of "?specs ! ?i" True] i by auto
  have leaves: "packed_leaves sha1 data n ! ?i = concat (leaf_hashes sha1 data ?p ?k (ps_is_left_branch (?specs ! ?i)))"
    using i spec_offsets_nth(1) [OF n(1) i] by (simp add: packed_leaves_def k)
  note lf = leaf_hashes_facts [of sha1, OF assms(1) kb]
  have hashes: "leaf_hashes sha1 data ?p ?k (ps_is_left_branch (?specs ! ?i)) =
      map (\<lambda>(x, y). sha1 (slice data (?p + x) y)) (chunks ED2K_EMBLOCK_SIZE ?k)"
    using kb by (simp add: leaf_hashes_def leaf_ranges_part)
  have packed: "length (packed_leaves sha1 data n ! ?i) = div_ceil ?k ED2K_EMBLOCK_SIZE * 20"
    "as_chunks20 (div_ceil ?k ED2K_EMBLOCK_SIZE) (packed_leaves sha1 data n ! ?i) =
      map (\<lambda>(x, y). sha1 (slice data (?p + x) y)) (chunks ED2K_EMBLOCK_SIZE ?k)"
    unfolding leaves hashes [symmetric] by (rule lf)+
  have root: "rs_root (hash_set_new n) = get_branch n True None" by (simp add: hash_set_new_root)
  show ?thesis
    using mark_parts [OF n(1), of 0 True sha1 data 0] set_cached_leaves [OF n(1) p, of 0 sha1 data 0]
      recalculate_cached [OF n(1) p(1), of sha1 data 0] n(3) [of True] i
    by (simp add: from_cached_part_def aich_part_specs_for_size_def Let_def mark_loop [OF n(1)] length_part_roots
        k packed leaf_loop root del: get_branch_simps)
qed

text \<open>C29: a cached set answers as the whole file does. Let a payload have been hashed by the combined
  builder and its packed leaves have been validated, which gives the part roots that are stored with
  them. Then for every part the set that \<^verbatim>\<open>from_cached_part\<close> rebuilds from the stored roots and the
  leaves of that part alone exists, has the right master hash, and emits byte for byte the recovery
  data that the tree of the whole payload emits.\<close>

theorem cached_part_answers_like_file:
  assumes "\<And>x. length (sha1 x) = 20" "tree_fits (length data)" "ED2K_EMBLOCK_SIZE < length data"
    and "unat part < part_count (length data)"
    and "build_from_data sha1 data (hash_set_new (length data)) = (res, s)"
    and "build_md4_and_aich_hashsets_from_reader md4 sha1 data (length data) = Inr sets"
    and "validate_aich_recovery_set sha1 (length data) (master_hash s) (ph_recovery_parts sets) = Inr roots"
  shows "\<exists>cached body. from_cached_part sha1 (length data) (master_hash s) roots part (ph_recovery_parts sets ! unat part) = Inr cached \<and>
    master_hash cached = master_hash s \<and>
    create_part_recovery_data (unat part) cached = (Inr body, cached) \<and>
    create_part_recovery_data (unat part) s = (Inr body, s)"
proof -
  let ?n = "length data"
  note n = tree_fits_facts [OF assms(2)]
  have s: "s = \<lparr> rs_root = full_tree sha1 data 0 ?n True, rs_file_size = ?n \<rparr>"
    using build_full [OF assms(2), of data sha1] assms(5) by simp
  then have m: "master_hash s = range_hash sha1 data 0 ?n True" by (simp add: master_hash_def range_hash_def)
  obtain file_hash md4s where "build_md4_hashset_from_payload md4 data ?n = Inr (file_hash, md4s)"
    using md4_hashset_file [OF n(1), of md4] by (metis surj_pair)
  from both_hashsets_file [OF n(1) this aich_hashset_file [OF n(1), of sha1]] assms(6)
  have sets: "ph_recovery_parts sets = packed_leaves sha1 data ?n" by auto
  have "?n \<le> 0x4000000000"
    using assms(7) by (auto simp: validate_aich_recovery_set_def recovery_roots_def try_bind_def split: if_splits)
  then have roots: "roots = part_roots sha1 data 0 ?n True"
    using recovery_roots_file [of sha1, OF assms(1) n(1)] assms(7) m by (simp add: validate_aich_recovery_set_def try_bind_def sets)
  have "(unat part * ED2K_PART_SIZE, part_size ?n (unat part)) \<in> set (chunks ED2K_PART_SIZE ?n)"
    using assms(4) by (auto simp flip: parts_are_chunks [OF n(2)])
  then obtain p where p: "part_path ?n True p" "path_range ?n True p = (unat part * ED2K_PART_SIZE, part_size ?n (unat part))"
    using part_path_chunk [OF n(1), where off = 0 and il = True] by fastforce
  let ?cached = "\<lparr> rs_root = cached_tree True sha1 data 0 ?n True p, rs_file_size = ?n \<rparr>"
  have "from_cached_part sha1 ?n (master_hash s) roots part (ph_recovery_parts sets ! unat part) = Inr ?cached"
    using from_cached_full [of sha1, OF assms(1,2,4) p, of data] by (simp add: m roots sets)
  moreover have "master_hash ?cached = master_hash s" by (simp add: m) (simp add: master_hash_def)
  moreover define items where "items = part_items sha1 data 0 ?n True p"
  note answer = create_recovery_from [of sha1, OF assms(1-4) part_path_valid [OF p(1)] p(2) items_def refl]
    create_recovery_full [of sha1, OF assms(1-4) part_path_valid [OF p(1)] p(2) s items_def refl]
  obtain node where "find_hash_mut (\<lambda>n. n) (cached_tree True sha1 data 0 ?n True p) (unat part * ED2K_PART_SIZE) (part_size ?n (unat part)) 0 =
      (Some node, Suc 0 + length p, cached_tree True sha1 data 0 ?n True p)"
    using find_cached [OF n(1) p, of 0 sha1 data 0] path_height [OF part_path_valid [OF p(1)]] n(3) [of True] by auto
  then have "create_part_recovery_data (unat part) ?cached = (fst (create_part_recovery_data (unat part) s), ?cached)"
    using answer cached_recovery_items [OF n(1) p, of sha1 data 0 0] by (simp add: items_def)
  moreover obtain body where "create_part_recovery_data (unat part) s = (Inr body, s)" using answer(2) by blast
  ultimately show ?thesis by auto
qed

theorem cached_part_answers_like_file_witness:
  "\<exists>s sets roots cached body. build_from_data example_sha1 example_file (hash_set_new 200000) = (Inr (), s) \<and>
     build_md4_and_aich_hashsets_from_reader (\<lambda>bs. arr16 (take 16 bs)) example_sha1 example_file 200000 = Inr sets \<and>
     from_cached_part example_sha1 200000 (master_hash s) roots 0 (ph_recovery_parts sets ! 0) = Inr cached \<and>
     create_part_recovery_data 0 cached = (Inr body, cached) \<and> create_part_recovery_data 0 s = (Inr body, s)"
proof -
  let ?md4 = "\<lambda>bs. arr16 (take 16 bs)" and ?n = "length example_file"
  let ?s = "\<lparr> rs_root = full_tree example_sha1 example_file 0 ?n True, rs_file_size = ?n \<rparr>"
  have n: "?n = 200000" "0 < ?n" by (simp_all add: example_file_def)
  have f: "tree_fits ?n" "ED2K_EMBLOCK_SIZE < ?n" "unat (0 :: u16) < part_count ?n"
    by (simp_all add: n tree_fits_def part_count_def div_ceil_def ED2K_PART_SIZE_def ED2K_EMBLOCK_SIZE_def)
  have len: "length (example_sha1 x) = 20" for x by (simp add: example_sha1_def)
  have built: "build_from_data example_sha1 example_file (hash_set_new ?n) = (Inr (), ?s)" by (rule build_full [OF f(1) refl])
  obtain file_hash md4s where "build_md4_hashset_from_payload ?md4 example_file ?n = Inr (file_hash, md4s)"
    using md4_hashset_file [OF n(2), of ?md4] by (metis surj_pair)
  note sets = both_hashsets_file [OF n(2) this aich_hashset_file [OF n(2), of example_sha1]]
  have "validate_aich_recovery_set example_sha1 ?n (master_hash ?s) (packed_leaves example_sha1 example_file ?n) =
      Inr (part_roots example_sha1 example_file 0 ?n True)"
    using recovery_roots_file [of example_sha1, OF len n(2)] n(1)
    by (simp add: validate_aich_recovery_set_def try_bind_def master_hash_def range_hash_def)
  then show ?thesis
    using cached_part_answers_like_file [of example_sha1, OF len f built sets] built sets by (simp add: n) blast
qed

end
