(* ===== verification/Aich_Answers.thy ===== *)
theory Aich_Answers
  imports Aich_Cache Op_System
begin

text \<open>
  The bounded cache of recovery answers (\<^verbatim>\<open>ed2k_transfer/aich_answer_cache.rs\<close>). Several workers answer
  requests at the same time; each takes the lock of the cache twice, so the model has the atomic
  steps of one call: the admission of a request, the storing of a computed answer, and the end of
  the work. The database lookups are the arguments \<^verbatim>\<open>leaves_of\<close> and \<^verbatim>\<open>roots_of\<close>. The capacity of a
  vector that was just cloned is its length. A poisoned lock is left out.
\<close>

section \<open>Definitions\<close>

type_synonym answer_key = "aich_hash \<times> nat \<times> u16"

definition BYTE_LIMIT :: nat where
  "BYTE_LIMIT = 64 * 1024 * 1024"

record answer_cache =
  ac_ready :: "answer_key \<rightharpoonup> bytes"
  ac_order :: "answer_key list"
  ac_inflight :: "answer_key set"
  ac_bytes :: nat

definition cache_default :: answer_cache where
  "cache_default = \<lparr> ac_ready = Map.empty, ac_order = [], ac_inflight = {}, ac_bytes = 0 \<rparr>"

datatype answer_error = MetadataFailed | RecoveryFailed aich_error

datatype admission_result = Hit bytes | Busy | Started

definition begin_answer :: "answer_key \<Rightarrow> answer_cache \<Rightarrow> admission_result \<times> answer_cache" where
  "begin_answer key c =
     (case ac_ready c key of Some a \<Rightarrow> (Hit a, c)
      | None \<Rightarrow> if key \<in> ac_inflight c then (Busy, c)
        else (Started, c\<lparr> ac_inflight := insert key (ac_inflight c) \<rparr>))"

definition end_answer :: "answer_key \<Rightarrow> answer_cache \<Rightarrow> answer_cache" where
  "end_answer key c = c\<lparr> ac_inflight := ac_inflight c - {key} \<rparr>"

definition compute_answer ::
  "(bytes \<Rightarrow> aich_hash) \<Rightarrow> (answer_key \<Rightarrow> answer_error + bytes option) \<Rightarrow> (aich_hash \<times> nat \<Rightarrow> answer_error + aich_hash list) \<Rightarrow>
   answer_key \<Rightarrow> answer_error + bytes option" where
  "compute_answer sha1 leaves_of roots_of = (\<lambda>(master, sz, part).
     try_bind (leaves_of (master, sz, part)) (\<lambda>found. case found of None \<Rightarrow> Inr None
      | Some leaves \<Rightarrow>
        try_bind (roots_of (master, sz)) (\<lambda>roots.
        case from_cached_part sha1 sz master roots part leaves of Inl e \<Rightarrow> Inl (RecoveryFailed e)
        | Inr hash_set \<Rightarrow> (case fst (create_part_recovery_data (unat part) hash_set) of Inl e \<Rightarrow> Inl (RecoveryFailed e)
          | Inr response \<Rightarrow> Inr (Some response)))))"

text \<open>The eviction loop: it drops answers in the order of their insertion until the new one fits.\<close>

fun evict :: "nat \<Rightarrow> answer_key list \<Rightarrow> (answer_key \<rightharpoonup> bytes) \<Rightarrow> nat \<Rightarrow> answer_key list \<times> (answer_key \<rightharpoonup> bytes) \<times> nat" where
  "evict cost [] ready used = ([], ready, used)"
| "evict cost (old # order) ready used =
     (if used + cost > BYTE_LIMIT then
        evict cost order (ready(old := None)) (case ready old of Some a \<Rightarrow> used - (length a + 256) | None \<Rightarrow> used)
      else (old # order, ready, used))"

definition store_answer :: "answer_key \<Rightarrow> bytes \<Rightarrow> answer_cache \<Rightarrow> answer_cache" where
  "store_answer key response c =
     (let cost = length response + 256 in
      if cost \<le> BYTE_LIMIT then
        let (order, ready, used) = evict cost (ac_order c) (ac_ready c) (ac_bytes c)
        in c\<lparr> ac_bytes := used + cost, ac_order := order @ [key], ac_ready := ready(key \<mapsto> response) \<rparr>
      else c)"

text \<open>One call without interruption.\<close>

definition answer ::
  "(bytes \<Rightarrow> aich_hash) \<Rightarrow> (answer_key \<Rightarrow> answer_error + bytes option) \<Rightarrow> (aich_hash \<times> nat \<Rightarrow> answer_error + aich_hash list) \<Rightarrow>
   answer_key \<Rightarrow> answer_cache \<Rightarrow> (answer_error + bytes option) \<times> answer_cache" where
  "answer sha1 leaves_of roots_of key c =
     (case begin_answer key c of
        (Hit a, c') \<Rightarrow> (Inr (Some a), c')
      | (Busy, c') \<Rightarrow> (Inr None, c')
      | (Started, c') \<Rightarrow>
        (case compute_answer sha1 leaves_of roots_of key of
           Inr (Some response) \<Rightarrow> (Inr (Some response), end_answer key (store_answer key response c'))
         | r \<Rightarrow> (r, end_answer key c')))"

section \<open>Runs of interleaved calls\<close>

text \<open>The steps of all workers, in any order. \<open>sys_working\<close> records the calls that have been started
  and have neither stored an answer nor ended.\<close>

record answer_system =
  sys_cache :: answer_cache
  sys_working :: "answer_key set"

datatype answer_op = Begin answer_key | Store answer_key bytes | End answer_key

fun answer_step :: "answer_op \<Rightarrow> answer_system \<Rightarrow> answer_system" where
  "answer_step (Begin key) s = (case begin_answer key (sys_cache s) of
     (Started, c) \<Rightarrow> \<lparr> sys_cache = c, sys_working = insert key (sys_working s) \<rparr>
   | (_, c) \<Rightarrow> s\<lparr> sys_cache := c \<rparr>)"
| "answer_step (Store key response) s =
     \<lparr> sys_cache = store_answer key response (sys_cache s), sys_working = sys_working s - {key} \<rparr>"
| "answer_step (End key) s =
     \<lparr> sys_cache = end_answer key (sys_cache s), sys_working = sys_working s - {key} \<rparr>"

text \<open>A worker stores only the answer it computed, once, for a call it has started.\<close>

fun answer_allowed :: "(answer_key \<Rightarrow> answer_error + bytes option) \<Rightarrow> answer_system \<Rightarrow> answer_op \<Rightarrow> bool" where
  "answer_allowed compute s (Begin key) = True"
| "answer_allowed compute s (Store key response) = (key \<in> sys_working s \<and> compute key = Inr (Some response))"
| "answer_allowed compute s (End key) = (key \<in> ac_inflight (sys_cache s))"

definition entry_cost :: "(answer_key \<rightharpoonup> bytes) \<Rightarrow> answer_key \<Rightarrow> nat" where
  "entry_cost ready key = (case ready key of Some a \<Rightarrow> length a + 256 | None \<Rightarrow> 0)"

definition cache_ok :: "(answer_key \<Rightarrow> answer_error + bytes option) \<Rightarrow> answer_cache \<Rightarrow> bool" where
  "cache_ok compute c \<longleftrightarrow> distinct (ac_order c) \<and> set (ac_order c) = dom (ac_ready c) \<and>
     ac_bytes c = sum_list (map (entry_cost (ac_ready c)) (ac_order c)) \<and> ac_bytes c \<le> BYTE_LIMIT \<and>
     (\<forall>key a. ac_ready c key = Some a \<longrightarrow> compute key = Inr (Some a))"

definition system_ok :: "(answer_key \<Rightarrow> answer_error + bytes option) \<Rightarrow> answer_system \<Rightarrow> bool" where
  "system_ok compute s \<longleftrightarrow> cache_ok compute (sys_cache s) \<and> sys_working s \<subseteq> ac_inflight (sys_cache s) \<and>
     (\<forall>key \<in> sys_working s. ac_ready (sys_cache s) key = None)"

lemma entry_cost_upd: "key \<notin> set ks \<Longrightarrow> map (entry_cost (ready(key := v))) ks = map (entry_cost ready) ks"
  by (auto simp: entry_cost_def)

lemma evict_ok:
  assumes "distinct order" "set order = dom ready" "used = sum_list (map (entry_cost ready) order)" "cost \<le> BYTE_LIMIT"
    and "evict cost order ready used = (order', ready', used')"
  shows "distinct order' \<and> set order' = dom ready' \<and> used' = sum_list (map (entry_cost ready') order') \<and>
    used' + cost \<le> BYTE_LIMIT \<and> ready' \<subseteq>\<^sub>m ready"
  using assms
proof (induction cost order ready used rule: evict.induct)
  case (2 cost old order ready used)
  show ?case
  proof (cases "used + cost > BYTE_LIMIT")
    case True
    obtain a where a: "ready old = Some a" using 2(3) by (metis domD list.set_intros(1))
    let ?ready = "ready(old := None)"
    have cost: "entry_cost ready old = length a + 256" by (simp add: entry_cost_def a)
    have sub: "?ready \<subseteq>\<^sub>m ready" by (auto simp: map_le_def)
    have order: "distinct order" "set order = dom ?ready" using 2(2,3) by auto
    have used: "(case ready old of Some a \<Rightarrow> used - (length a + 256) | None \<Rightarrow> used) = sum_list (map (entry_cost ?ready) order)"
      using 2(2,4) by (simp add: a cost entry_cost_upd)
    have "evict cost order ?ready (case ready old of Some a \<Rightarrow> used - (length a + 256) | None \<Rightarrow> used) = (order', ready', used')"
      using 2(6) True by simp
    then have "distinct order' \<and> set order' = dom ready' \<and> used' = sum_list (map (entry_cost ready') order') \<and>
        used' + cost \<le> BYTE_LIMIT \<and> ready' \<subseteq>\<^sub>m ?ready"
      by (rule 2(1) [OF True order used 2(5)])
    with sub show ?thesis using map_le_trans by blast
  next
    case False
    with 2 show ?thesis by auto
  qed
qed auto

lemma store_answer_ok:
  assumes "cache_ok compute c" "ac_ready c key = None" "compute key = Inr (Some response)"
  shows "cache_ok compute (store_answer key response c) \<and>
    (\<forall>k. k \<noteq> key \<longrightarrow> ac_ready c k = None \<longrightarrow> ac_ready (store_answer key response c) k = None) \<and>
    ac_inflight (store_answer key response c) = ac_inflight c"
proof (cases "length response + 256 \<le> BYTE_LIMIT")
  case True
  obtain order ready used where e: "evict (length response + 256) (ac_order c) (ac_ready c) (ac_bytes c) = (order, ready, used)"
    by (metis prod_cases3)
  then have ok: "distinct order" "set order = dom ready" "used = sum_list (map (entry_cost ready) order)"
    "used + (length response + 256) \<le> BYTE_LIMIT" "ready \<subseteq>\<^sub>m ac_ready c"
    using evict_ok [OF _ _ _ True e] assms(1) by (auto simp: cache_ok_def)
  have mono: "ready k = Some a \<Longrightarrow> ac_ready c k = Some a" for k a using ok(5) by (metis domI map_le_def)
  then have "ready key = None" using assms(2) by (metis not_Some_eq)
  then have "key \<notin> set order" using ok(2) by auto
  moreover have "ac_ready c k = None \<Longrightarrow> ready k = None" for k using mono by (metis not_Some_eq)
  moreover have "store_answer key response c = c\<lparr> ac_bytes := used + (length response + 256), ac_order := order @ [key],
      ac_ready := ready(key \<mapsto> response) \<rparr>"
    using True by (simp add: store_answer_def e)
  ultimately show ?thesis
    using ok mono assms(1,3) by (auto simp: cache_ok_def entry_cost_upd entry_cost_def)
qed (use assms in \<open>simp add: store_answer_def\<close>)

lemma answer_step_keeps: "system_ok compute s \<Longrightarrow> answer_allowed compute s op \<Longrightarrow> system_ok compute (answer_step op s)"
proof (cases op)
  case (Begin key)
  moreover assume "system_ok compute s"
  ultimately show ?thesis
    by (auto simp: system_ok_def begin_answer_def cache_ok_def split: option.splits)
next
  case (Store key response)
  moreover assume "system_ok compute s" "answer_allowed compute s op"
  ultimately show ?thesis
    using store_answer_ok [of compute "sys_cache s" key response] by (auto simp: system_ok_def simp del: split_paired_All)
next
  case (End key)
  moreover assume "system_ok compute s"
  ultimately show ?thesis by (auto simp: system_ok_def end_answer_def cache_ok_def)
qed

interpretation answer_runs: op_system answer_step "answer_allowed compute" "system_ok compute" for compute
  by unfold_locales (rule answer_step_keeps)

lemma sum_list_costs: "set ks \<subseteq> dom ready \<Longrightarrow> 256 * length ks \<le> sum_list (map (entry_cost ready) ks)"
  by (induction ks) (auto simp: entry_cost_def)

text \<open>C30: the answer cache is bounded and transparent. In every interleaving of the calls that answer
  recovery requests, the byte counter is the exact cost of the stored answers and never exceeds 64
  MiB, every stored key is queued for eviction exactly once, at most 262144 answers are stored, and
  every answer that the cache returns is the one that would be computed afresh from the stored
  metadata.\<close>

theorem answer_cache_transparent:
  assumes "allowed_run (answer_allowed (compute_answer sha1 leaves_of roots_of)) answer_step
      \<lparr> sys_cache = cache_default, sys_working = {} \<rparr> ops"
  defines "c \<equiv> sys_cache (fold answer_step ops \<lparr> sys_cache = cache_default, sys_working = {} \<rparr>)"
  shows "ac_bytes c = sum_list (map (entry_cost (ac_ready c)) (ac_order c)) \<and> ac_bytes c \<le> BYTE_LIMIT \<and>
    distinct (ac_order c) \<and> set (ac_order c) = dom (ac_ready c) \<and> length (ac_order c) \<le> 262144 \<and>
    (\<forall>key a. begin_answer key c = (Hit a, c) \<longrightarrow> compute_answer sha1 leaves_of roots_of key = Inr (Some a))"
proof -
  let ?compute = "compute_answer sha1 leaves_of roots_of"
  have "system_ok ?compute \<lparr> sys_cache = cache_default, sys_working = {} \<rparr>"
    by (simp add: system_ok_def cache_ok_def cache_default_def)
  then have ok: "cache_ok ?compute c"
    using answer_runs.run_keeps [OF _ assms(1)] by (simp add: system_ok_def c_def)
  then have "256 * length (ac_order c) \<le> BYTE_LIMIT"
    using sum_list_costs [of "ac_order c" "ac_ready c"] by (auto simp: cache_ok_def)
  then have "length (ac_order c) \<le> 262144" by (simp add: BYTE_LIMIT_def)
  with ok show ?thesis by (auto simp: cache_ok_def begin_answer_def split: option.splits if_splits)
qed

text \<open>The metadata of one two-block file, and a run that answers two requests for it.\<close>

definition example_answer_key :: answer_key where
  "example_answer_key = (range_hash example_sha1 example_file 0 200000 True, 200000, 0)"

definition example_leaves_of :: "answer_key \<Rightarrow> answer_error + bytes option" where
  "example_leaves_of key = Inr (if key = example_answer_key then Some (packed_leaves example_sha1 example_file 200000 ! 0) else None)"

definition example_roots_of :: "aich_hash \<times> nat \<Rightarrow> answer_error + aich_hash list" where
  "example_roots_of key = Inr (part_roots example_sha1 example_file 0 200000 True)"

lemma example_compute:
  obtains response where "compute_answer example_sha1 example_leaves_of example_roots_of example_answer_key = Inr (Some response)"
proof -
  let ?cached = "\<lparr> rs_root = cached_tree True example_sha1 example_file 0 200000 True [], rs_file_size = 200000 \<rparr>"
  have f: "tree_fits 200000" "ED2K_EMBLOCK_SIZE < 200000" "0 < part_count 200000" "unat (0 :: u16) < part_count 200000"
    by (simp_all add: tree_fits_def part_count_def div_ceil_def ED2K_PART_SIZE_def ED2K_EMBLOCK_SIZE_def)
  have len: "length (example_sha1 x) = 20" for x by (simp add: example_sha1_def)
  have p: "part_path 200000 True []" "path_range 200000 True [] = (0 * ED2K_PART_SIZE, part_size 200000 0)"
    "path_range 200000 True [] = (unat (0 :: u16) * ED2K_PART_SIZE, part_size 200000 (unat (0 :: u16)))"
    by (simp_all add: ED2K_PART_SIZE_def part_size_def)
  have "from_cached_part example_sha1 200000 (range_hash example_sha1 example_file 0 200000 True)
      (part_roots example_sha1 example_file 0 200000 True) 0 (packed_leaves example_sha1 example_file 200000 ! 0) = Inr ?cached"
    using from_cached_full [of example_sha1, OF len f(1,4) p(1,3), of example_file] by simp
  moreover have "\<exists>body. create_part_recovery_data 0 ?cached = (Inr body, ?cached)"
    using create_recovery_full [of example_sha1, OF len f(1-3) part_path_valid [OF p(1)] p(2) refl refl refl, of example_file] by simp
  ultimately show thesis
    using that by (auto simp: compute_answer_def example_leaves_of_def example_roots_of_def example_answer_key_def try_bind_def)
qed

theorem answer_cache_transparent_witness:
  "\<exists>response c. let s = \<lparr> sys_cache = cache_default, sys_working = {} \<rparr>;
       ops = [Begin example_answer_key, Begin example_answer_key, Store example_answer_key response, End example_answer_key, Begin example_answer_key]
     in allowed_run (answer_allowed (compute_answer example_sha1 example_leaves_of example_roots_of)) answer_step s ops \<and>
       c = sys_cache (fold answer_step ops s) \<and> ac_bytes c \<le> BYTE_LIMIT \<and> distinct (ac_order c)"
proof -
  obtain response where "compute_answer example_sha1 example_leaves_of example_roots_of example_answer_key = Inr (Some response)"
    by (rule example_compute)
  then have "allowed_run (answer_allowed (compute_answer example_sha1 example_leaves_of example_roots_of)) answer_step
      \<lparr> sys_cache = cache_default, sys_working = {} \<rparr>
      [Begin example_answer_key, Begin example_answer_key, Store example_answer_key response, End example_answer_key, Begin example_answer_key]"
    by (simp add: begin_answer_def cache_default_def store_answer_def Let_def split: prod.splits)
  then show ?thesis
    using answer_cache_transparent [of example_sha1 example_leaves_of example_roots_of
        "[Begin example_answer_key, Begin example_answer_key, Store example_answer_key response, End example_answer_key, Begin example_answer_key]"]
    unfolding Let_def by blast
qed

end
