(* ===== verification/Spec2Isabelle.thy ===== *)
theory Spec2Isabelle
  imports Routing_Table Rpc_Manager Index_Snapshot Aich_Answers
begin

text \<open>
  A verification development for the Kademlia stack of the eMuleBB Rust client.

  \<^bold>\<open>The program.\<close> A node keeps a routing table of contacts (crate \<^verbatim>\<open>emulebb-kad-routing\<close>), speaks
  a binary protocol of tagged packets (\<^verbatim>\<open>emulebb-kad-proto\<close>), and sends and receives datagrams
  through an rpc manager that obfuscates them, limits floods and matches responses with requests
  (\<^verbatim>\<open>emulebb-kad-net\<close>). All paths below are under \<^verbatim>\<open>src/crates/\<close>.

  \<^bold>\<open>The theories and the code they model.\<close>
  \<^item> \<open>Prelude\<close>: fixed-size integers, little-endian bytes, results, positions and scans that several
    components share; these model what the sources use of Rust's standard library.
  \<^item> \<open>Op_System\<close>, \<open>Contact_Store\<close>: the interfaces. \<open>op_system\<close> is a machine whose operations keep an
    invariant under a guard; it is interpreted on the routing table (with and without the bookkeeping),
    on the flood bans, on the response registry and on the obfuscation layer. \<open>contact_store\<close> is a
    collection of contacts with at most one per identifier; it is interpreted on the bin and the zone tree.
  \<^item> \<open>Node_Id\<close> (\<^verbatim>\<open>kad-proto/src/node_id.rs\<close>, \<^verbatim>\<open>hash.rs\<close>): identifiers as four 32-bit chunks, their XOR
    distance, order, byte forms and text forms.
  \<^item> \<open>Routing_Contact\<close>, \<open>Routing_Bin\<close>, \<open>Routing_Maintenance\<close>, \<open>Routing_Zone\<close>, \<open>Routing_Table\<close>
    (\<^verbatim>\<open>kad-routing/src/contact.rs\<close>, \<^verbatim>\<open>bin.rs\<close>, \<^verbatim>\<open>maintenance.rs\<close>, \<^verbatim>\<open>zone.rs\<close>, \<^verbatim>\<open>table.rs\<close>): a contact's
    life cycle, the k-bucket, the timers, the splitting and merging tree and the table with its
    counts of addresses and networks.
  \<^item> \<open>Kad_Wire\<close>, \<open>Kad_Tag\<close>, \<open>Kad_Packet_Types\<close>, \<open>Kad_Packet\<close> (\<^verbatim>\<open>kad-proto/src/error.rs\<close>, \<^verbatim>\<open>tag.rs\<close>,
    \<^verbatim>\<open>packet/types.rs\<close>, \<^verbatim>\<open>packet/codec.rs\<close>, \<^verbatim>\<open>packet.rs\<close>): readers and writers of the wire format. The
    interface \<open>codec\<close> is a writer with a reader that undoes it; it is interpreted on tags, contacts,
    publish entries and search results, and gives the counted vectors of each of them.
  \<^item> \<open>Packet_Tracker\<close>, \<open>Outbound_Tracker\<close> (\<^verbatim>\<open>kad-net/src/tracker.rs\<close>, \<^verbatim>\<open>tracker/outbound.rs\<close>,
    \<^verbatim>\<open>rpc/search_response_registry.rs\<close>): the token buckets of inbound requests and the flood bans, the
    window of outbound requests, the registry of expected search responses.
  \<^item> \<open>Kad_Obfuscation\<close> (\<^verbatim>\<open>kad-net/src/obfuscation.rs\<close> and its modules): RC4, key derivation, the
    bounded peer maps, sealing and opening of datagrams.
  \<^item> \<open>Rpc_Packet_Info\<close>, \<open>Rpc_Manager\<close> (\<^verbatim>\<open>kad-net/src/rpc/packet_info.rs\<close>, \<^verbatim>\<open>rpc.rs\<close>, \<^verbatim>\<open>rpc/outbound.rs\<close>,
    \<^verbatim>\<open>rpc/receive_loop.rs\<close>): classification of packets, sending, the registration of requests and one
    turn of the receive loop as a function from the manager's state and a datagram to an outcome and the
    next state, with every early \<^verbatim>\<open>continue\<close> an outcome of its own.
  This theory holds the properties that span the sender and the receiver.

  \<^bold>\<open>Conventions.\<close> A Rust \<^verbatim>\<open>Result\<close> is a sum with the error on the left, a method that takes
  \<^verbatim>\<open>&mut self\<close> returns the new state, machine integers are words except \<^verbatim>\<open>usize\<close> (natural numbers)
  and \<^verbatim>\<open>i64\<close> (integers with the saturation or wrap-around of the source written out). A \<^verbatim>\<open>HashMap\<close> is a
  map, or an association list where its iteration order can be observed. Strings are their UTF-8 bytes.
  Clock readings and random numbers are arguments of the operations that take them.

  \<^bold>\<open>What is shown.\<close>
  \<^item> Routing: every run of table operations keeps the tree well-formed and the counts of addresses and
    networks exact; insertion, update and removal refine a finite map; the closest contacts are the
    nearest ones; splitting and consolidation lose no contact unaccounted.
  \<^item> Wire format: encoding and decoding are inverse up to the documented widening of integers, encoding
    fails exactly on a count overflow, and what a decoder allocates is bounded by the datagram.
  \<^item> Flood control: in every interval the accepted requests of a stream stay within the budget; a massive
    flood bans for an hour; the pruned queue of outbound requests answers like one that is never pruned.
  \<^item> Obfuscation and rpc: a sealed datagram is opened by its receiver with the right keys; a rejected
    packet changes no peer state and no request; a delivered one has passed every check; what a node sends
    is delivered as the same packet.

  \<^bold>\<open>Parameters.\<close> MD5, the zlib compressor and decompressor and the legacy text decoder are function
  arguments. The hypotheses on them are their documented behaviour: inflating a deflated body gives it
  back, and an MD5 digest has sixteen bytes. Each witness instantiates them with concrete functions.

  \<^bold>\<open>Bounds and fuel.\<close> No definition uses fuel. The obfuscation layer draws random markers until one is not
  reserved; the draws are a list argument, running out of it is an outcome of its own, and it is shown that
  one admissible draw is enough and that such draws exist. The recursion of the zone tree ends because every
  split increases the depth, which is limited by 127.

  \<^bold>\<open>Not modelled.\<close> Within these crates: the estimates of the network size (floating point), rate limiting of
  outgoing datagrams (floating point, only delays), the asynchronous wait of a request for its response, dumps,
  counters and logs, sockets. The other crates are listed with their reasons in the manifest: the
  search expressions, the Kad index and the lookups of \<^verbatim>\<open>emulebb-kad-dht\<close>, the eD2k protocol and transfers, the
  application core, the REST interface and the SQL store.
\<close>


section \<open>From sender to receiver\<close>

lemma encode_header: "Kad_Packet.encode p = Inr buf \<Longrightarrow> 2 \<le> length buf \<and> buf ! 0 = OP_KADEMLIAHEADER"
  by (auto simp: Kad_Packet.encode_def try_bind_Inr_iff)

lemma packed_header: "kad_header buf \<Longrightarrow> kad_header (pack_kad_packet deflate buf)"
  by (auto simp: pack_kad_packet_def kad_header_def Let_def split: option.splits)

lemma sent_datagram:
  assumes "send_packet md5 deflate s addr p rnd draws True now = (Sent wire, s')"
  shows "\<exists>buf. Kad_Packet.encode p = Inr buf
    \<and> encrypt md5 (rs_obfuscation s) addr (opcode p) (pack_kad_packet deflate buf) rnd draws = Datagram wire
    \<and> s' = s\<lparr> rs_outbound_tracker := outbound_record (rs_outbound_tracker s) (fst addr) (opcode p) now now \<rparr>"
  using assms by (auto simp: send_packet_def Let_def split: if_splits sum.splits encrypt_outcome.splits)








text \<open>C1: End to end, what one node sends is what the other decodes: a packet that is encoded, packed, obfuscated
  and sent is recovered by the receiver's decryption, decompression and decoding as the same packet in
  its read form, and if the receiver's checks let it through, it is this packet that is delivered.\<close>

theorem datagram_delivery:
  assumes "packet_ok p" "zlib_ok deflate inflate" "Kad_Packet.encode p = Inr buf" "length buf \<le> 65538"
    and "send_packet md5 deflate s (V4 dip, dport) p rnd draws True now = (Sent wire, s')"
    and "knows_peer md5 (rs_obfuscation s) (V4 dip, dport) (rs_obfuscation r) sip"
  shows "Kad_Packet.decode inflate legacy (dr_data (decrypt md5 (rs_obfuscation r) (V4 sip, sport) wire)) = Inr (norm_packet p)
    \<and> (case fst (receive_datagram md5 inflate legacy foreign r (V4 sip, sport) wire now') of
         RxResponse _ q \<Rightarrow> q = norm_packet p
       | RxUnsolicited k \<Rightarrow> rk_packet k = norm_packet p
       | _ \<Rightarrow> True)"
proof -
  have h: "2 \<le> length buf" "buf ! 0 = OP_KADEMLIAHEADER" using encode_header [OF assms(3)] by simp_all
  then have "kad_header (pack_kad_packet deflate buf)" by (intro packed_header) (auto simp: kad_header_def)
  moreover have "encrypt md5 (rs_obfuscation s) (V4 dip, dport) (opcode p) (pack_kad_packet deflate buf) rnd draws = Datagram wire"
    using sent_datagram [OF assms(5)] assms(3) by simp
  ultimately have "dr_data (decrypt md5 (rs_obfuscation r) (V4 sip, sport) wire) = pack_kad_packet deflate buf"
    by (simp add: opened_datagram [OF _ assms(6)])
  moreover have "Kad_Packet.decode inflate legacy (pack_kad_packet deflate buf) = Inr (norm_packet p)"
    using packed_decodes [OF assms(2,4) h] decode_encoded [OF assms(1,3)] by simp
  ultimately have d: "Kad_Packet.decode inflate legacy (dr_data (decrypt md5 (rs_obfuscation r) (V4 sip, sport) wire)) = Inr (norm_packet p)"
    by simp
  then show ?thesis using received_packet [OF d] by simp
qed

text \<open>The node of the obfuscation example sends a PING.\<close>

lemma example_send:
  "\<exists>wire s'. send_packet pad_md5 run_deflate (rpc_new example_layer 100 100 (from_secs 60) (from_secs 60))
     (V4 (Ipv4 10 0 0 2), 4672) PktPing 0x1234 [0xE4, 0x41] True 5 = (Sent wire, s')"
proof -
  have "draw AND NOT 0x03 \<notin> {0xB0, 0xD4, 0xE4}" if "draw = (0x41 :: u8)" for draw
    using that by simp
  then obtain wire where "encrypt pad_md5 example_layer (V4 (Ipv4 10 0 0 2), 4672) OP_PING [0xE4, 0x60] 0x1234 [0xE4, 0x41] = Datagram wire"
    using encrypt_ends [of "0x41" "[0xE4, 0x41]"] by force
  then show ?thesis
    by (simp add: send_packet_def rpc_new_def Kad_Packet.encode_def packet_validate_wire_counts_def encode_body_def opcode_def
        pack_kad_packet_def KAD_PACK_THRESHOLD_def OP_KADEMLIAHEADER_def OP_PING_def Let_def)
qed

theorem datagram_delivery_witness:
  "\<exists>wire s'. send_packet pad_md5 run_deflate (rpc_new example_layer 100 100 (from_secs 60) (from_secs 60))
      (V4 (Ipv4 10 0 0 2), 4672) PktPing 0x1234 [0xE4, 0x41] True 5 = (Sent wire, s')
     \<and> Kad_Packet.decode run_inflate (\<lambda>b. b)
         (dr_data (decrypt pad_md5 (rs_obfuscation example_rpc) (V4 (Ipv4 10 0 0 1), 4672) wire)) = Inr PktPing"
proof -
  have "packet_ok PktPing" by (simp add: packet_ok_def)
  moreover have "Kad_Packet.encode PktPing = Inr [0xE4, 0x60]"
    by (simp add: Kad_Packet.encode_def packet_validate_wire_counts_def encode_body_def opcode_def OP_KADEMLIAHEADER_def OP_PING_def)
  moreover have "knows_peer pad_md5 (rs_obfuscation (rpc_new example_layer 100 100 (from_secs 60) (from_secs 60)))
      (V4 (Ipv4 10 0 0 2), 4672) (rs_obfuscation example_rpc) (Ipv4 10 0 0 1)"
    by (simp add: knows_peer_def rpc_new_def example_rpc_def peer_state_for_addr_def peer_or_default_def example_layer_def layer_new_def)
  ultimately show ?thesis
    using example_send datagram_delivery [of PktPing run_deflate run_inflate "[0xE4, 0x60]" pad_md5
      "rpc_new example_layer 100 100 (from_secs 60) (from_secs 60)" "Ipv4 10 0 0 2" 4672 "0x1234" "[0xE4, 0x41]" 5 _ _
      example_rpc "Ipv4 10 0 0 1" "\<lambda>b. b" 4672] run_zlib
    by (fastforce simp: norm_packet_def)
qed



end
